(* ===== verification/Prelude.thy ===== *)
theory Prelude
  imports Main
begin

text \<open>
  What every component shares: the outcome of a Rust call (\<open>res\<close>), the combinators of
  \<open>Result\<close> and \<open>Option\<close> that the code uses (the \<open>?\<close> operator, \<open>map_err\<close>, \<open>ok_or\<close>,
  \<open>or\<close>), iteration over a \<open>HashMap\<close> in an unspecified order, and generic list lemmas.
\<close>

named_theorems path_eval \<open>evaluation of operations on concrete paths\<close>
named_theorems load_eval \<open>evaluation of the loaders on concrete documents\<close>

section \<open>Outcomes of a call\<close>

text \<open>
  A call of a function returning \<open>Result\<close> ends with \<open>Ok\<close> or \<open>Err\<close>; any call may also unwind
  (\<open>Panic\<close>) or never return (\<open>Hang\<close>). A function that returns no \<open>Result\<close> has an
  outcome without \<open>Err\<close>.
\<close>

datatype ('a, 'e) res = Ok 'a | Err 'e | Panic | Hang

text \<open>The \<open>?\<close> operator: go on with the value, or return the error (or unwind) at once.\<close>

fun and_then :: "('a, 'e) res \<Rightarrow> ('a \<Rightarrow> ('b, 'e) res) \<Rightarrow> ('b, 'e) res" where
  "and_then (Ok x) f = f x"
| "and_then (Err e) f = Err e"
| "and_then Panic f = Panic"
| "and_then Hang f = Hang"

fun map_err :: "('e \<Rightarrow> 'f) \<Rightarrow> ('a, 'e) res \<Rightarrow> ('a, 'f) res" where
  "map_err h (Ok x) = Ok x"
| "map_err h (Err e) = Err (h e)"
| "map_err h Panic = Panic"
| "map_err h Hang = Hang"

text \<open>\<open>Option::ok_or\<close> and \<open>Result::or(Err(e))\<close>.\<close>

fun ok_or :: "'a option \<Rightarrow> 'e \<Rightarrow> ('a, 'e) res" where
  "ok_or (Some x) e = Ok x"
| "ok_or None e = Err e"

definition or_err :: "('a, 'e) res \<Rightarrow> 'f \<Rightarrow> ('a, 'f) res" where
  "or_err r e = map_err (\<lambda>_. e) r"

text \<open>\<open>iter().map(f).collect()\<close> for a closure that may fail: stops at the first failure.\<close>

fun try_map :: "('a \<Rightarrow> ('b, 'e) res) \<Rightarrow> 'a list \<Rightarrow> ('b list, 'e) res" where
  "try_map f [] = Ok []"
| "try_map f (x # xs) = and_then (f x) (\<lambda>y. and_then (try_map f xs) (\<lambda>ys. Ok (y # ys)))"

fun is_ok :: "('a, 'e) res \<Rightarrow> bool" where
  "is_ok (Ok _) = True"
| "is_ok _ = False"

lemma and_then_Ok_iff [simp]:
  "and_then r f = Ok y \<longleftrightarrow> (\<exists>x. r = Ok x \<and> f x = Ok y)"
  by (cases r) auto

lemma and_then_Panic_iff:
  "and_then r f = Panic \<longleftrightarrow> r = Panic \<or> (\<exists>x. r = Ok x \<and> f x = Panic)"
  by (cases r) auto

lemma and_then_Hang_iff:
  "and_then r f = Hang \<longleftrightarrow> r = Hang \<or> (\<exists>x. r = Ok x \<and> f x = Hang)"
  by (cases r) auto

lemma and_then_Err_iff:
  "and_then r f = Err e \<longleftrightarrow> r = Err e \<or> (\<exists>x. r = Ok x \<and> f x = Err e)"
  by (cases r) auto

lemma map_err_Ok_iff [simp]: "map_err h r = Ok x \<longleftrightarrow> r = Ok x"
  by (cases r) auto

lemma map_err_Panic_iff [simp]: "map_err h r = Panic \<longleftrightarrow> r = Panic"
  by (cases r) auto

lemma map_err_Hang_iff [simp]: "map_err h r = Hang \<longleftrightarrow> r = Hang"
  by (cases r) auto

lemma map_err_Err_iff: "map_err h r = Err e \<longleftrightarrow> (\<exists>d. r = Err d \<and> e = h d)"
  by (cases r) auto

lemma ok_or_Ok_iff [simp]: "ok_or a e = Ok x \<longleftrightarrow> a = Some x"
  by (cases a) auto

lemma ok_or_no_unwind [simp]: "ok_or a e \<noteq> Panic" "ok_or a e \<noteq> Hang"
  by (cases a; simp)+

lemma try_map_Ok_iff:
  "try_map f xs = Ok ys \<longleftrightarrow> list_all2 (\<lambda>x y. f x = Ok y) xs ys"
  by (induction xs arbitrary: ys) (auto simp: list_all2_Cons1)

lemma try_map_Panic_elem: "try_map f xs = Panic \<Longrightarrow> \<exists>x\<in>set xs. f x = Panic"
  by (induction xs) (auto simp: and_then_Panic_iff)

lemma try_map_first_Panic:
  "\<lbrakk>\<forall>x\<in>set xs. f x \<noteq> Hang \<and> (\<forall>e. f x \<noteq> Err e); x \<in> set xs; f x = Panic\<rbrakk>
    \<Longrightarrow> try_map f xs = Panic"
proof (induction xs)
  case (Cons a xs)
  then show ?case by (cases "f a") (auto simp: and_then_Panic_iff)
qed simp

lemma try_map_no_Hang: "\<forall>x\<in>set xs. f x \<noteq> Hang \<Longrightarrow> try_map f xs \<noteq> Hang"
  by (induction xs) (auto simp: and_then_Hang_iff)

lemma try_map_no_Err: "\<forall>x\<in>set xs. \<forall>e. f x \<noteq> Err e \<Longrightarrow> try_map f xs \<noteq> Err d"
  by (induction xs) (auto simp: and_then_Err_iff)

lemmas res_elim = and_then_Panic_iff and_then_Hang_iff and_then_Err_iff map_err_Err_iff

section \<open>Hash maps\<close>

text \<open>
  A \<open>HashMap\<close> is a partial map. Iteration yields every entry once, in an order the standard
  library leaves unspecified: an operation that iterates takes that order as an argument.
\<close>

type_synonym ('k, 'v) hash_map = "'k \<Rightarrow> 'v option"

definition hash_order :: "('k, 'v) hash_map \<Rightarrow> 'k list \<Rightarrow> bool" where
  "hash_order m ks \<longleftrightarrow> distinct ks \<and> set ks = dom m"

definition hash_values :: "('k, 'v) hash_map \<Rightarrow> 'k list \<Rightarrow> 'v list" where
  "hash_values m ks = List.map_filter m ks"

lemma hash_values_Nil [simp]: "hash_values m [] = []"
  by (simp add: hash_values_def map_filter_def)

lemma hash_values_Cons [simp]:
  "hash_values m (k # ks) =
     (case m k of None \<Rightarrow> hash_values m ks | Some v \<Rightarrow> v # hash_values m ks)"
  by (simp add: hash_values_def map_filter_def split: option.splits)

lemma set_hash_values: "set (hash_values m ks) = {v. \<exists>k\<in>set ks. m k = Some v}"
  by (induction ks) (auto split: option.splits)

lemma set_hash_values_order:
  "hash_order m ks \<Longrightarrow> set (hash_values m ks) = ran m"
  by (auto simp: hash_order_def set_hash_values ran_def)

section \<open>Lists\<close>

lemma takeWhile_append_stop:
  "\<lbrakk>\<forall>x\<in>set xs. P x; ys = [] \<or> \<not> P (hd ys)\<rbrakk> \<Longrightarrow> takeWhile P (xs @ ys) = xs"
  by (cases ys) (auto simp: takeWhile_append)

lemma dropWhile_append_stop:
  "\<lbrakk>\<forall>x\<in>set xs. P x; ys = [] \<or> \<not> P (hd ys)\<rbrakk> \<Longrightarrow> dropWhile P (xs @ ys) = ys"
  by (cases ys) (auto simp: dropWhile_append)

lemma dropWhile_stop: "xs = [] \<or> \<not> P (hd xs) \<Longrightarrow> dropWhile P xs = xs"
  by (cases xs) auto

lemma dropWhile_hd: "dropWhile P xs = [] \<or> \<not> P (hd (dropWhile P xs))"
  by (induction xs) auto

section \<open>Simulations\<close>

text \<open>Every move of the detailed system is matched by moves of the abstract one.\<close>

locale forward_simulation =
  fixes move :: "'s \<Rightarrow> 's \<Rightarrow> bool" and spec_move :: "'a \<Rightarrow> 'a \<Rightarrow> bool" and sim :: "'a \<Rightarrow> 's \<Rightarrow> bool"
  assumes forward: "\<lbrakk>move s s'; sim a s\<rbrakk> \<Longrightarrow> \<exists>a'. spec_move\<^sup>*\<^sup>* a a' \<and> sim a' s'"
begin

lemma simulates: "\<lbrakk>move\<^sup>*\<^sup>* s s'; sim a s\<rbrakk> \<Longrightarrow> \<exists>a'. spec_move\<^sup>*\<^sup>* a a' \<and> sim a' s'"
proof (induction rule: rtranclp_induct)
  case (step s' s'')
  then obtain a' where "spec_move\<^sup>*\<^sup>* a a'" "sim a' s'" by blast
  moreover from forward [OF step.hyps(2) this(2)] obtain a'' where "spec_move\<^sup>*\<^sup>* a' a''" "sim a'' s''" by blast
  ultimately show ?case by (meson rtranclp_trans)
qed blast

end

end
