(* ===== verification/Errors.thy ===== *)
theory Errors
  imports Prelude
begin

text \<open>
  The error types of \<open>src/error.rs\<close>, with the text their \<open>Display\<close> produces (the
  \<open>#[error(...)]\<close> attributes). An error of another crate or of the standard library is known
  to the code by its message only, so it is its message here. Constructors that several enums
  share carry a prefix for their type.
\<close>

type_synonym foreign_error = string

datatype data_loader_error =
    SpecParseError string
  | UnmarshalError foreign_error

datatype list_dir_error = PathPrefixHandlingError

text \<open>The errors of a walk, over those of the backend: the two types of the code refer to each other.\<close>

datatype 's walk_error =
    WalkStorageError 's
  | WalkLoaderError data_loader_error

datatype storage_backend_error =
    UpdateWatchingError string
  | IOError foreign_error
  | Git2Error foreign_error
  | WalkDirError "storage_backend_error walk_error"
  | ListDirError list_dir_error
  | Utf8Error foreign_error
  | StripPrefixError foreign_error
  | LockPosionedError

type_synonym walk_dir_error = "storage_backend_error walk_error"

datatype memory_index_error =
    IndexLoaderError data_loader_error
  | IndexStorageError storage_backend_error
  | NamespaceNotAbsolutePath

datatype query_error = GetLockError

datatype differ_error = DifferQueryError query_error

datatype ffi_error =
    StringConvertNulError foreign_error
  | StringConvertUtf8Error foreign_error
  | CreateBackendError string
  | FFIStorageError storage_backend_error

datatype cclib_error =
    NamespaceError string
  | CCFFIError ffi_error
  | CCStorageError storage_backend_error
  | CCIndexError memory_index_error

section \<open>Messages\<close>

primrec data_loader_msg :: "data_loader_error \<Rightarrow> string" where
  "data_loader_msg (SpecParseError s) = ''error parse `spec` part in config: '' @ s"
| "data_loader_msg (UnmarshalError e) = ''error parse json in config: '' @ e"

primrec list_dir_msg :: "list_dir_error \<Rightarrow> string" where
  "list_dir_msg PathPrefixHandlingError =
     ''prefix not match, some link in filesystem backend maybe wrong''"

text \<open>The message of a walk's error, given that of the backend's error in it.\<close>

primrec walk_msg :: "string walk_error \<Rightarrow> string" where
  "walk_msg (WalkStorageError s) = ''error while operating on git backend: '' @ s"
| "walk_msg (WalkLoaderError d) = ''error while operating on git backend: '' @ data_loader_msg d"

primrec storage_msg :: "storage_backend_error \<Rightarrow> string" where
  "storage_msg (UpdateWatchingError s) = ''error while trying to watch config change: '' @ s"
| "storage_msg (IOError e) = ''error while doing IO: '' @ e"
| "storage_msg (Git2Error e) = ''error while operating on git backend: '' @ e"
| "storage_msg (WalkDirError w) = ''error while operating on git backend: '' @ walk_msg (map_walk_error storage_msg w)"
| "storage_msg (ListDirError d) = ''error while operating on git backend: '' @ list_dir_msg d"
| "storage_msg (Utf8Error e) = ''error while converting string: '' @ e"
| "storage_msg (StripPrefixError e) = ''error while internally converting path: '' @ e"
| "storage_msg LockPosionedError = ''error while internally getting lock''"

primrec memory_index_msg :: "memory_index_error \<Rightarrow> string" where
  "memory_index_msg (IndexLoaderError d) = ''error while building index: '' @ data_loader_msg d"
| "memory_index_msg (IndexStorageError s) = ''error while building index: '' @ storage_msg s"
| "memory_index_msg NamespaceNotAbsolutePath =
     ''error, namespace must in absolute form, i.e., start with `/`''"

primrec query_msg :: "query_error \<Rightarrow> string" where
  "query_msg GetLockError = ''error when locking internal state''"

primrec differ_msg :: "differ_error \<Rightarrow> string" where
  "differ_msg (DifferQueryError e) = ''error when querying: '' @ query_msg e"

primrec ffi_msg :: "ffi_error \<Rightarrow> string" where
  "ffi_msg (StringConvertNulError e) = ''error convert string between cffi: '' @ e"
| "ffi_msg (StringConvertUtf8Error e) = ''error convert string between cffi: '' @ e"
| "ffi_msg (CreateBackendError s) = ''error building backend from config: '' @ s"
| "ffi_msg (FFIStorageError s) = ''error building backend from config: '' @ storage_msg s"

primrec cclib_msg :: "cclib_error \<Rightarrow> string" where
  "cclib_msg (NamespaceError s) = s"
| "cclib_msg (CCFFIError e) = ''error when calling cffi: '' @ ffi_msg e"
| "cclib_msg (CCStorageError e) = ''error with storage backend: '' @ storage_msg e"
| "cclib_msg (CCIndexError e) = ''error with inmemory index: '' @ memory_index_msg e"

end
