(* ===== verification/Rust_Str.thy ===== *)
theory Rust_Str
  imports Prelude
begin

text \<open>
  The \<open>str\<close> operations of the Rust standard library that the code uses. A \<open>&str\<close> is its UTF-8
  byte sequence, a \<open>string\<close> (list of 8-bit characters), so byte indices, slices and
  \<open>len\<close> are those of Rust: \<open>starts_with\<close>, \<open>ends_with\<close>, \<open>strip_prefix\<close>, slicing from a byte index
  with its panics, \<open>split\<close>, \<open>split_once\<close>, \<open>trim\<close>, \<open>from_utf8\<close> and \<open>from_utf8_lossy\<close>.
\<close>

abbreviation byte :: "char \<Rightarrow> nat" where
  "byte c \<equiv> of_char c"

section \<open>Prefixes, slices and splitting\<close>

fun str_strip_prefix :: "string \<Rightarrow> string \<Rightarrow> string option" where
  "str_strip_prefix [] s = Some s"
| "str_strip_prefix (p # ps) [] = None"
| "str_strip_prefix (p # ps) (c # cs) = (if p = c then str_strip_prefix ps cs else None)"

definition starts_with :: "string \<Rightarrow> string \<Rightarrow> bool" where
  "starts_with s p \<longleftrightarrow> take (length p) s = p"

definition ends_with :: "string \<Rightarrow> string \<Rightarrow> bool" where
  "ends_with s p \<longleftrightarrow> starts_with (rev s) (rev p)"

lemma str_strip_prefix_Some_iff: "str_strip_prefix p s = Some r \<longleftrightarrow> s = p @ r"
  by (induction p s rule: str_strip_prefix.induct) auto

lemma str_strip_prefix_append [simp]: "str_strip_prefix p (p @ r) = Some r"
  by (simp add: str_strip_prefix_Some_iff)

lemma starts_with_iff: "starts_with s p \<longleftrightarrow> (\<exists>r. s = p @ r)"
  by (metis append_eq_conv_conj append_take_drop_id starts_with_def)

lemma starts_with_append [simp]: "starts_with (p @ r) p"
  by (simp add: starts_with_def)

text \<open>
  A byte of the form 10xxxxxx continues a character. Slicing \<open>&s[n..]\<close> panics unless \<open>n\<close> is a
  character boundary of the string or its length.
\<close>

definition utf8_cont :: "char \<Rightarrow> bool" where
  "utf8_cont c \<longleftrightarrow> 128 \<le> byte c \<and> byte c < 192"

definition slice_from :: "nat \<Rightarrow> string \<Rightarrow> (string, 'e) res" where
  "slice_from n s =
     (if n = 0 \<or> n = length s \<or> (n < length s \<and> \<not> utf8_cont (s ! n)) then Ok (drop n s) else Panic)"

lemma slice_from_not_Err [simp]: "slice_from n s \<noteq> Err e" "slice_from n s \<noteq> Hang"
  by (simp_all add: slice_from_def)

lemma slice_from_short: "length s < n \<Longrightarrow> slice_from n s = Panic"
  by (simp add: slice_from_def)

fun split_on :: "char \<Rightarrow> string \<Rightarrow> string list" where
  "split_on d [] = [[]]"
| "split_on d (c # cs) =
     (if c = d then [] # split_on d cs
      else (case split_on d cs of [] \<Rightarrow> [[c]] | w # ws \<Rightarrow> (c # w) # ws))"

fun split_once :: "char \<Rightarrow> string \<Rightarrow> (string \<times> string) option" where
  "split_once d [] = None"
| "split_once d (c # cs) =
     (if c = d then Some ([], cs)
      else (case split_once d cs of None \<Rightarrow> None | Some (a, b) \<Rightarrow> Some (c # a, b)))"

fun join_on :: "char \<Rightarrow> string list \<Rightarrow> string" where
  "join_on d [] = []"
| "join_on d [w] = w"
| "join_on d (w # v # ws) = w @ d # join_on d (v # ws)"

lemma split_on_not_Nil [simp]: "split_on d s \<noteq> []"
  by (induction s) (auto split: list.splits)

lemma split_on_no_sep: "d \<notin> set s \<Longrightarrow> split_on d s = [s]"
  by (induction s) auto

lemma split_on_append_sep: "split_on d (s @ d # t) = split_on d s @ split_on d t"
  by (induction s) (auto split: list.splits)

lemma split_on_pieces: "w \<in> set (split_on d s) \<Longrightarrow> d \<notin> set w"
proof (induction s arbitrary: w)
  case (Cons c s)
  then show ?case by (cases "split_on d s") (auto split: if_splits)
qed simp

lemma join_on_Cons: "ws \<noteq> [] \<Longrightarrow> join_on d (w # ws) = w @ d # join_on d ws"
  by (cases ws) auto

lemma join_on_head: "join_on d ((c # w) # ws) = c # join_on d (w # ws)"
  by (cases ws) auto

lemma join_split: "join_on d (split_on d s) = s"
proof (induction s)
  case (Cons c s)
  then show ?case by (cases "split_on d s") (auto simp: join_on_Cons join_on_head)
qed simp

lemma split_join: "\<lbrakk>ws \<noteq> []; \<forall>w\<in>set ws. d \<notin> set w\<rbrakk> \<Longrightarrow> split_on d (join_on d ws) = ws"
proof (induction ws rule: induct_list012)
  case (3 w v ws)
  then show ?case by (simp add: split_on_append_sep split_on_no_sep)
qed (auto simp: split_on_no_sep)

lemma split_once_at: "d \<notin> set a \<Longrightarrow> split_once d (a @ d # b) = Some (a, b)"
  by (induction a) auto

lemma split_once_SomeD: "split_once d s = Some (a, b) \<Longrightarrow> s = a @ d # b \<and> d \<notin> set a"
  by (induction s arbitrary: a) (auto split: option.splits if_splits)

lemma split_once_Some_iff:
  "split_once d s = Some (a, b) \<longleftrightarrow> s = a @ d # b \<and> d \<notin> set a"
  by (auto simp: split_once_at dest: split_once_SomeD)

section \<open>Trimming\<close>

text \<open>
  The characters with the Unicode property \<open>White_Space\<close>, as UTF-8 sequences. \<open>trim\<close> removes them
  at both ends; a sequence ends a valid string exactly when its reverse begins the reversed string.
\<close>

definition white_seqs :: "string list" where
  "white_seqs = map (map char_of)
     ([[9], [10], [11], [12], [13], [32], [194, 133], [194, 160], [225, 154, 128]] @
      map (\<lambda>b. [226, 128, b]) [128, 129, 130, 131, 132, 133, 134, 135, 136, 137, 138, 168, 169, 175] @
      [[226, 129, 159], [227, 128, 128 :: nat]])"

fun strip_any :: "string list \<Rightarrow> string \<Rightarrow> string option" where
  "strip_any [] s = None"
| "strip_any (p # ps) s =
     (case str_strip_prefix p s of Some r \<Rightarrow> Some r | None \<Rightarrow> strip_any ps s)"

function trim_seqs :: "string list \<Rightarrow> string \<Rightarrow> string" where
  "trim_seqs ps s =
     (case strip_any ps s of
        None \<Rightarrow> s
      | Some r \<Rightarrow> if length r < length s then trim_seqs ps r else s)"
  by pat_completeness auto
termination
  by (relation "measure (\<lambda>(ps, s). length s)") auto

declare trim_seqs.simps [simp del]

definition trim_start :: "string \<Rightarrow> string" where
  "trim_start s = trim_seqs white_seqs s"

definition trim_end :: "string \<Rightarrow> string" where
  "trim_end s = rev (trim_seqs (map rev white_seqs) (rev s))"

definition str_trim :: "string \<Rightarrow> string" where
  "str_trim s = trim_end (trim_start s)"

lemma strip_any_Some: "strip_any ps s = Some r \<Longrightarrow> \<exists>p\<in>set ps. s = p @ r"
  by (induction ps) (auto simp: str_strip_prefix_Some_iff split: option.splits)

lemma trim_seqs_suffix: "\<exists>p. s = p @ trim_seqs ps s"
proof (induction ps s rule: trim_seqs.induct)
  case (1 ps s)
  show ?case
  proof (cases "strip_any ps s")
    case None
    then show ?thesis by (simp add: trim_seqs.simps [of ps s])
  next
    case (Some r)
    from strip_any_Some [OF Some] obtain p where s: "s = p @ r" by blast
    show ?thesis
    proof (cases "length r < length s")
      case True
      with "1" Some obtain q where q: "r = q @ trim_seqs ps r" by blast
      from True Some have "trim_seqs ps s = trim_seqs ps r"
        by (simp add: trim_seqs.simps [of ps s])
      with s q have "s = (p @ q) @ trim_seqs ps s" by (metis append.assoc)
      then show ?thesis by blast
    next
      case False
      with Some show ?thesis by (simp add: trim_seqs.simps [of ps s])
    qed
  qed
qed

text \<open>Text of printable ASCII characters without blanks is left alone.\<close>

definition graphic :: "string \<Rightarrow> bool" where
  "graphic s \<longleftrightarrow> (\<forall>c\<in>set s. 32 < byte c \<and> byte c < 127)"

lemma strip_any_None:
  assumes "\<forall>p\<in>set ps. p \<noteq> [] \<and> \<not> graphic [hd p]" and "graphic s"
  shows "strip_any ps s = None"
proof (rule ccontr)
  assume "strip_any ps s \<noteq> None"
  then obtain r p where "p \<in> set ps" "s = p @ r" using strip_any_Some by blast
  with assms show False by (cases p) (auto simp: graphic_def)
qed

lemma white_seqs_graphic:
  "\<forall>p\<in>set white_seqs. p \<noteq> [] \<and> \<not> graphic [hd p]"
  "\<forall>p\<in>set (map rev white_seqs). p \<noteq> [] \<and> \<not> graphic [hd p]"
  by (simp_all add: white_seqs_def graphic_def)

lemma str_trim_graphic: "graphic s \<Longrightarrow> str_trim s = s"
  using strip_any_None [OF white_seqs_graphic(1), of s] strip_any_None [OF white_seqs_graphic(2), of "rev s"]
  by (simp add: str_trim_def trim_start_def trim_end_def trim_seqs.simps [of _ s] trim_seqs.simps [of _ "rev s"]
      graphic_def)

section \<open>UTF-8 validity\<close>

text \<open>
  \<open>utf8_head s\<close>: how many bytes the decoder consumes at the head of a non-empty \<open>s\<close>, and whether
  they are a character; otherwise they are the longest prefix of one, at least one byte.
\<close>

definition utf8_width :: "nat \<Rightarrow> nat" where
  "utf8_width b =
     (if b < 128 then 1 else if b < 194 then 0 else if b < 224 then 2
      else if b < 240 then 3 else if b < 245 then 4 else 0)"

definition utf8_second_ok :: "nat \<Rightarrow> nat \<Rightarrow> bool" where
  "utf8_second_ok a b \<longleftrightarrow>
     (if a = 224 then 160 \<le> b \<and> b < 192
      else if a = 237 then 128 \<le> b \<and> b < 160
      else if a = 240 then 144 \<le> b \<and> b < 192
      else if a = 244 then 128 \<le> b \<and> b < 144
      else 128 \<le> b \<and> b < 192)"

fun utf8_conts :: "nat \<Rightarrow> nat \<Rightarrow> string \<Rightarrow> nat \<times> bool" where
  "utf8_conts done 0 s = (done, True)"
| "utf8_conts done (Suc n) [] = (done, False)"
| "utf8_conts done (Suc n) (c # s) =
     (if utf8_cont c then utf8_conts (Suc done) n s else (done, False))"

definition utf8_head :: "string \<Rightarrow> nat \<times> bool" where
  "utf8_head s = (case s of
     [] \<Rightarrow> (0, True)
   | c # cs \<Rightarrow> (let w = utf8_width (byte c) in
       if w = 0 then (1, False) else if w = 1 then (1, True)
       else (case cs of
               [] \<Rightarrow> (1, False)
             | d # ds \<Rightarrow> if utf8_second_ok (byte c) (byte d) then utf8_conts 2 (w - 2) ds
                        else (1, False))))"

lemma utf8_conts_ge: "n \<le> fst (utf8_conts n k s)"
  by (induction n k s rule: utf8_conts.induct) auto

lemma utf8_head_pos: "s \<noteq> [] \<Longrightarrow> 0 < fst (utf8_head s)"
proof -
  have "0 < fst (utf8_conts 2 k t)" for k t
    using utf8_conts_ge [of 2 k t] by simp
  then show "s \<noteq> [] \<Longrightarrow> ?thesis"
    by (auto simp: utf8_head_def Let_def split: list.splits)
qed

lemma utf8_head_dec: "\<lbrakk>s \<noteq> []; (n, good) = utf8_head s\<rbrakk> \<Longrightarrow> length s - n < length s"
  using utf8_head_pos [of s] by (cases "utf8_head s") auto

definition replacement_char :: string where
  "replacement_char = map char_of [239, 191, 189 :: nat]"

text \<open>\<open>from_utf8_lossy\<close> (and \<open>to_string_lossy\<close>): each invalid piece becomes U+FFFD.\<close>

function from_utf8_lossy :: "string \<Rightarrow> string" where
  "from_utf8_lossy s =
     (if s = [] then []
      else (let (n, good) = utf8_head s in
        (if good then take n s else replacement_char) @ from_utf8_lossy (drop n s)))"
  by pat_completeness auto
termination
  by (relation "measure length") (auto intro: utf8_head_dec)

function utf8_valid :: "string \<Rightarrow> bool" where
  "utf8_valid s =
     (if s = [] then True
      else (let (n, good) = utf8_head s in if good then utf8_valid (drop n s) else False))"
  by pat_completeness auto
termination
  by (relation "measure length") (auto intro: utf8_head_dec)

declare from_utf8_lossy.simps [simp del] utf8_valid.simps [simp del]

text \<open>\<open>str::from_utf8\<close>: the string itself, or a \<open>Utf8Error\<close>.\<close>

definition from_utf8 :: "string \<Rightarrow> 'e \<Rightarrow> (string, 'e) res" where
  "from_utf8 s e = (if utf8_valid s then Ok s else Err e)"

lemma lossy_valid: "utf8_valid s \<Longrightarrow> from_utf8_lossy s = s"
proof (induction s rule: utf8_valid.induct)
  case (1 s)
  then show ?case
    by (cases "s = []")
      (auto simp: from_utf8_lossy.simps [of "[]"] utf8_valid.simps [of s] from_utf8_lossy.simps [of s] split: prod.splits if_splits)
qed

definition ascii :: "string \<Rightarrow> bool" where
  "ascii s \<longleftrightarrow> (\<forall>c\<in>set s. byte c < 128)"

lemma ascii_Nil [simp]: "ascii []" by (simp add: ascii_def)

lemma ascii_Cons [simp]: "ascii (c # s) \<longleftrightarrow> byte c < 128 \<and> ascii s"
  by (simp add: ascii_def)

lemma ascii_append [simp]: "ascii (s @ t) \<longleftrightarrow> ascii s \<and> ascii t"
  by (auto simp: ascii_def)

lemma ascii_valid: "ascii s \<Longrightarrow> utf8_valid s"
  by (induction s)
    (simp_all add: utf8_valid.simps [of "_ # _"] utf8_valid.simps [of "[]"] utf8_head_def utf8_width_def)


lemma utf8_conts_stop:
  "byte c < 128 \<Longrightarrow> utf8_conts k n (a @ c # b) = utf8_conts k n a \<and> fst (utf8_conts k n a) \<le> k + length a"
  by (induction k n a rule: utf8_conts.induct) (auto simp: utf8_cont_def neq_Nil_conv)

lemma utf8_conts_le: "fst (utf8_conts k n a) \<le> k + length a"
  by (induction k n a rule: utf8_conts.induct) auto

text \<open>An ASCII character ends whatever precedes it.\<close>

lemma utf8_head_stop:
  assumes "byte c < 128" and "a \<noteq> []"
  shows "utf8_head (a @ c # b) = utf8_head a"
proof -
  obtain d ds where a: "a = d # ds" using assms(2) by (cases a) auto
  have "\<not> utf8_second_ok (byte d) (byte c)" using assms(1) by (simp add: utf8_second_ok_def)
  with utf8_conts_stop [OF assms(1)] show ?thesis
    by (cases ds) (auto simp: a utf8_head_def Let_def)
qed

lemma utf8_head_le: "fst (utf8_head a) \<le> length a"
proof -
  have "fst (utf8_conts 2 n ds) \<le> Suc (Suc (length ds))" for n ds
    using utf8_conts_le [of 2 n ds] by simp
  then show ?thesis by (auto simp: utf8_head_def Let_def split: list.splits)
qed

lemma utf8_valid_Nil [simp]: "utf8_valid []"
  by (simp add: utf8_valid.simps)

lemma utf8_valid_ascii_Cons: "byte c < 128 \<Longrightarrow> utf8_valid (c # s) \<longleftrightarrow> utf8_valid s"
  by (simp add: utf8_valid.simps [of "c # s"] utf8_head_def utf8_width_def)

lemma utf8_valid_at_ascii:
  assumes "byte c < 128"
  shows "utf8_valid (a @ c # b) \<longleftrightarrow> utf8_valid a \<and> utf8_valid b"
proof (induction a rule: utf8_valid.induct)
  case (1 a)
  show ?case
  proof (cases "a = []")
    case False
    obtain n good where h: "utf8_head a = (n, good)" by force
    with utf8_head_le [of a] have "drop n (a @ c # b) = drop n a @ c # b" by simp
    moreover have "utf8_head (a @ c # b) = (n, good)"
      using h utf8_head_stop [OF assms False, of b] by simp
    then have "utf8_valid (a @ c # b) \<longleftrightarrow> good \<and> utf8_valid (drop n (a @ c # b))"
      by (simp add: utf8_valid.simps [of "a @ c # b"])
    moreover have "utf8_valid a \<longleftrightarrow> good \<and> utf8_valid (drop n a)"
      using h False by (simp add: utf8_valid.simps [of a])
    moreover have "good \<Longrightarrow> utf8_valid (drop n a @ c # b) \<longleftrightarrow> utf8_valid (drop n a) \<and> utf8_valid b"
      by (rule 1) (use False h in auto)
    ultimately show ?thesis by argo
  qed (simp add: utf8_valid_ascii_Cons [OF assms])
qed

lemma utf8_valid_split_on:
  "byte d < 128 \<Longrightarrow> utf8_valid s \<longleftrightarrow> (\<forall>w\<in>set (split_on d s). utf8_valid w)"
proof (induction "length s" arbitrary: s rule: less_induct)
  case less
  show ?case
  proof (cases "d \<in> set s")
    case True
    then obtain a b where s: "s = a @ d # b" "d \<notin> set a" by (meson split_list_first)
    then have "utf8_valid b \<longleftrightarrow> (\<forall>w\<in>set (split_on d b). utf8_valid w)"
      using less by simp
    then show ?thesis
      unfolding s(1) utf8_valid_at_ascii [OF less.prems] split_on_append_sep split_on_no_sep [OF s(2)]
      by simp
  qed (simp add: split_on_no_sep)
qed

section \<open>The message of a \<open>Utf8Error\<close>\<close>

fun dec_digits :: "nat \<Rightarrow> string \<Rightarrow> string" where
  "dec_digits n acc =
     (let acc' = char_of (48 + n mod 10) # acc in
      if n < 10 then acc' else dec_digits (n div 10) acc')"

definition nat_text :: "nat \<Rightarrow> string" where
  "nat_text n = dec_digits n []"

text \<open>\<open>at\<close> is the number of valid bytes before \<open>s\<close>.\<close>

function utf8_error_from :: "nat \<Rightarrow> string \<Rightarrow> string" where
  "utf8_error_from at s =
     (if s = [] then []
      else (let (n, good) = utf8_head s in
        if good then utf8_error_from (at + n) (drop n s)
        else if n = length s \<and> n < utf8_width (byte (hd s))
        then ''incomplete utf-8 byte sequence from index '' @ nat_text at
        else ''invalid utf-8 sequence of '' @ nat_text n @ '' bytes from index '' @ nat_text at))"
  by pat_completeness auto
termination
  by (relation "measure (\<lambda>(at, s). length s)") (auto intro: utf8_head_dec)

declare utf8_error_from.simps [simp del] dec_digits.simps [simp del]

definition utf8_error_text :: "string \<Rightarrow> string" where
  "utf8_error_text s = utf8_error_from 0 s"

end
