(* ===== verification/Rust_Path.thy ===== *)
theory Rust_Path
  imports Rust_Str
begin

text \<open>
  The \<open>std::path\<close> operations the code uses, on Unix: a path is its byte string. \<open>path_join\<close> is
  \<open>Path::join\<close> (an absolute argument replaces the path), \<open>path_strip_prefix\<close> compares
  components and returns the rest of the text, \<open>path_segs\<close> are the normal components.
\<close>

type_synonym path = string

abbreviation slash :: char where
  "slash \<equiv> CHR ''/''"

definition has_root :: "path \<Rightarrow> bool" where
  "has_root p \<longleftrightarrow> (case p of [] \<Rightarrow> False | c # _ \<Rightarrow> c = slash)"

text \<open>\<open>PathBuf::push\<close>: an absolute \<open>q\<close> replaces \<open>p\<close>; a separator is added where \<open>p\<close> has none at its end.\<close>

definition path_join :: "path \<Rightarrow> path \<Rightarrow> path" where
  "path_join p q =
     (if has_root q then q
      else if p = [] \<or> last p = slash then p @ q
      else p @ slash # q)"

text \<open>Components skip empty pieces and \<open>.\<close> (after the root).\<close>

definition void_seg :: "string \<Rightarrow> bool" where
  "void_seg s \<longleftrightarrow> s = [] \<or> s = ''.''"

definition path_segs :: "path \<Rightarrow> string list" where
  "path_segs p = filter (\<lambda>s. \<not> void_seg s) (split_on slash p)"

fun strip_segs :: "string list \<Rightarrow> string list \<Rightarrow> string list option" where
  "strip_segs [] ss = Some ss"
| "strip_segs (b # bs) [] = None"
| "strip_segs (b # bs) (s # ss) =
     (if void_seg s then strip_segs (b # bs) ss
      else if s = b then strip_segs bs ss else None)"

definition trim_segs :: "string list \<Rightarrow> string list" where
  "trim_segs ss = rev (dropWhile void_seg (rev (dropWhile void_seg ss)))"

text \<open>
  \<open>Path::strip_prefix(base)\<close> for an absolute \<open>base\<close>, as everywhere in the code: the components
  of \<open>base\<close> must lead those of the path; what is left is the remaining text without separators
  and \<open>.\<close> at its ends.
\<close>

definition path_strip_prefix :: "path \<Rightarrow> path \<Rightarrow> path option" where
  "path_strip_prefix p base =
     (if has_root p
      then map_option (\<lambda>ss. join_on slash (trim_segs ss))
             (strip_segs (path_segs base) (split_on slash p))
      else None)"

text \<open>\<open>Path::file_name\<close>: the last component unless it is \<open>..\<close>.\<close>

definition path_file_name :: "path \<Rightarrow> string option" where
  "path_file_name p =
     (case rev (path_segs p) of
        [] \<Rightarrow> None
      | s # _ \<Rightarrow> if s = ''..'' then None else Some s)"

text \<open>A name a directory entry can have.\<close>

definition good_name :: "string \<Rightarrow> bool" where
  "good_name s \<longleftrightarrow> s \<noteq> [] \<and> s \<noteq> ''.'' \<and> s \<noteq> ''..'' \<and> slash \<notin> set s"

lemma good_nameD [dest]:
  "good_name s \<Longrightarrow> s \<noteq> [] \<and> s \<noteq> ''.'' \<and> s \<noteq> ''..'' \<and> slash \<notin> set s"
  by (simp add: good_name_def)

lemma good_name_last [simp]: "good_name s \<Longrightarrow> last s \<noteq> slash"
  by (metis good_nameD last_in_set)

lemma good_not_void [simp]: "good_name s \<Longrightarrow> \<not> void_seg s"
  by (auto simp: void_seg_def)

lemma good_not_root [simp]: "good_name s \<Longrightarrow> \<not> has_root s"
  by (cases s) (auto simp: has_root_def good_name_def)

definition abs_of :: "string list \<Rightarrow> path" where
  "abs_of ns = slash # join_on slash ns"

lemma split_last_slash:
  "p \<noteq> [] \<Longrightarrow> last p = slash \<Longrightarrow> \<exists>q. p = q @ [slash]"
  by (metis append_butlast_last_id)

lemma path_segs_snoc_slash [simp]: "path_segs (p @ [slash]) = path_segs p"
  by (simp add: path_segs_def split_on_append_sep void_seg_def)

lemma path_segs_append_slash: "path_segs (p @ slash # q) = path_segs p @ path_segs q"
  by (simp add: path_segs_def split_on_append_sep)

lemma path_segs_Cons_slash [simp]: "path_segs (slash # q) = path_segs q"
  by (simp add: path_segs_def void_seg_def)

lemma path_segs_Nil [simp]: "path_segs [] = []"
  by (simp add: path_segs_def void_seg_def)

lemma path_segs_good: "good_name s \<Longrightarrow> path_segs s = [s]"
  by (simp add: path_segs_def split_on_no_sep good_name_def void_seg_def)

lemma path_segs_join [simp]: "\<not> has_root q \<Longrightarrow> path_segs (path_join p q) = path_segs p @ path_segs q"
proof -
  assume q: "\<not> has_root q"
  consider "p = []" | "p \<noteq> []" "last p = slash" | "p \<noteq> []" "last p \<noteq> slash" by blast
  then show ?thesis
  proof cases
    case 2
    then obtain r where "p = r @ [slash]" using split_last_slash by blast
    with q show ?thesis by (simp add: path_join_def path_segs_append_slash)
  qed (use q in \<open>auto simp: path_join_def path_segs_append_slash\<close>)
qed

lemma path_segs_join_name [simp]:
  "good_name s \<Longrightarrow> path_segs (path_join p s) = path_segs p @ [s]"
  by (simp add: path_segs_good)

lemma path_segs_join_on: "\<forall>n\<in>set ns. good_name n \<Longrightarrow> path_segs (join_on slash ns) = ns"
proof (induction ns rule: induct_list012)
  case (3 w v ns)
  then show ?case by (simp add: path_segs_append_slash path_segs_good)
qed (auto simp: path_segs_good)

lemma path_segs_abs_of [simp]: "\<forall>n\<in>set ns. good_name n \<Longrightarrow> path_segs (abs_of ns) = ns"
  by (simp add: abs_of_def path_segs_join_on)

lemma last_join_on:
  "\<lbrakk>ns \<noteq> []; \<forall>n\<in>set ns. good_name n\<rbrakk> \<Longrightarrow> join_on slash ns \<noteq> [] \<and> last (join_on slash ns) \<noteq> slash"
proof (induction ns rule: induct_list012)
  case (2 w)
  then have "w \<noteq> []" "slash \<notin> set w" by auto
  then show ?case by (auto dest: last_in_set)
qed auto

lemma join_on_snoc: "ns \<noteq> [] \<Longrightarrow> join_on d (ns @ [n]) = join_on d ns @ d # n"
  by (induction ns rule: induct_list012) auto

lemma path_join_abs_of [simp]:
  assumes "\<forall>n\<in>set ns. good_name n" and "good_name n"
  shows "path_join (abs_of ns) n = abs_of (ns @ [n])"
proof (cases "ns = []")
  case False
  with last_join_on [OF this assms(1)] assms(2) show ?thesis
    by (simp add: path_join_def abs_of_def join_on_snoc)
qed (use assms(2) in \<open>simp add: path_join_def abs_of_def\<close>)

lemma strip_segs_good:
  "\<forall>b\<in>set bs. \<not> void_seg b \<Longrightarrow> strip_segs bs (bs @ ss) = Some ss"
  by (induction bs) auto

lemma trim_segs_good: "\<forall>s\<in>set ss. good_name s \<Longrightarrow> trim_segs ss = ss"
proof -
  assume g: "\<forall>s\<in>set ss. good_name s"
  then have "dropWhile void_seg ss = ss" by (cases ss) auto
  moreover from g have "dropWhile void_seg (rev ss) = rev ss"
    by (cases ss rule: rev_cases) auto
  ultimately show ?thesis by (simp add: trim_segs_def)
qed

text \<open>Stripping the first component of a normal absolute path leaves the other names.\<close>

lemma path_strip_prefix_abs_of:
  assumes "\<forall>n\<in>set (b # ns). good_name n"
  shows "path_strip_prefix (abs_of (b # ns)) (slash # b) = Some (join_on slash ns)"
proof -
  have "split_on slash (abs_of (b # ns)) = [] # b # ns"
    using assms split_join [of "b # ns" slash] by (auto simp: abs_of_def)
  moreover have "path_segs (slash # b) = [b]" using assms by (simp add: path_segs_good)
  ultimately show ?thesis using assms
    by (simp add: path_strip_prefix_def has_root_def abs_of_def void_seg_def trim_segs_good
        good_name_def)
qed

lemma strip_segs_None_head:
  "\<lbrakk>\<not> void_seg s; s \<noteq> b\<rbrakk> \<Longrightarrow> strip_segs (b # bs) (s # ss) = None"
  by simp


section \<open>Below a base directory\<close>

text \<open>What is left of a path without its root: \<open>strip_prefix("/")\<close>, or the path if it is relative.\<close>

definition rel_part :: "path \<Rightarrow> path" where
  "rel_part p = (if has_root p then join_on slash (trim_segs (split_on slash p)) else p)"

lemma path_strip_root: "has_root p \<Longrightarrow> path_strip_prefix p ''/'' = Some (rel_part p)"
  by (simp add: path_strip_prefix_def rel_part_def)

lemma dropWhile_filter_not: "filter (\<lambda>s. \<not> P s) (dropWhile P ss) = filter (\<lambda>s. \<not> P s) ss"
  by (induction ss) auto

lemma trim_segs_filter: "filter (\<lambda>s. \<not> void_seg s) (trim_segs ss) = filter (\<lambda>s. \<not> void_seg s) ss"
  by (simp add: trim_segs_def dropWhile_filter_not flip: rev_filter)

lemma set_trim_segs: "set (trim_segs ss) \<subseteq> set ss"
  by (auto simp: trim_segs_def dest!: set_dropWhileD)

lemma trim_segs_hd: "trim_segs ss \<noteq> [] \<Longrightarrow> \<not> void_seg (hd (trim_segs ss))"
proof -
  assume ne: "trim_segs ss \<noteq> []"
  let ?ts = "dropWhile void_seg ss"
  have "takeWhile void_seg (rev ?ts) @ dropWhile void_seg (rev ?ts) = rev ?ts" by simp
  then have "?ts = trim_segs ss @ rev (takeWhile void_seg (rev ?ts))"
    unfolding trim_segs_def by (metis rev_append rev_rev_ident)
  then have "hd (trim_segs ss) = hd ?ts" "?ts \<noteq> []" using ne by (metis hd_append2 append_is_Nil_conv)+
  then show ?thesis using hd_dropWhile [of void_seg ss] by simp
qed

lemma path_segs_join_pieces:
  "\<forall>w\<in>set ws. slash \<notin> set w \<Longrightarrow> path_segs (join_on slash ws) = filter (\<lambda>s. \<not> void_seg s) ws"
  by (cases "ws = []") (simp_all add: path_segs_def split_join void_seg_def)

lemma trim_pieces: "\<forall>w\<in>set (trim_segs (split_on slash p)). slash \<notin> set w"
  using set_trim_segs [of "split_on slash p"] split_on_pieces by blast

lemma path_segs_rel_part [simp]: "path_segs (rel_part p) = path_segs p"
  by (simp add: rel_part_def path_segs_join_pieces [OF trim_pieces] trim_segs_filter)
    (simp add: path_segs_def)

lemma rel_part_no_root [simp]: "\<not> has_root (rel_part p)"
proof (cases "trim_segs (split_on slash p)")
  case (Cons w ws)
  have "w \<noteq> []" using trim_segs_hd [of "split_on slash p"] Cons by (auto simp: void_seg_def)
  moreover have "slash \<notin> set w" using trim_pieces [of p] Cons by simp
  ultimately obtain c cs where "w = c # cs" "c \<noteq> slash" by (cases w) auto
  with Cons show ?thesis by (simp add: rel_part_def has_root_def join_on_head)
qed (simp_all add: rel_part_def has_root_def)

lemma utf8_valid_join_on:
  "\<forall>w\<in>set ws. utf8_valid w \<Longrightarrow> utf8_valid (join_on slash ws)"
  by (induction ws rule: induct_list012) (auto simp: utf8_valid_at_ascii)

lemma utf8_valid_rel_part: "utf8_valid p \<Longrightarrow> utf8_valid (rel_part p)"
  using utf8_valid_split_on [of slash p] set_trim_segs [of "split_on slash p"]
  by (auto simp: rel_part_def intro!: utf8_valid_join_on)

lemma utf8_valid_path_join: "utf8_valid p \<Longrightarrow> utf8_valid q \<Longrightarrow> utf8_valid (path_join p q)"
proof -
  assume p: "utf8_valid p" and q: "utf8_valid q"
  consider "p = []" | "p \<noteq> []" "last p = slash" | "p \<noteq> []" "last p \<noteq> slash" by blast
  then show ?thesis
  proof cases
    case 2
    then obtain r where "p = r @ [slash]" using split_last_slash by blast
    with p q show ?thesis by (simp add: path_join_def utf8_valid_at_ascii)
  qed (use p q in \<open>simp_all add: path_join_def utf8_valid_at_ascii\<close>)
qed

lemma path_file_name_join: "good_name n \<Longrightarrow> path_file_name (path_join p n) = Some n"
  by (auto simp: path_file_name_def path_segs_good)

lemma path_segs_foldl: "\<forall>n\<in>set ns. good_name n \<Longrightarrow> path_segs (foldl path_join p ns) = path_segs p @ ns"
  by (induction ns arbitrary: p) (auto simp: path_segs_good)

lemma utf8_valid_foldl:
  "\<lbrakk>utf8_valid p; \<forall>n\<in>set ns. utf8_valid n\<rbrakk> \<Longrightarrow> utf8_valid (foldl path_join p ns)"
  by (induction ns arbitrary: p) (auto simp: utf8_valid_path_join)

text \<open>To compute with concrete paths, \<open>simp add: path_eval\<close>.\<close>

declare has_root_def [path_eval] void_seg_def [path_eval] trim_segs_def [path_eval] path_segs_def [path_eval]
  path_join_def [path_eval] rel_part_def [path_eval] good_name_def [path_eval] ascii_valid [path_eval]

end
