(* ===== verification/Storage.thy ===== *)
theory Storage
  imports Errors Rust_Path
begin

text \<open>
  \<open>src/storage_backends/mod.rs\<close>: the items the backends produce, the trait \<open>StorageBackend\<close> as a
  record of its methods, and its default \<open>walk_dir\<close>. A record stands for the trait object as it
  answers while the stored content does not change; the state of the callback of \<open>walk_dir\<close> (a
  \<open>FnMut\<close>) is the type \<open>'c\<close>.
\<close>

record dir_item =
  abs_path :: path
  is_dir :: bool
  hash :: string

datatype walk_ret_ctl = Next | SkipCurrentNode | StopWalking

record version_item =
  v_name :: string
  v_id :: string

record storage_change_event = ev_new_version :: version_item

type_synonym 'a storage_result = "('a, storage_backend_error) res"

type_synonym 'c walk_cb = "'c \<Rightarrow> dir_item \<Rightarrow> 'c \<times> (walk_ret_ctl, walk_dir_error) res"

record 'c storage_backend =
  get_obj_by_hash :: "string \<Rightarrow> string storage_result"
  list_dir :: "version_item \<Rightarrow> path \<Rightarrow> dir_item list storage_result"
  get_hash_by_path :: "version_item \<Rightarrow> path \<Rightarrow> string storage_result"
  set_update_cb :: "unit storage_result"
  get_diff_list :: "version_item \<Rightarrow> version_item \<Rightarrow> string \<Rightarrow> string list storage_result"
  get_current_version :: "version_item storage_result"
  list_versions :: "nat \<Rightarrow> nat \<Rightarrow> version_item list storage_result"
  walk_dir :: "version_item \<Rightarrow> path \<Rightarrow> 'c walk_cb \<Rightarrow> 'c \<Rightarrow> 'c \<times> unit storage_result"

section \<open>The default walk\<close>

text \<open>
  The \<open>for\<close> loop over the entries of one directory: it returns from the walk, or leaves the
  stack (its top first) for the next round. \<open>SkipCurrentNode\<close> does not push the entry.
\<close>

datatype walk_round = Go "path list" | Leave "unit storage_result"

fun walk_items :: "'c walk_cb \<Rightarrow> dir_item list \<Rightarrow> path list \<Rightarrow> 'c \<Rightarrow> 'c \<times> walk_round" where
  "walk_items cb [] stack c = (c, Go stack)"
| "walk_items cb (cur_node # rest) stack c =
     (case cb c cur_node of
        (c', Ok StopWalking) \<Rightarrow> (c', Leave (Ok ()))
      | (c', Ok SkipCurrentNode) \<Rightarrow> walk_items cb rest stack c'
      | (c', Ok Next) \<Rightarrow>
          walk_items cb rest (if is_dir cur_node then abs_path cur_node # stack else stack) c'
      | (c', Err e) \<Rightarrow> (c', Leave (Err (WalkDirError e)))
      | (c', Panic) \<Rightarrow> (c', Leave Panic)
      | (c', Hang) \<Rightarrow> (c', Leave Hang))"

text \<open>The \<open>while let\<close> loop. A directory graph with a cycle makes it run forever: \<open>None\<close>.\<close>

partial_function (option) walk_loop ::
  "(path \<Rightarrow> dir_item list storage_result) \<Rightarrow> 'c walk_cb \<Rightarrow> path list \<Rightarrow> 'c
    \<Rightarrow> ('c \<times> unit storage_result) option"
where
  "walk_loop ls cb stack c =
     (case stack of
        [] \<Rightarrow> Some (c, Ok ())
      | parent_node # nodes_to_visit \<Rightarrow>
          (case ls parent_node of
             Ok items \<Rightarrow>
               (case walk_items cb items nodes_to_visit c of
                  (c', Go stack') \<Rightarrow> walk_loop ls cb stack' c'
                | (c', Leave r) \<Rightarrow> Some (c', r))
           | Err e \<Rightarrow> Some (c, Err e)
           | Panic \<Rightarrow> Some (c, Panic)
           | Hang \<Rightarrow> Some (c, Hang)))"

definition default_walk_dir ::
  "(version_item \<Rightarrow> path \<Rightarrow> dir_item list storage_result)
    \<Rightarrow> version_item \<Rightarrow> path \<Rightarrow> 'c walk_cb \<Rightarrow> 'c \<Rightarrow> 'c \<times> unit storage_result"
where
  "default_walk_dir ls version path cb c =
     (case walk_loop (ls version) cb [path] c of Some r \<Rightarrow> r | None \<Rightarrow> (c, Hang))"

lemma walk_loop_Nil [simp]: "walk_loop ls cb [] c = Some (c, Ok ())"
  by (simp add: walk_loop.simps)

lemma walk_loop_Cons:
  "ls p = Ok items \<Longrightarrow> walk_loop ls cb (p # stack) c =
     (case walk_items cb items stack c of
        (c', Go stack') \<Rightarrow> walk_loop ls cb stack' c'
      | (c', Leave r) \<Rightarrow> Some (c', r))"
  by (simp add: walk_loop.simps [of ls cb "p # stack"])

text \<open>
  What every client of a walk relies on: the state changes through the callback only, so an
  invariant of the callback is one of the walk.
\<close>

locale walker =
  fixes walk :: "version_item \<Rightarrow> path \<Rightarrow> 'c walk_cb \<Rightarrow> 'c \<Rightarrow> 'c \<times> unit storage_result"
  assumes walk_inv: "\<lbrakk>I c; \<And>c i. I c \<Longrightarrow> I (fst (cb c i))\<rbrakk> \<Longrightarrow> I (fst (walk version path cb c))"

lemma walk_items_inv:
  assumes "\<And>c i. I c \<Longrightarrow> I (fst (cb c i))"
  shows "I c \<Longrightarrow> I (fst (walk_items cb items stack c))"
proof (induction items arbitrary: stack c)
  case (Cons i items)
  obtain c' r where r: "cb c i = (c', r)" by force
  with assms [OF Cons.prems, of i] have "I c'" by simp
  with r Cons.IH show ?case by (simp split: res.splits walk_ret_ctl.splits)
qed simp

lemma walk_loop_inv:
  assumes "walk_loop ls cb stack c = Some r"
  shows "(\<forall>c i. I c \<longrightarrow> I (fst (cb c i))) \<longrightarrow> I c \<longrightarrow> I (fst r)"
proof (rule walk_loop.raw_induct [where P = "\<lambda>ls cb stack c r.
    (\<forall>c i. I c \<longrightarrow> I (fst (cb c i))) \<longrightarrow> I c \<longrightarrow> I (fst r)", OF _ assms], intro impI)
  fix walk_loop ls cb stack c r
  assume 1: "\<And>ls cb stack c r. walk_loop ls cb stack c = Some r \<Longrightarrow>
      (\<forall>c i. I c \<longrightarrow> I (fst (cb c i))) \<longrightarrow> I c \<longrightarrow> I (fst r)"
    "(case stack of [] \<Rightarrow> Some (c, Ok ())
      | parent_node # nodes_to_visit \<Rightarrow>
          (case ls parent_node of
             Ok items \<Rightarrow>
               (case walk_items cb items nodes_to_visit c of
                  (c', Go stack') \<Rightarrow> walk_loop ls cb stack' c'
                | (c', Leave r) \<Rightarrow> Some (c', r))
           | Err e \<Rightarrow> Some (c, Err e)
           | Panic \<Rightarrow> Some (c, Panic)
           | Hang \<Rightarrow> Some (c, Hang))) = Some r"
    and cb: "\<forall>c i. I c \<longrightarrow> I (fst (cb c i))" and c: "I c"
  show "I (fst r)"
    proof (cases stack)
      case (Cons p rest)
      show ?thesis
      proof (cases "ls p")
        case (Ok items)
        obtain c' w where w: "walk_items cb items rest c = (c', w)" by force
        with walk_items_inv [of I cb c items rest] cb c have "I c'" by simp
        with 1 Cons Ok w cb show ?thesis by (cases w) auto
      qed (use 1 Cons c in auto)
    qed (use 1 c in auto)
qed

interpretation default_walk: walker "default_walk_dir ls" for ls
proof unfold_locales
  fix I :: "'c \<Rightarrow> bool" and c and cb :: "'c walk_cb" and version path
  assume "I c" and "\<And>c i. I c \<Longrightarrow> I (fst (cb c i))"
  then show "I (fst (default_walk_dir ls version path cb c))"
    using walk_loop_inv [of "ls version" cb "[path]" c _ I]
    by (auto simp: default_walk_dir_def split: option.splits)
qed

section \<open>Walking a finite tree\<close>

text \<open>
  The shape of a directory tree, with names that are text, and its entries in the order the
  default walk meets them.
\<close>

datatype node = File string | Dir "(string \<times> node) list"

fun is_dir_node :: "node \<Rightarrow> bool" where
  "is_dir_node (Dir _) = True"
| "is_dir_node (File _) = False"

fun well_named :: "node \<Rightarrow> bool" where
  "well_named (File _) \<longleftrightarrow> True"
| "well_named (Dir es) \<longleftrightarrow> distinct (map fst es) \<and>
     (\<forall>(n, t) \<in> set es. good_name n \<and> utf8_valid n \<and> well_named t)"

text \<open>
  Entries with the names that lead to them: first those of the directory itself, in order, then
  those below its subdirectories, the last subdirectory first.
\<close>

fun entries :: "string list \<Rightarrow> node \<Rightarrow> (string list \<times> node) list" where
  "entries ns (File b) = []"
| "entries ns (Dir es) =
     map (\<lambda>(n, t). (ns @ [n], t)) es @ concat (rev (map (\<lambda>(n, t). entries (ns @ [n]) t) es))"

fun node_at :: "node \<Rightarrow> string list \<Rightarrow> node option" where
  "node_at t [] = Some t"
| "node_at (File b) (n # ns) = None"
| "node_at (Dir es) (n # ns) = (case map_of es n of None \<Rightarrow> None | Some t \<Rightarrow> node_at t ns)"


lemma node_at_snoc:
  "node_at t ns = Some (Dir es) \<Longrightarrow> node_at t (ns @ [n]) = map_of es n"
  by (induction t ns rule: node_at.induct) (auto split: option.splits)

lemma entries_at:
  assumes "well_named t" and "(ms, u) \<in> set (entries ns t)"
  shows "\<exists>ks. ms = ns @ ks \<and> ks \<noteq> [] \<and> node_at t ks = Some u"
  using assms
proof (induction ns t arbitrary: ms u rule: entries.induct)
  case (2 ns es)
  have named: "map_of es n = Some v" if "(n, v) \<in> set es" for n v
    using "2.prems"(1) that by simp
  from "2.prems"(2) consider (here) n where "ms = ns @ [n]" "(n, u) \<in> set es"
    | (below) n v where "(n, v) \<in> set es" "(ms, u) \<in> set (entries (ns @ [n]) v)"
    by auto
  then show ?case
  proof cases
    case here
    then show ?thesis using named by auto
  next
    case below
    with "2.IH" [of "(n, v)" n v ms u] "2.prems"(1)
    obtain ks where "ms = (ns @ [n]) @ ks" "node_at v ks = Some u" by auto
    with named [OF below(1)] show ?thesis by (intro exI [of _ "n # ks"]) simp
  qed
qed simp

lemma node_at_entries:
  "\<lbrakk>node_at t ks = Some u; ks \<noteq> []\<rbrakk> \<Longrightarrow> (ns @ ks, u) \<in> set (entries ns t)"
proof (induction t ks arbitrary: ns rule: node_at.induct)
  case (3 es n ks)
  then obtain v where v: "map_of es n = Some v" "node_at v ks = Some u" by (auto split: option.splits)
  then have mem: "(n, v) \<in> set es" by (simp add: map_of_SomeD)
  show ?case
  proof (cases "ks = []")
    case True
    with v mem show ?thesis by (auto intro: rev_image_eqI)
  next
    case False
    with "3.IH" [OF v(1) v(2), of "ns @ [n]"] mem show ?thesis by force
  qed
qed auto

lemma well_named_at: "\<lbrakk>well_named t; node_at t ns = Some u\<rbrakk> \<Longrightarrow> well_named u"
  by (induction t ns rule: node_at.induct) (auto split: option.splits dest: map_of_SomeD)

fun node_count :: "node \<Rightarrow> nat" where
  "node_count (File b) = 1"
| "node_count (Dir es) = Suc (sum_list (map (\<lambda>(n, t). node_count t) es))"

text \<open>
  What the walk does with a callback that never skips and never stops: it hands every entry to
  the callback, in order, up to the first failure.
\<close>

fun visit :: "'c walk_cb \<Rightarrow> dir_item list \<Rightarrow> 'c \<Rightarrow> 'c \<times> unit storage_result" where
  "visit cb [] c = (c, Ok ())"
| "visit cb (i # is) c =
     (case cb c i of
        (c', Ok _) \<Rightarrow> visit cb is c'
      | (c', Err e) \<Rightarrow> (c', Err (WalkDirError e))
      | (c', Panic) \<Rightarrow> (c', Panic)
      | (c', Hang) \<Rightarrow> (c', Hang))"

definition steady :: "'c walk_cb \<Rightarrow> bool" where
  "steady cb \<longleftrightarrow> (\<forall>c i. snd (cb c i) \<noteq> Ok SkipCurrentNode \<and> snd (cb c i) \<noteq> Ok StopWalking)"

lemma visit_append:
  "visit cb (is @ js) c = (case visit cb is c of (c', Ok _) \<Rightarrow> visit cb js c' | r \<Rightarrow> r)"
  by (induction "is" arbitrary: c) (auto split: prod.splits res.splits)

lemma walk_items_steady:
  assumes "steady cb"
  shows "walk_items cb items stack c =
    (case visit cb items c of
       (c', Ok _) \<Rightarrow> (c', Go (rev (map abs_path (filter is_dir items)) @ stack))
     | (c', r) \<Rightarrow> (c', Leave r))"
  using assms unfolding steady_def
proof (induction items arbitrary: stack c)
  case (Cons i items)
  obtain c' r where r: "cb c i = (c', r)" by force
  with Cons.prems have "r \<noteq> Ok SkipCurrentNode" "r \<noteq> Ok StopWalking" by (metis snd_conv)+
  with r Cons show ?case
    by (cases r rule: res.exhaust; cases "the_elem {r}") (auto split: prod.splits res.splits walk_ret_ctl.splits)
qed simp

text \<open>
  A directory listing that describes a finite tree: \<open>item ns u\<close> is the entry for the node \<open>u\<close> that
  the names \<open>ns\<close> lead to.
\<close>

locale tree_listing =
  fixes ls :: "path \<Rightarrow> dir_item list storage_result"
    and item :: "string list \<Rightarrow> node \<Rightarrow> dir_item"
    and tree :: node
  assumes named: "well_named tree"
    and item_is_dir: "is_dir (item ns u) = is_dir_node u"
    and lists: "node_at tree ns = Some (Dir es) \<Longrightarrow>
      ls (abs_path (item ns (Dir es))) = Ok (map (\<lambda>(n, u). item (ns @ [n]) u) es)"
begin

definition dirs_ok :: "(string list \<times> node) list \<Rightarrow> bool" where
  "dirs_ok ds \<longleftrightarrow> (\<forall>(ns, u) \<in> set ds. node_at tree ns = Some u \<and> is_dir_node u)"

definition items_below :: "(string list \<times> node) list \<Rightarrow> dir_item list" where
  "items_below ds = concat (map (\<lambda>(ns, u). map (\<lambda>(ms, v). item ms v) (entries ns u)) ds)"

lemma items_below_dir:
  "items_below ((ns, Dir es) # ds) =
     map (\<lambda>(n, u). item (ns @ [n]) u) es @
     items_below (rev (map (\<lambda>(n, u). (ns @ [n], u)) (filter (\<lambda>(n, u). is_dir_node u) es)) @ ds)"
proof -
  have "concat (map (\<lambda>(n, u). map (\<lambda>(ms, v). item ms v) (entries (ns @ [n]) u)) us) =
    items_below (map (\<lambda>(n, u). (ns @ [n], u)) (filter (\<lambda>(n, u). is_dir_node u) us))" for us
  proof (induction us)
    case (Cons nu us)
    then show ?case by (cases nu; cases "snd nu") (auto simp: items_below_def)
  qed (simp add: items_below_def)
  from this [of "rev es"] show ?thesis
    by (simp add: items_below_def map_concat rev_map rev_filter comp_def case_prod_unfold)
qed

lemma walk_stack:
  assumes "steady cb" and "dirs_ok ds"
  shows "walk_loop ls cb (map (\<lambda>(ns, u). abs_path (item ns u)) ds) c = Some (visit cb (items_below ds) c)"
  using assms(2)
proof (induction "sum_list (map (node_count \<circ> snd) ds)" arbitrary: ds c rule: less_induct)
  case less
  show ?case
  proof (cases ds)
    case (Cons d rest)
    with less.prems obtain ns es where d: "d = (ns, Dir es)" "node_at tree ns = Some (Dir es)"
      by (cases d; cases "snd d") (auto simp: dirs_ok_def)
    let ?items = "map (\<lambda>(n, u). item (ns @ [n]) u) es"
    let ?subs = "rev (map (\<lambda>(n, u). (ns @ [n], u)) (filter (\<lambda>(n, u). is_dir_node u) es))"
    have "map_of es n = Some u" if "(n, u) \<in> set es" for n u
      using well_named_at [OF named d(2)] that by simp
    with less.prems Cons have sub_ok: "dirs_ok (?subs @ rest)"
      using node_at_snoc [OF d(2)] by (auto simp: dirs_ok_def)
    have smaller: "sum_list (map (node_count \<circ> snd) (?subs @ rest)) < sum_list (map (node_count \<circ> snd) ds)"
    proof -
      have "sum_list (map (node_count \<circ> snd) (map (\<lambda>(n, u). (ns @ [n], u)) (filter (\<lambda>(n, u). is_dir_node u) us)))
          \<le> sum_list (map (\<lambda>(n, t). node_count t) us)" for us
        by (induction us) auto
      then show ?thesis using Cons d(1) by (simp add: sum_list_rev le_imp_less_Suc flip: rev_map)
    qed
    have pushed: "rev (map abs_path (filter is_dir ?items)) =
        map (\<lambda>(ns, u). abs_path (item ns u)) ?subs"
      by (simp add: rev_map filter_map comp_def case_prod_unfold item_is_dir)
    from less.hyps [OF smaller sub_ok] Cons d show ?thesis
      by (simp add: walk_loop_Cons [where ls = ls, OF lists [OF d(2)]] walk_items_steady [OF assms(1)] pushed
        items_below_dir visit_append split: prod.splits res.splits)
  qed (simp add: items_below_def)
qed

text \<open>The default walk from the root of the tree hands every entry to the callback, in order.\<close>

lemma walk_visits:
  assumes "steady cb" and "is_dir_node tree" and "list version = ls"
  shows "default_walk_dir list version (abs_path (item [] tree)) cb c =
    visit cb (map (\<lambda>(ms, v). item ms v) (entries [] tree)) c"
proof -
  have "dirs_ok [([], tree)]" using assms(2) by (simp add: dirs_ok_def)
  from walk_stack [OF assms(1) this, of c] show ?thesis
    by (simp add: default_walk_dir_def assms(3) items_below_def)
qed

end

end
