(* ===== verification/Git_Backend.thy ===== *)
theory Git_Backend
  imports Storage
begin

text \<open>
  \<open>src/storage_backends/git/mod.rs\<close>. The crate \<open>git2\<close> is the record \<open>git2\<close> over repositories
  \<open>'r\<close>: what it answers on a repository, and the repository after \<open>fetch\<close> and \<open>branch\<close>. An object
  id is its bytes. The locale \<open>git_crate\<close> states how \<open>Tree::walk\<close> runs its callback; \<open>git_ref\<close> is
  an instance, over repositories of commits with trees.
\<close>

section \<open>The crate git2\<close>

record git_commit =
  gc_id :: string
  gc_message :: string

record git_entry =
  ge_name :: "string option"
  ge_id :: string
  ge_is_tree :: bool

datatype git_object = ObjTree string | ObjOther

text \<open>The end of a call of the walk's callback: its code (0 goes on, 1 skips, -1 stops), or none.\<close>

datatype git_step = Code int | StepPanic | StepHang

type_synonym 'c git_walk_cb = "'c \<Rightarrow> string \<Rightarrow> git_entry \<Rightarrow> 'c \<times> git_step"

type_synonym 'a git_result = "foreign_error + 'a"

text \<open>
  What the code hands to git2 for a connection: whether it accepts a host's certificate, and, for the
  user name in the URL (if any), what \<open>Cred::ssh_key\<close> is called with.
\<close>

record ssh_key =
  key_username :: string
  key_private :: path

record remote_callbacks =
  rc_certificate_check :: "string \<Rightarrow> bool"
  rc_credentials :: "string option \<Rightarrow> (ssh_key, foreign_error) res"

text \<open>The crate, and the variable \<open>HOME\<close> of the process, none when it is not set or not text.\<close>

record ('r, 'c) git2 =
  env_home :: "string option"
  open_bare :: "path \<Rightarrow> 'r git_result"
  clone_bare :: "remote_callbacks \<Rightarrow> string \<Rightarrow> path \<Rightarrow> ('r, foreign_error) res"
  oid_from_bytes :: "string \<Rightarrow> string git_result"
  find_blob :: "'r \<Rightarrow> string \<Rightarrow> string git_result"
  find_commit :: "'r \<Rightarrow> string \<Rightarrow> git_commit git_result"
  commit_tree :: "'r \<Rightarrow> git_commit \<Rightarrow> string git_result"
  tree_get_path :: "'r \<Rightarrow> string \<Rightarrow> path \<Rightarrow> git_entry git_result"
  to_object :: "'r \<Rightarrow> git_entry \<Rightarrow> git_object git_result"
  tree_walk :: "'r \<Rightarrow> string \<Rightarrow> 'c git_walk_cb \<Rightarrow> 'c \<Rightarrow> 'c \<times> (unit, foreign_error) res"
  find_local_branch :: "'r \<Rightarrow> string \<Rightarrow> string git_result"
  peel_to_commit :: "'r \<Rightarrow> string \<Rightarrow> git_commit git_result"
  create_detached :: "string \<Rightarrow> unit git_result"
  connect_auth :: "remote_callbacks \<Rightarrow> string \<Rightarrow> (unit, foreign_error) res"
  remote_list :: "string \<Rightarrow> (string \<times> string) list git_result"
  find_remote :: "'r \<Rightarrow> string \<Rightarrow> string git_result"
  fetch :: "remote_callbacks \<Rightarrow> 'r \<Rightarrow> string \<Rightarrow> string \<Rightarrow> ('r, foreign_error) res"
  set_branch :: "'r \<Rightarrow> string \<Rightarrow> git_commit \<Rightarrow> 'r git_result"

fun of_git :: "'a git_result \<Rightarrow> 'a storage_result" where
  "of_git (Inr x) = Ok x"
| "of_git (Inl e) = Err (Git2Error e)"

lemma of_git_Ok_iff [simp]: "of_git r = Ok x \<longleftrightarrow> r = Inr x"
  by (cases r) simp_all

lemma of_git_no_unwind [simp]: "of_git r \<noteq> Panic" "of_git r \<noteq> Hang"
  by (cases r; simp)+

section \<open>The backend\<close>

text \<open>\<open>GitBackendInner\<close>, with the repository it holds.\<close>

record 'r git_backend =
  gb_local_repo_path :: path
  gb_remote_repo_url :: string
  gb_git_repo :: 'r
  gb_target_branch_name :: string
  gb_cur_version :: version_item

definition git_get_obj_by_hash :: "('r, 'c) git2 \<Rightarrow> 'r git_backend \<Rightarrow> string \<Rightarrow> string storage_result" where
  "git_get_obj_by_hash G b h =
     and_then (of_git (oid_from_bytes G h)) (\<lambda>git_oid. of_git (find_blob G (gb_git_repo b) git_oid))"

definition git_list_dir :: "'r git_backend \<Rightarrow> version_item \<Rightarrow> path \<Rightarrow> dir_item list storage_result" where
  "git_list_dir b version path = Ok []"

text \<open>
  The closure handed to \<open>Tree::walk\<close>: an entry whose name is not text is passed over, and so is
  an error of the callback.
\<close>

definition git_walk_step :: "path \<Rightarrow> 'c walk_cb \<Rightarrow> 'c git_walk_cb" where
  "git_walk_step path cb c root_rel_path entry =
     (case ge_name entry of
        None \<Rightarrow> (c, Code 0)
      | Some filename \<Rightarrow>
          (let dir_item = \<lparr>abs_path = path_join (path_join path root_rel_path) filename,
                           is_dir = ge_is_tree entry, hash = ge_id entry\<rparr> in
           (case cb c dir_item of
              (c', Ok Next) \<Rightarrow> (c', Code 0)
            | (c', Ok SkipCurrentNode) \<Rightarrow> (c', Code 1)
            | (c', Ok StopWalking) \<Rightarrow> (c', Code (- 1))
            | (c', Err e) \<Rightarrow> (c', Code 0)
            | (c', Panic) \<Rightarrow> (c', StepPanic)
            | (c', Hang) \<Rightarrow> (c', StepHang))))"

text \<open>Where the walk starts: the root tree, the tree at the path, or nowhere (\<open>None\<close>).\<close>

definition git_walk_start :: "('r, 'c) git2 \<Rightarrow> 'r \<Rightarrow> version_item \<Rightarrow> path \<Rightarrow> string option storage_result" where
  "git_walk_start G repo version path =
     and_then (of_git (oid_from_bytes G (v_id version))) (\<lambda>oid.
     and_then (of_git (find_commit G repo oid)) (\<lambda>commit.
     and_then (of_git (commit_tree G repo commit)) (\<lambda>root_tree.
       if has_root path \<and> path_segs path = [] then Ok (Some root_tree)
       else
         and_then (if has_root path
                   then ok_or (path_strip_prefix path ''/'') (StripPrefixError ''prefix not found'')
                   else Ok path) (\<lambda>path_for_git.
         and_then (of_git (tree_get_path G repo root_tree path_for_git)) (\<lambda>entry.
         and_then (of_git (to_object G repo entry)) (\<lambda>t_obj.
           Ok (case t_obj of ObjTree t \<Rightarrow> Some t | ObjOther \<Rightarrow> None)))))))"

definition git_walk_dir ::
  "('r, 'c) git2 \<Rightarrow> 'r git_backend \<Rightarrow> version_item \<Rightarrow> path \<Rightarrow> 'c walk_cb \<Rightarrow> 'c \<Rightarrow> 'c \<times> unit storage_result" where
  "git_walk_dir G b version path cb c =
     (case git_walk_start G (gb_git_repo b) version path of
        Ok None \<Rightarrow> (c, Ok ())
      | Ok (Some walk_start_point) \<Rightarrow>
          (case tree_walk G (gb_git_repo b) walk_start_point (git_walk_step path cb) c of
             (c', r) \<Rightarrow> (c', map_err Git2Error r))
      | Err e \<Rightarrow> (c, Err e)
      | Panic \<Rightarrow> (c, Panic)
      | Hang \<Rightarrow> (c, Hang))"

definition git_get_hash_by_path :: "'r git_backend \<Rightarrow> version_item \<Rightarrow> path \<Rightarrow> string storage_result" where
  "git_get_hash_by_path b version path = Err (IOError ''not exist or not a file'')"

definition git_get_diff_list :: "version_item \<Rightarrow> version_item \<Rightarrow> string \<Rightarrow> string list storage_result" where
  "git_get_diff_list old_version new_version namespace = Ok []"

definition git_get_current_version :: "('r, 'c) git2 \<Rightarrow> 'r git_backend \<Rightarrow> version_item storage_result" where
  "git_get_current_version G b =
     and_then (of_git (find_local_branch G (gb_git_repo b) (gb_target_branch_name b))) (\<lambda>branch.
     and_then (of_git (peel_to_commit G (gb_git_repo b) branch)) (\<lambda>commit.
     and_then (from_utf8 (gc_message commit) (Utf8Error (utf8_error_text (gc_message commit)))) (\<lambda>name.
       Ok \<lparr>v_name = name, v_id = gc_id commit\<rparr>)))"

definition git_list_versions :: "nat \<Rightarrow> nat \<Rightarrow> version_item list storage_result" where
  "git_list_versions start limit = Ok []"

text \<open>\<open>set_update_cb\<close> only starts the watcher thread.\<close>

definition git_set_update_cb :: "unit storage_result" where
  "git_set_update_cb = Ok ()"

definition git_storage :: "('r, 'c) git2 \<Rightarrow> 'r git_backend \<Rightarrow> 'c storage_backend" where
  "git_storage G b = \<lparr>get_obj_by_hash = git_get_obj_by_hash G b,
     list_dir = git_list_dir b,
     get_hash_by_path = git_get_hash_by_path b,
     set_update_cb = git_set_update_cb,
     get_diff_list = git_get_diff_list,
     get_current_version = git_get_current_version G b,
     list_versions = git_list_versions,
     walk_dir = git_walk_dir G b\<rparr>"

section \<open>Following the remote branch\<close>

text \<open>
  \<open>get_fetch_opt\<close>, and the same callbacks again where the remote is probed. Every certificate is
  accepted; a URL without a user name and a process without \<open>HOME\<close> make the callback panic.
\<close>

definition get_fetch_opt :: "string option \<Rightarrow> remote_callbacks" where
  "get_fetch_opt home =
     \<lparr>rc_certificate_check = (\<lambda>_. True),
      rc_credentials = (\<lambda>username_from_url.
        case username_from_url of
          None \<Rightarrow> Panic
        | Some username \<Rightarrow>
            (case home of
               None \<Rightarrow> Panic
             | Some h \<Rightarrow> Ok \<lparr>key_username = username, key_private = h @ ''/.ssh/id_rsa''\<rparr>))\<rparr>"

fun newest_commit :: "string \<Rightarrow> string \<Rightarrow> (string \<times> string) list \<Rightarrow> string option option" where
  "newest_commit branch cur [] = Some None"
| "newest_commit branch cur ((name, oid) # heads) =
     (if name \<noteq> branch then newest_commit branch cur heads
      else if oid = cur then None
      else Some (Some oid))"

text \<open>
  \<open>git_sync_local_branch\<close>: the backend afterwards, and the new version, none when the branch has not
  moved, or an error. The list of the remote is searched by \<open>newest_commit\<close>: \<open>None\<close> is the early
  return, \<open>Some None\<close> a branch that is not listed, which the \<open>unwrap\<close> after the fetch turns into
  a panic.
\<close>

definition git_sync_local_branch ::
  "('r, 'c) git2 \<Rightarrow> string \<Rightarrow> 'r git_backend \<Rightarrow> string \<Rightarrow> 'r git_backend \<times> version_item option storage_result" where
  "git_sync_local_branch G remote_repo_url b branch_name =
     (let refspec = ''refs/heads/'' @ branch_name in
      case and_then (of_git (create_detached G remote_repo_url)) (\<lambda>_.
           and_then (map_err Git2Error (connect_auth G (get_fetch_opt (env_home G)) remote_repo_url)) (\<lambda>_.
             of_git (remote_list G remote_repo_url))) of
        Err e \<Rightarrow> (b, Err e)
      | Panic \<Rightarrow> (b, Panic)
      | Hang \<Rightarrow> (b, Hang)
      | Ok remote_heads \<Rightarrow>
          (case newest_commit refspec (v_id (gb_cur_version b)) remote_heads of
             None \<Rightarrow> (b, Ok None)
           | Some newest_remote_commit_id \<Rightarrow>
               (case and_then (of_git (find_remote G (gb_git_repo b) ''origin'')) (\<lambda>remote.
                       map_err Git2Error (fetch G (get_fetch_opt (env_home G)) (gb_git_repo b) remote refspec)) of
                  Err e \<Rightarrow> (b, Err e)
                | Panic \<Rightarrow> (b, Panic)
                | Hang \<Rightarrow> (b, Hang)
                | Ok repo \<Rightarrow>
                    (let b = b\<lparr>gb_git_repo := repo\<rparr> in
                     case newest_remote_commit_id of
                       None \<Rightarrow> (b, Panic)
                     | Some oid \<Rightarrow>
                         (case of_git (find_commit G repo oid) of
                            Ok new_commit \<Rightarrow>
                              (case of_git (set_branch G repo (gb_target_branch_name b) new_commit) of
                                 Ok repo' \<Rightarrow>
                                   (b\<lparr>gb_git_repo := repo'\<rparr>,
                                    Ok (Some \<lparr>v_name = (if utf8_valid (gc_message new_commit)
                                                        then gc_message new_commit else []),
                                              v_id = gc_id new_commit\<rparr>))
                               | Err e \<Rightarrow> (b, Err e)
                               | r \<Rightarrow> (b, Panic))
                          | Err e \<Rightarrow> (b, Err e)
                          | r \<Rightarrow> (b, Panic))))))"

text \<open>
  The watcher thread: what \<open>git2\<close> answers in each round, and the versions it calls back with. A panic
  of the synchronisation ends the thread. The callbacks are taken to return: one that panics unwinds the
  loop and ends the thread as well, before the version is kept (\<open>update_panics\<close> in \<open>Ffi_Handles\<close>).
\<close>

fun git_watcher ::
  "('r, 'c) git2 list \<Rightarrow> string \<Rightarrow> string \<Rightarrow> 'r git_backend \<Rightarrow> 'r git_backend \<times> version_item list" where
  "git_watcher [] remote_repo_url branch_name b = (b, [])"
| "git_watcher (G # rounds) remote_repo_url branch_name b =
     (case git_sync_local_branch G remote_repo_url b branch_name of
        (b', Ok (Some new_version)) \<Rightarrow>
          (case git_watcher rounds remote_repo_url branch_name (b'\<lparr>gb_cur_version := new_version\<rparr>) of
             (b'', vs) \<Rightarrow> (b'', new_version # vs))
      | (b', Ok None) \<Rightarrow> git_watcher rounds remote_repo_url branch_name b'
      | (b', Err e) \<Rightarrow> git_watcher rounds remote_repo_url branch_name b'
      | (b', r) \<Rightarrow> (b', []))"

definition git_new :: "('r, 'c) git2 \<Rightarrow> path \<Rightarrow> string \<Rightarrow> string \<Rightarrow> 'r git_backend storage_result" where
  "git_new G local_repo_path remote_repo_url target_branch_name =
     and_then (case open_bare G local_repo_path of
                 Inr t \<Rightarrow> Ok t
               | Inl _ \<Rightarrow> map_err Git2Error (clone_bare G (get_fetch_opt (env_home G)) remote_repo_url local_repo_path)) (\<lambda>git_repo.
       case git_sync_local_branch G remote_repo_url
              \<lparr>gb_local_repo_path = local_repo_path, gb_remote_repo_url = remote_repo_url,
               gb_git_repo = git_repo, gb_target_branch_name = target_branch_name,
               gb_cur_version = \<lparr>v_name = [], v_id = []\<rparr>\<rparr> target_branch_name of
         (ret, Ok _) \<Rightarrow>
           and_then (git_get_current_version G ret) (\<lambda>cur_version. Ok (ret\<lparr>gb_cur_version := cur_version\<rparr>))
       | (ret, Err e) \<Rightarrow> Err e
       | (ret, Panic) \<Rightarrow> Panic
       | (ret, Hang) \<Rightarrow> Hang)"

section \<open>How the walk runs its callback\<close>

text \<open>
  In pre-order: every entry with the path of its tree relative to the start. While the callback
  goes on (code 0) every entry is visited; the state changes through the callback only.
\<close>

fun git_visit :: "'c git_walk_cb \<Rightarrow> (string \<times> git_entry) list \<Rightarrow> 'c \<Rightarrow> 'c \<times> (unit, foreign_error) res" where
  "git_visit cb [] c = (c, Ok ())"
| "git_visit cb ((root, e) # es) c =
     (case cb c root e of
        (c', Code _) \<Rightarrow> git_visit cb es c'
      | (c', StepPanic) \<Rightarrow> (c', Panic)
      | (c', StepHang) \<Rightarrow> (c', Hang))"

definition goes_on :: "'c git_walk_cb \<Rightarrow> bool" where
  "goes_on cb \<longleftrightarrow> (\<forall>c root e k. snd (cb c root e) = Code k \<longrightarrow> k = 0)"

locale git_crate =
  fixes G :: "('r, 'c) git2"
    and preorder :: "'r \<Rightarrow> string \<Rightarrow> (string \<times> git_entry) list option"
  assumes walk_all: "\<lbrakk>preorder repo t = Some es; goes_on cb\<rbrakk> \<Longrightarrow> tree_walk G repo t cb c = git_visit cb es c"
    and walk_state: "\<lbrakk>I c; \<And>c root e. I c \<Longrightarrow> I (fst (cb c root e))\<rbrakk> \<Longrightarrow> I (fst (tree_walk G repo t cb c))"
begin

lemma git_walk_step_inv:
  "\<lbrakk>I c; \<And>c i. I c \<Longrightarrow> I (fst (cb c i))\<rbrakk> \<Longrightarrow> I (fst (git_walk_step path cb c root e))"
proof -
  assume c: "I c" and cb: "\<And>c i. I c \<Longrightarrow> I (fst (cb c i))"
  show ?thesis
  proof (cases "ge_name e")
    case (Some filename)
    let ?d = "\<lparr>abs_path = path_join (path_join path root) filename, is_dir = ge_is_tree e, hash = ge_id e\<rparr>"
    have "I (fst (cb c ?d))" using cb c by blast
    moreover have "fst (git_walk_step path cb c root e) = fst (cb c ?d)"
      using Some by (auto simp: git_walk_step_def Let_def split: prod.split res.split walk_ret_ctl.split)
    ultimately show ?thesis by simp
  qed (use c in \<open>simp add: git_walk_step_def\<close>)
qed

text \<open>The contract of a walk holds of the git backend.\<close>

sublocale git_walk: walker "git_walk_dir G b" for b
proof unfold_locales
  fix I :: "'c \<Rightarrow> bool" and c version path and cb :: "'c walk_cb"
  assume c: "I c" and cb: "\<And>c i. I c \<Longrightarrow> I (fst (cb c i))"
  have "I (fst (tree_walk G repo t (git_walk_step path cb) c))" for repo t
    using c by (rule walk_state) (rule git_walk_step_inv, assumption, rule cb)
  then show "I (fst (git_walk_dir G b version path cb c))"
    using c by (simp add: git_walk_dir_def case_prod_unfold split: res.split option.split)
qed

text \<open>
  With a callback that never skips and never stops, the walk hands every entry with a name to it,
  and goes on after its errors.
\<close>

lemma git_walk_steady:
  assumes "steady cb"
  shows "goes_on (git_walk_step path cb)"
  unfolding goes_on_def
proof (intro allI impI)
  fix c root e k assume k: "snd (git_walk_step path cb c root e) = Code k"
  show "k = 0"
  proof (cases "ge_name e")
    case (Some filename)
    let ?d = "\<lparr>abs_path = path_join (path_join path root) filename, is_dir = ge_is_tree e, hash = ge_id e\<rparr>"
    obtain c' r where r: "cb c ?d = (c', r)" by force
    with assms have "r \<noteq> Ok SkipCurrentNode" "r \<noteq> Ok StopWalking" by (metis snd_conv steady_def)+
    with k r Some show ?thesis
      by (auto simp: git_walk_step_def Let_def split: res.split_asm walk_ret_ctl.split_asm)
  qed (use k in \<open>simp add: git_walk_step_def\<close>)
qed

end

section \<open>An instance\<close>

text \<open>
  Repositories of commits with a message and a tree, and local branches. The id of an object is
  that of its commit and the names that lead to it. \<open>Tree::walk\<close> with all its codes.
\<close>

record ref_repo =
  rr_commits :: "(string \<times> string \<times> node) list"
  rr_branches :: "(string \<times> string) list"

definition ref_commit :: "ref_repo \<Rightarrow> string \<Rightarrow> git_commit git_result" where
  "ref_commit r oid = (case map_of (rr_commits r) oid of
     None \<Rightarrow> Inl ''object not found'' | Some (msg, t) \<Rightarrow> Inr \<lparr>gc_id = oid, gc_message = msg\<rparr>)"

definition ref_object :: "ref_repo \<Rightarrow> string \<Rightarrow> node option" where
  "ref_object r oid = (case split_on slash oid of
     [] \<Rightarrow> None
   | c # ns \<Rightarrow> (case map_of (rr_commits r) c of None \<Rightarrow> None | Some (msg, t) \<Rightarrow> node_at t ns))"

definition ref_entry :: "string \<Rightarrow> string \<Rightarrow> node \<Rightarrow> git_entry" where
  "ref_entry oid n t = \<lparr>ge_name = Some n, ge_id = oid @ slash # n, ge_is_tree = is_dir_node t\<rparr>"

fun ref_preorder :: "string \<Rightarrow> string \<Rightarrow> node \<Rightarrow> (string \<times> git_entry) list" where
  "ref_preorder oid rel (File b) = []"
| "ref_preorder oid rel (Dir es) =
     concat (map (\<lambda>(n, t). (rel, ref_entry oid n t) # ref_preorder (oid @ slash # n) (rel @ n @ ''/'') t) es)"

fun ref_walk :: "'c git_walk_cb \<Rightarrow> string \<Rightarrow> string \<Rightarrow> node \<Rightarrow> 'c \<Rightarrow> 'c \<times> git_step"
  and ref_walks :: "'c git_walk_cb \<Rightarrow> string \<Rightarrow> string \<Rightarrow> (string \<times> node) list \<Rightarrow> 'c \<Rightarrow> 'c \<times> git_step"
where
  "ref_walk cb oid rel (File b) c = (c, Code 0)"
| "ref_walk cb oid rel (Dir es) c = ref_walks cb oid rel es c"
| "ref_walks cb oid rel [] c = (c, Code 0)"
| "ref_walks cb oid rel ((n, t) # es) c =
     (case cb c rel (ref_entry oid n t) of
        (c', Code k) \<Rightarrow>
          if k < 0 then (c', Code k)
          else if k > 0 then ref_walks cb oid rel es c'
          else (case ref_walk cb (oid @ slash # n) (rel @ n @ ''/'') t c' of
                  (c'', Code k') \<Rightarrow> if k' < 0 then (c'', Code k') else ref_walks cb oid rel es c''
                | r \<Rightarrow> r)
      | r \<Rightarrow> r)"

fun ref_end :: "'c \<times> git_step \<Rightarrow> 'c \<times> (unit, foreign_error) res" where
  "ref_end (c, Code k) = (c, if k < 0 then Err ''git_tree_walk callback returned -1'' else Ok ())"
| "ref_end (c, StepPanic) = (c, Panic)"
| "ref_end (c, StepHang) = (c, Hang)"

text \<open>A remote: its repository, and whether it can be reached.\<close>

definition git_ref :: "(path \<Rightarrow> ref_repo git_result) \<Rightarrow> ref_repo \<Rightarrow> (ref_repo, 'c) git2" where
  "git_ref local_repo remote =
     \<lparr>env_home = Some ''/root'',
      open_bare = local_repo,
      clone_bare = (\<lambda>cbs url path. Ok remote),
      oid_from_bytes = Inr,
      find_blob = (\<lambda>r oid. case ref_object r oid of Some (File b) \<Rightarrow> Inr b | _ \<Rightarrow> Inl ''object not found''),
      find_commit = ref_commit,
      commit_tree = (\<lambda>r commit. Inr (gc_id commit)),
      tree_get_path = (\<lambda>r oid p. case ref_object r (join_on slash (oid # path_segs p)) of
        None \<Rightarrow> Inl ''the path does not exist in the given tree''
      | Some t \<Rightarrow> Inr \<lparr>ge_name = path_file_name p, ge_id = join_on slash (oid # path_segs p),
                       ge_is_tree = is_dir_node t\<rparr>),
      to_object = (\<lambda>r entry. Inr (if ge_is_tree entry then ObjTree (ge_id entry) else ObjOther)),
      tree_walk = (\<lambda>r oid cb c. case ref_object r oid of
        None \<Rightarrow> (c, Err ''object not found'') | Some t \<Rightarrow> ref_end (ref_walk cb oid [] t c)),
      find_local_branch = (\<lambda>r name. case map_of (rr_branches r) name of
        None \<Rightarrow> Inl ''cannot locate local branch'' | Some oid \<Rightarrow> Inr oid),
      peel_to_commit = ref_commit,
      create_detached = (\<lambda>url. Inr ()),
      connect_auth = (\<lambda>cbs url. Ok ()),
      remote_list = (\<lambda>url. Inr (map (\<lambda>(name, oid). (''refs/heads/'' @ name, oid)) (rr_branches remote))),
      find_remote = (\<lambda>r name. Inr name),
      fetch = (\<lambda>cbs r remote_name refspec. Ok (r\<lparr>rr_commits := rr_commits remote @ rr_commits r\<rparr>)),
      set_branch = (\<lambda>r name commit. Inr (r\<lparr>rr_branches := (name, gc_id commit) # rr_branches r\<rparr>))\<rparr>"

lemma git_visit_append:
  "git_visit cb (es @ fs) c = (case git_visit cb es c of (c', Ok u) \<Rightarrow> git_visit cb fs c' | r \<Rightarrow> r)"
  by (induction cb es c rule: git_visit.induct) (auto split: prod.splits git_step.splits)

text \<open>A walk that agrees with the visit of a list, and never asks to stop.\<close>

definition walks_as :: "'c git_walk_cb \<Rightarrow> (string \<times> git_entry) list \<Rightarrow> 'c \<Rightarrow> 'c \<times> git_step \<Rightarrow> bool" where
  "walks_as cb es c r \<longleftrightarrow> ref_end r = git_visit cb es c \<and> (\<forall>k. snd r = Code k \<longrightarrow> k = 0)"

lemma ref_walks_visit:
  assumes "goes_on cb"
    and "\<And>n t oid rel c. (n, t) \<in> set es \<Longrightarrow> walks_as cb (ref_preorder oid rel t) c (ref_walk cb oid rel t c)"
  shows "walks_as cb (ref_preorder oid rel (Dir es)) c (ref_walks cb oid rel es c)"
  using assms(2)
proof (induction es arbitrary: c)
  case (Cons e es)
  obtain n t where e: "e = (n, t)" by force
  obtain c' s where cb: "cb c rel (ref_entry oid n t) = (c', s)" by force
  show ?case
  proof (cases s)
    case (Code k)
    then have k: "k = 0" using assms(1) cb unfolding goes_on_def by (metis snd_conv)
    obtain c'' s' where sub: "ref_walk cb (oid @ slash # n) (rel @ n @ ''/'') t c' = (c'', s')" by force
    with Cons.prems [of n t "oid @ slash # n" "rel @ n @ ''/''" c'] e
    have pre: "git_visit cb (ref_preorder (oid @ slash # n) (rel @ n @ ''/'') t) c' = ref_end (c'', s')"
      "\<forall>k. s' = Code k \<longrightarrow> k = 0" by (auto simp: walks_as_def)
    have rest: "walks_as cb (ref_preorder oid rel (Dir es)) c'' (ref_walks cb oid rel es c'')"
      using Cons by (meson list.set_intros(2))
    show ?thesis
      using cb Code k sub pre rest e
      by (cases s') (simp_all add: walks_as_def git_visit_append)
  qed (use cb e in \<open>simp_all add: walks_as_def\<close>)
qed (simp add: walks_as_def)

lemma ref_walk_visit:
  assumes "goes_on cb"
  shows "walks_as cb (ref_preorder oid rel t) c (ref_walk cb oid rel t c)"
proof (induction t arbitrary: oid rel c)
  case (Dir es)
  have "walks_as cb (ref_preorder oid rel t) c (ref_walk cb oid rel t c)" if "(n, t) \<in> set es" for n t oid rel c
    using Dir that by simp
  from ref_walks_visit [OF assms this] show ?case by simp
qed (simp add: walks_as_def)

lemma ref_walk_state:
  assumes "\<And>c root e. I c \<Longrightarrow> I (fst (cb c root e))"
  shows "I c \<Longrightarrow> I (fst (ref_walk cb oid rel t c))" and "I c \<Longrightarrow> I (fst (ref_walks cb oid rel es c))"
  using assms
proof (induction cb oid rel t c and cb oid rel es c rule: ref_walk_ref_walks.induct)
  case (4 cb oid rel n t es c)
  obtain c' s where cb: "cb c rel (ref_entry oid n t) = (c', s)" by force
  with "4.prems" have c': "I c'" by (metis fst_conv)
  show ?case
  proof (cases s)
    case (Code k)
    obtain c'' s' where sub: "ref_walk cb (oid @ slash # n) (rel @ n @ ''/'') t c' = (c'', s')" by force
    show ?thesis
      using "4.IH" "4.prems"(2) cb c' Code sub by (cases s') auto
  qed (use cb c' in simp_all)
qed simp_all

lemma ref_end_fst [simp]: "fst (ref_end r) = fst r"
  by (cases r rule: ref_end.cases) simp_all

definition ref_entries :: "ref_repo \<Rightarrow> string \<Rightarrow> (string \<times> git_entry) list option" where
  "ref_entries r oid = map_option (ref_preorder oid []) (ref_object r oid)"

interpretation ref_git: git_crate "git_ref local_repo remote" ref_entries for local_repo remote
proof unfold_locales
  fix repo t es c and cb :: "'c git_walk_cb"
  assume "ref_entries repo t = Some es" "goes_on cb"
  then show "tree_walk (git_ref local_repo remote) repo t cb c = git_visit cb es c"
    using ref_walk_visit [of cb t "[]"] by (auto simp: ref_entries_def git_ref_def walks_as_def)
next
  fix repo t c and cb :: "'c git_walk_cb" and I :: "'c \<Rightarrow> bool"
  assume c: "I c" and cb: "\<And>c root e. I c \<Longrightarrow> I (fst (cb c root e))"
  show "I (fst (tree_walk (git_ref local_repo remote) repo t cb c))"
  proof (cases "ref_object repo t")
    case (Some u)
    from ref_walk_state(1) [of I cb c t "[]" u, OF cb c] Some show ?thesis by (simp add: git_ref_def)
  qed (use c in \<open>simp add: git_ref_def\<close>)
qed

end
