(* ===== verification/Filesystem.thy ===== *)
theory Filesystem
  imports Storage
begin

text \<open>
  \<open>src/storage_backends/filesystem/mod.rs\<close>. The operating system is the record \<open>os_fs\<close>: what
  \<open>fs::read\<close>, \<open>fs::read_dir\<close>, \<open>Path::is_dir\<close> and \<open>fs::metadata\<close> answer. \<open>tree_os\<close> is the operating
  system over a finite tree of directories and files; on it the listing of the backend describes
  the tree (the interpretation \<open>fs_walk\<close>), so every walk returns and visits every entry.
\<close>

section \<open>The operating system\<close>

record os_fs =
  os_read :: "path \<Rightarrow> foreign_error + string"
  os_read_dir :: "path \<Rightarrow> foreign_error + (foreign_error + string) list"
  os_is_dir :: "path \<Rightarrow> bool"
  os_is_file :: "path \<Rightarrow> bool option"

fun of_io :: "foreign_error + 'a \<Rightarrow> 'a storage_result" where
  "of_io (Inr x) = Ok x"
| "of_io (Inl e) = Err (IOError e)"

definition to_str :: "path \<Rightarrow> string storage_result" where
  "to_str p = ok_or (if utf8_valid p then Some p else None) (IOError ''invalid path'')"

section \<open>The backend\<close>

record fs_backend =
  base_path :: path
  watcher :: bool
  watcher_poisoned :: bool

definition fs_new :: "path \<Rightarrow> fs_backend" where
  "fs_new base = \<lparr>base_path = base, watcher = False, watcher_poisoned = False\<rparr>"

definition get_versioned_path :: "fs_backend \<Rightarrow> version_item \<Rightarrow> path \<Rightarrow> path storage_result" where
  "get_versioned_path b version path =
     and_then (from_utf8 (v_id version) (Utf8Error (utf8_error_text (v_id version)))) (\<lambda>id.
       let t = path_join (base_path b) id in
       if has_root path
       then (case path_strip_prefix path ''/'' of Some r \<Rightarrow> Ok (path_join t r) | None \<Rightarrow> Panic)
       else Ok (path_join t path))"

definition fs_get_obj_by_hash :: "os_fs \<Rightarrow> string \<Rightarrow> string storage_result" where
  "fs_get_obj_by_hash os h =
     and_then (from_utf8 h (IOError ''invalid path'')) (\<lambda>path. of_io (os_read os path))"

fun fs_dir_items :: "os_fs \<Rightarrow> path \<Rightarrow> path \<Rightarrow> (foreign_error + string) list \<Rightarrow> dir_item list storage_result" where
  "fs_dir_items os path real [] = Ok []"
| "fs_dir_items os path real (t # ts) =
     and_then (of_io t) (\<lambda>name.
       let new_fs_abs_path = path_join real name in
       (case path_file_name new_fs_abs_path of
          None \<Rightarrow> fs_dir_items os path real ts
        | Some filename \<Rightarrow>
            and_then (to_str new_fs_abs_path) (\<lambda>h.
            and_then (fs_dir_items os path real ts) (\<lambda>rest.
              Ok (\<lparr>abs_path = path_join path filename, is_dir = os_is_dir os new_fs_abs_path,
                   hash = h\<rparr> # rest)))))"

definition fs_list_dir :: "os_fs \<Rightarrow> fs_backend \<Rightarrow> version_item \<Rightarrow> path \<Rightarrow> dir_item list storage_result" where
  "fs_list_dir os b version path =
     and_then (get_versioned_path b version path) (\<lambda>real_fs_abs_path.
     and_then (of_io (os_read_dir os real_fs_abs_path)) (\<lambda>names.
       fs_dir_items os path real_fs_abs_path names))"

definition fs_get_hash_by_path :: "os_fs \<Rightarrow> fs_backend \<Rightarrow> version_item \<Rightarrow> path \<Rightarrow> string storage_result" where
  "fs_get_hash_by_path os b version path =
     and_then (get_versioned_path b version path) (\<lambda>path.
       if os_is_file os path = Some True then to_str path
       else Err (IOError ''not exist or not a file''))"

definition fs_get_diff_list :: "version_item \<Rightarrow> version_item \<Rightarrow> string \<Rightarrow> string list storage_result" where
  "fs_get_diff_list old_version new_version namespace = Ok []"

definition read_version_from_fs :: "os_fs \<Rightarrow> path \<Rightarrow> version_item storage_result" where
  "read_version_from_fs os path =
     and_then (of_io (os_read os path)) (\<lambda>t.
     and_then (from_utf8 t (Utf8Error (utf8_error_text t))) (\<lambda>s.
       let name = str_trim s in Ok \<lparr>v_name = name, v_id = name\<rparr>))"

definition fs_get_current_version :: "os_fs \<Rightarrow> fs_backend \<Rightarrow> version_item storage_result" where
  "fs_get_current_version os b = read_version_from_fs os (path_join (base_path b) ''head'')"

definition fs_list_versions :: "nat \<Rightarrow> nat \<Rightarrow> version_item list storage_result" where
  "fs_list_versions start limit = Ok []"

section \<open>Watching the head file\<close>

text \<open>The crate \<open>notify\<close>: whether a watcher can be created and can watch a path.\<close>

record notify =
  poll_watcher_new :: bool
  watch_path :: "path \<Rightarrow> bool"

definition watch_error :: storage_backend_error where
  "watch_error = UpdateWatchingError ''error while setting up update watcher''"

definition fs_set_update_cb :: "notify \<Rightarrow> fs_backend \<Rightarrow> fs_backend \<times> unit storage_result" where
  "fs_set_update_cb nt b =
     (let path = path_join (base_path b) ''head'' in
      if \<not> poll_watcher_new nt then (b, Err watch_error)
      else if \<not> watch_path nt path then (b, Err watch_error)
      else if watcher_poisoned b then (b, Err watch_error)
      else (b\<lparr>watcher := True\<rparr>, Ok ()))"

datatype debounced_event =
    NoticeWrite | NoticeRemove | Create | Write | Chmod | Remove | Rename | Rescan | WatchError

text \<open>
  The loop of the watcher thread over what it receives: an event or a receive error, with the
  file system at that moment. It calls back with the version read after each change. The callbacks are taken to
  return: one that panics unwinds the loop and ends the thread (\<open>update_panics\<close> in \<open>Ffi_Handles\<close>).
\<close>

fun eafcc_watcher :: "path \<Rightarrow> (os_fs \<times> (foreign_error + debounced_event)) list \<Rightarrow> version_item list" where
  "eafcc_watcher path [] = []"
| "eafcc_watcher path ((os, Inr event) # rest) =
     (if event \<in> {Chmod, Create, Remove, Rename, Rescan, Write}
      then (case read_version_from_fs os path of
              Ok new_version \<Rightarrow> new_version # eafcc_watcher path rest
            | _ \<Rightarrow> eafcc_watcher path rest)
      else eafcc_watcher path rest)"
| "eafcc_watcher path ((os, Inl e) # rest) = eafcc_watcher path rest"

text \<open>The trait object: the walk is the default one.\<close>

definition fs_storage :: "os_fs \<Rightarrow> notify \<Rightarrow> fs_backend \<Rightarrow> 'c storage_backend" where
  "fs_storage os nt b = \<lparr>get_obj_by_hash = fs_get_obj_by_hash os,
     list_dir = fs_list_dir os b,
     get_hash_by_path = fs_get_hash_by_path os b,
     set_update_cb = snd (fs_set_update_cb nt b),
     get_diff_list = fs_get_diff_list,
     get_current_version = fs_get_current_version os b,
     list_versions = fs_list_versions,
     walk_dir = default_walk_dir (fs_list_dir os b)\<rparr>"

section \<open>A file system that is a tree\<close>

text \<open>
  Resolution of components from a node, with the directories above it, so \<open>..\<close> goes up (and
  stays at the root). A relative path is taken from the root, and a separator at the end of a
  file's path is ignored.
\<close>

fun resolve :: "node \<Rightarrow> node list \<Rightarrow> string list \<Rightarrow> (node \<times> node list) option" where
  "resolve t ups [] = Some (t, ups)"
| "resolve (File b) ups (s # ss) = None"
| "resolve (Dir es) ups (s # ss) =
     (if s = ''..'' then (case ups of [] \<Rightarrow> resolve (Dir es) [] ss | u # us \<Rightarrow> resolve u us ss)
      else (case map_of es s of None \<Rightarrow> None | Some t \<Rightarrow> resolve t (Dir es # ups) ss))"

definition os_node :: "node \<Rightarrow> path \<Rightarrow> node option" where
  "os_node root p = map_option fst (resolve root [] (path_segs p))"

definition tree_os :: "node \<Rightarrow> os_fs" where
  "tree_os root =
     \<lparr>os_read = (\<lambda>p. case os_node root p of
        Some (File b) \<Rightarrow> Inr b
      | Some (Dir es) \<Rightarrow> Inl ''Is a directory (os error 21)''
      | None \<Rightarrow> Inl ''No such file or directory (os error 2)''),
      os_read_dir = (\<lambda>p. case os_node root p of
        Some (Dir es) \<Rightarrow> Inr (map (\<lambda>(n, t). Inr n) es)
      | Some (File b) \<Rightarrow> Inl ''Not a directory (os error 20)''
      | None \<Rightarrow> Inl ''No such file or directory (os error 2)''),
      os_is_dir = (\<lambda>p. case os_node root p of Some t \<Rightarrow> is_dir_node t | None \<Rightarrow> False),
      os_is_file = (\<lambda>p. map_option (\<lambda>t. \<not> is_dir_node t) (os_node root p))\<rparr>"

lemma resolve_append:
  "resolve t ups (ss @ rs) =
     (case resolve t ups ss of None \<Rightarrow> None | Some (t', ups') \<Rightarrow> resolve t' ups' rs)"
  by (induction t ups ss rule: resolve.induct) (auto split: option.splits list.splits)

lemma resolve_names:
  "\<forall>n\<in>set ns. good_name n \<Longrightarrow> map_option fst (resolve t ups ns) = node_at t ns"
proof (induction t ns arbitrary: ups rule: node_at.induct)
  case (3 es n ns)
  then have "n \<noteq> ''..''" by auto
  with 3 show ?case by (auto split: option.splits)
qed simp_all

lemma resolve_well_named:
  "\<lbrakk>resolve t ups ss = Some (u, us); well_named t; \<forall>d\<in>set ups. well_named d\<rbrakk> \<Longrightarrow> well_named u"
proof (induction t ups ss rule: resolve.induct)
  case (3 es ups s ss)
  show ?case
  proof (cases "s = ''..''")
    case False
    with "3.prems"(1) obtain t where t: "map_of es s = Some t" "resolve t (Dir es # ups) ss = Some (u, us)"
      by (auto split: option.splits)
    then have "well_named t" using "3.prems"(2) by (auto dest: map_of_SomeD)
    with 3 t False show ?thesis by auto
  qed (use 3 in \<open>auto split: list.splits\<close>)
qed simp_all

lemma os_node_well_named: "\<lbrakk>os_node root p = Some t; well_named root\<rbrakk> \<Longrightarrow> well_named t"
  using resolve_well_named [of root "[]" "path_segs p"] by (auto simp: os_node_def)

lemma node_at_names:
  "\<lbrakk>node_at t ns = Some u; well_named t\<rbrakk> \<Longrightarrow> \<forall>n\<in>set ns. good_name n \<and> utf8_valid n"
  by (induction t ns rule: node_at.induct) (auto split: option.splits dest: map_of_SomeD)

text \<open>The path of an object in the operating system.\<close>

definition versioned :: "fs_backend \<Rightarrow> version_item \<Rightarrow> path \<Rightarrow> path" where
  "versioned b version path = path_join (path_join (base_path b) (v_id version)) (rel_part path)"

lemma get_versioned_path_eq:
  "get_versioned_path b version path =
     (if utf8_valid (v_id version) then Ok (versioned b version path)
      else Err (Utf8Error (utf8_error_text (v_id version))))"
  by (simp add: get_versioned_path_def from_utf8_def Let_def path_strip_root versioned_def)
    (simp add: rel_part_def)

lemma path_segs_versioned:
  "path_segs (versioned b version path) = path_segs (path_join (base_path b) (v_id version)) @ path_segs path"
  by (simp add: versioned_def)

lemma utf8_valid_versioned:
  "\<lbrakk>utf8_valid (base_path b); utf8_valid (v_id version); utf8_valid path\<rbrakk>
    \<Longrightarrow> utf8_valid (versioned b version path)"
  by (simp add: versioned_def utf8_valid_path_join utf8_valid_rel_part)

text \<open>The directory a walk starts from; an empty file when there is none, or a name is not text.\<close>

definition fs_subtree :: "node \<Rightarrow> fs_backend \<Rightarrow> version_item \<Rightarrow> path \<Rightarrow> node" where
  "fs_subtree root b version path =
     (if well_named root \<and> utf8_valid (base_path b) \<and> utf8_valid (v_id version) \<and> utf8_valid path
      then (case os_node root (versioned b version path) of Some (Dir es) \<Rightarrow> Dir es | _ \<Rightarrow> File [])
      else File [])"

definition fs_item :: "fs_backend \<Rightarrow> version_item \<Rightarrow> path \<Rightarrow> string list \<Rightarrow> node \<Rightarrow> dir_item" where
  "fs_item b version path ns u =
     \<lparr>abs_path = foldl path_join path ns, is_dir = is_dir_node u,
      hash = (if ns = [] then []
              else path_join (versioned b version (foldl path_join path (butlast ns))) (last ns))\<rparr>"

lemma fs_item_sel [simp]:
  "abs_path (fs_item b version path ns u) = foldl path_join path ns"
  "is_dir (fs_item b version path ns u) = is_dir_node u"
  by (simp_all add: fs_item_def)

lemma os_node_below:
  assumes "os_node root p = Some t" and "\<forall>n\<in>set ns. good_name n"
    and "path_segs q = path_segs p @ ns"
  shows "os_node root q = node_at t ns"
proof -
  from assms(1) obtain ups where "resolve root [] (path_segs p) = Some (t, ups)"
    by (auto simp: os_node_def)
  then show ?thesis
    using resolve_names [OF assms(2), of t ups] by (simp add: os_node_def assms(3) resolve_append)
qed

lemma fs_subtree_dir:
  assumes "node_at (fs_subtree root b version path) ns = Some u" and "ns \<noteq> [] \<or> is_dir_node u"
  shows "well_named root \<and> utf8_valid (base_path b) \<and> utf8_valid (v_id version) \<and> utf8_valid path \<and>
    os_node root (versioned b version path) = Some (fs_subtree root b version path)"
  using assms by (cases ns) (auto simp: fs_subtree_def split: if_splits option.splits node.splits)

lemma fs_dir_items_tree:
  assumes "\<forall>(n, t)\<in>set es. good_name n \<and> utf8_valid n \<and> os_node root (path_join real n) = Some t"
    and "utf8_valid real"
  shows "fs_dir_items (tree_os root) path real (map (\<lambda>(n, t). Inr n) es) =
    Ok (map (\<lambda>(n, t). \<lparr>abs_path = path_join path n, is_dir = is_dir_node t, hash = path_join real n\<rparr>) es)"
  using assms(1)
proof (induction es)
  case (Cons e es)
  obtain n t where e: "e = (n, t)" by force
  with Cons show ?case
    by (simp add: Let_def path_file_name_join to_str_def utf8_valid_path_join assms(2))
      (simp add: tree_os_def)
qed simp

lemma fs_list_dir_tree:
  assumes "node_at (fs_subtree root b version path) ns = Some (Dir es)"
  shows "fs_list_dir (tree_os root) b version (foldl path_join path ns) =
    Ok (map (\<lambda>(n, u). fs_item b version path (ns @ [n]) u) es)"
proof -
  let ?t = "fs_subtree root b version path" and ?p = "foldl path_join path ns"
  let ?real = "versioned b version ?p"
  from fs_subtree_dir [OF assms] have ok: "well_named root" "utf8_valid (base_path b)"
    "utf8_valid (v_id version)" "utf8_valid path" "os_node root (versioned b version path) = Some ?t"
    by auto
  have wt: "well_named ?t"
    using ok(1,5) os_node_well_named by blast
  note names = node_at_names [OF assms wt]
  have below: "os_node root q = node_at ?t ms"
    if "path_segs q = path_segs (versioned b version path) @ ms" "\<forall>n\<in>set ms. good_name n" for q ms
    using os_node_below [OF ok(5) that(2,1)] .
  have real: "os_node root ?real = Some (Dir es)"
    using below [of ?real ns] names assms by (simp add: path_segs_versioned path_segs_foldl)
  have valid: "utf8_valid ?real"
    using ok names by (simp add: utf8_valid_versioned utf8_valid_foldl)
  have "good_name n \<and> utf8_valid n \<and> os_node root (path_join ?real n) = Some u" if "(n, u) \<in> set es" for n u
  proof -
    from well_named_at [OF wt assms] that have n: "good_name n" "utf8_valid n" "map_of es n = Some u"
      by auto
    with below [of "path_join ?real n" "ns @ [n]"] names node_at_snoc [OF assms, of n] show ?thesis
      by (simp add: path_segs_versioned path_segs_foldl path_segs_good)
  qed
  then have "fs_dir_items (tree_os root) ?p ?real (map (\<lambda>(n, t). Inr n) es) =
    Ok (map (\<lambda>(n, t). \<lparr>abs_path = path_join ?p n, is_dir = is_dir_node t, hash = path_join ?real n\<rparr>) es)"
    by (intro fs_dir_items_tree valid) auto
  then show ?thesis
    using ok(3) real
    by (simp add: fs_list_dir_def get_versioned_path_eq fs_item_def case_prod_unfold)
      (simp add: tree_os_def case_prod_unfold)
qed

interpretation fs_walk: tree_listing "fs_list_dir (tree_os root) b version" "fs_item b version path"
    "fs_subtree root b version path" for root b version path
proof unfold_locales
  show "well_named (fs_subtree root b version path)"
    by (auto simp: fs_subtree_def dest: os_node_well_named split: option.splits node.splits
        simp del: well_named.simps(2))
qed (simp_all add: fs_list_dir_tree)

text \<open>The walk of the filesystem backend on a tree.\<close>

lemma fs_walk_dir:
  assumes "steady cb" and "is_dir_node (fs_subtree root b version path)"
  shows "walk_dir (fs_storage (tree_os root) nt b) version path cb c =
    visit cb (map (\<lambda>(ms, v). fs_item b version path ms v) (entries [] (fs_subtree root b version path))) c"
  using fs_walk.walk_visits [OF assms, of "fs_list_dir (tree_os root) b"]
  by (simp add: fs_storage_def)

text \<open>The object behind an entry.\<close>

lemma fs_get_obj_entry:
  assumes "node_at (fs_subtree root b version path) ns = Some (File raw)" and "ns \<noteq> []"
  shows "fs_get_obj_by_hash (tree_os root) (hash (fs_item b version path ns u)) = Ok raw"
proof -
  let ?t = "fs_subtree root b version path"
  from fs_subtree_dir [OF assms(1)] assms(2) have ok: "well_named root" "utf8_valid (base_path b)"
    "utf8_valid (v_id version)" "utf8_valid path" "os_node root (versioned b version path) = Some ?t"
    by auto
  note names = node_at_names [OF assms(1) fs_walk.named]
  obtain ms n where ns: "ns = ms @ [n]" using assms(2) by (cases ns rule: rev_cases) auto
  let ?q = "path_join (versioned b version (foldl path_join path ms)) n"
  have "os_node root ?q = Some (File raw)"
    using os_node_below [OF ok(5), of ns ?q] names assms(1) ns
    by (simp add: path_segs_versioned path_segs_foldl path_segs_good)
  moreover have "utf8_valid ?q"
    using ok names ns by (simp add: utf8_valid_path_join utf8_valid_versioned utf8_valid_foldl)
  ultimately show ?thesis
    by (simp add: fs_get_obj_by_hash_def fs_item_def ns from_utf8_def tree_os_def)
qed

declare os_node_def [path_eval] versioned_def [path_eval] fs_subtree_def [path_eval] fs_new_def [path_eval]

end
