(* ===== verification/Rule_Engine.thy ===== *)
theory Rule_Engine
  imports Prelude
begin

text \<open>
  \<open>src/rule_engine/mod.rs\<close>: conditions (constructors prefixed with C) over the tags of a client and their evaluation.
  \<open>cond_eval\<close> is \<open>Condition::eval\<close> with its short-circuit loops and the panic of its unary
  branch; \<open>holds\<close> is the Boolean meaning it implements on the conditions the parser builds
  (\<open>binary_only\<close>).
\<close>

datatype leaf_operator = OpEq

datatype rvalue = Str string

datatype condition =
    CAnd "condition list"
  | COr "condition list"
  | CNot condition
  | CLeaf string leaf_operator "rvalue option"

type_synonym match_context = "(string, rvalue) hash_map"

text \<open>\<open>Condition::eval_leaf\<close>: an absent tag is false; a leaf without right-hand side panics.\<close>

definition eval_leaf :: "match_context \<Rightarrow> string \<Rightarrow> leaf_operator \<Rightarrow> rvalue option \<Rightarrow> (bool, 'e) res" where
  "eval_leaf ctx l op r =
     (case ctx l of
        None \<Rightarrow> Ok False
      | Some lhs_value \<Rightarrow>
          (case r of
             Some rhs_value \<Rightarrow>
               (case op of OpEq \<Rightarrow>
                  (case (lhs_value, rhs_value) of (Str lv, Str rv) \<Rightarrow> Ok (lv = rv)))
           | None \<Rightarrow> Panic))"

fun cond_eval :: "match_context \<Rightarrow> condition \<Rightarrow> (bool, 'e) res"
  and eval_and :: "match_context \<Rightarrow> condition list \<Rightarrow> (bool, 'e) res"
  and eval_or :: "match_context \<Rightarrow> condition list \<Rightarrow> (bool, 'e) res"
where
  "cond_eval ctx (CAnd conds) = eval_and ctx conds"
| "cond_eval ctx (COr conds) = eval_or ctx conds"
| "cond_eval ctx (CNot c) = and_then (cond_eval ctx c) (\<lambda>b. Ok (\<not> b))"
| "cond_eval ctx (CLeaf l op r) = eval_leaf ctx l op r"
| "eval_and ctx [] = Ok True"
| "eval_and ctx (c # cs) = and_then (cond_eval ctx c) (\<lambda>b. if b then eval_and ctx cs else Ok False)"
| "eval_or ctx [] = Ok False"
| "eval_or ctx (c # cs) = and_then (cond_eval ctx c) (\<lambda>b. if b then Ok True else eval_or ctx cs)"

section \<open>Meaning of a condition\<close>

fun holds :: "match_context \<Rightarrow> condition \<Rightarrow> bool" where
  "holds ctx (CAnd cs) \<longleftrightarrow> (\<forall>c\<in>set cs. holds ctx c)"
| "holds ctx (COr cs) \<longleftrightarrow> (\<exists>c\<in>set cs. holds ctx c)"
| "holds ctx (CNot c) \<longleftrightarrow> \<not> holds ctx c"
| "holds ctx (CLeaf l op r) \<longleftrightarrow> r \<noteq> None \<and> ctx l = r"

fun binary_only :: "condition \<Rightarrow> bool" where
  "binary_only (CAnd cs) \<longleftrightarrow> list_all binary_only cs"
| "binary_only (COr cs) \<longleftrightarrow> list_all binary_only cs"
| "binary_only (CNot c) \<longleftrightarrow> binary_only c"
| "binary_only (CLeaf l op r) \<longleftrightarrow> r \<noteq> None"

lemma eval_leaf_holds:
  "r \<noteq> None \<Longrightarrow> eval_leaf ctx l op r = Ok (ctx l = r)"
  by (cases op) (auto simp: eval_leaf_def split: option.splits rvalue.splits)

lemma eval_leaf_total: "eval_leaf ctx l op r \<noteq> Err e" "eval_leaf ctx l op r \<noteq> Hang"
  by (auto simp: eval_leaf_def split: option.splits leaf_operator.splits rvalue.splits)

lemma cond_eval_binary:
  shows "binary_only c \<Longrightarrow> (cond_eval ctx c :: (bool, 'e) res) = Ok (holds ctx c)"
    "list_all binary_only cs \<Longrightarrow>
      (eval_and ctx cs :: (bool, 'e) res) = Ok (\<forall>c\<in>set cs. holds ctx c)"
    "list_all binary_only cs \<Longrightarrow>
      (eval_or ctx cs :: (bool, 'e) res) = Ok (\<exists>c\<in>set cs. holds ctx c)"
proof (induction ctx c and ctx cs and ctx cs rule: cond_eval_eval_and_eval_or.induct)
  case (6 ctx c cs)
  then show ?case by (cases "holds ctx c") simp_all
next
  case (8 ctx c cs)
  then show ?case by (cases "holds ctx c") simp_all
qed (simp_all add: eval_leaf_holds)

lemma cond_eval_total:
  fixes e :: 'e
  shows "cond_eval ctx c \<noteq> Err e \<and> (cond_eval ctx c :: (bool, 'e) res) \<noteq> Hang"
    "eval_and ctx cs \<noteq> Err e \<and> (eval_and ctx cs :: (bool, 'e) res) \<noteq> Hang"
    "eval_or ctx cs \<noteq> Err e \<and> (eval_or ctx cs :: (bool, 'e) res) \<noteq> Hang"
proof (induction ctx c and ctx cs and ctx cs rule: cond_eval_eval_and_eval_or.induct)
qed (simp_all add: eval_leaf_total and_then_Err_iff and_then_Hang_iff)

end
