(* ===== verification/Nom_Interface.thy ===== *)
theory Nom_Interface
  imports Rule_Engine Rust_Str "HOL-Library.Sublist"
begin

text \<open>
  The interface of the parser-combinator crate \<open>nom\<close> (6.2, not part of the repository) that
  \<open>src/parser/rule.rs\<close> calls. The record \<open>nom\<close> has one field per combinator, one per type where
  the code uses a generic combinator at several types. The locale \<open>nom\<close> states the documented
  behaviour of each; \<open>nom_ref\<close> is an instance of it. Parsers work on bytes; every character
  class the code uses accepts ASCII characters only or rejects ASCII characters only, so bytes
  and characters agree.
\<close>

section \<open>Results\<close>

text \<open>
  \<open>IResult\<close>: the rest of the input and a value, a recoverable \<open>Err::Error\<close> or an \<open>Err::Failure\<close>
  (the code uses complete parsers only, which never ask for more input). \<open>PAbort\<close> is a call
  that does not return: it panics, loops, or exhausts the stack.
\<close>

datatype ('a, 'e) pres = POk string 'a | PError 'e | PFailure 'e | PAbort

type_synonym ('a, 'e) parser = "string \<Rightarrow> ('a, 'e) pres"

text \<open>The \<open>?\<close> operator on \<open>IResult\<close>.\<close>

fun pbind :: "('a, 'e) pres \<Rightarrow> (string \<Rightarrow> 'a \<Rightarrow> ('b, 'e) pres) \<Rightarrow> ('b, 'e) pres" where
  "pbind (POk i x) f = f i x"
| "pbind (PError e) f = PError e"
| "pbind (PFailure e) f = PFailure e"
| "pbind PAbort f = PAbort"

lemma pbind_POk_iff: "pbind r f = POk j y \<longleftrightarrow> (\<exists>i x. r = POk i x \<and> f i x = POk j y)"
  by (cases r) auto

datatype error_kind =
  KTag | KAlpha | KAlphaNumeric | KTakeTill1 | KTakeWhileMN | KEscaped | KAlt | KMany0 | KMapRes

section \<open>The combinators the code calls\<close>

text \<open>How the error type builds its values (the \<open>ParseError\<close> family of traits) and prints.\<close>

record 'e nom_error =
  mk_error :: "string \<Rightarrow> error_kind \<Rightarrow> 'e"
  append_error :: "string \<Rightarrow> error_kind \<Rightarrow> 'e \<Rightarrow> 'e"
  or_error :: "'e \<Rightarrow> 'e \<Rightarrow> 'e"
  ctx_error :: "string \<Rightarrow> string \<Rightarrow> 'e \<Rightarrow> 'e"
  ext_error :: "string \<Rightarrow> error_kind \<Rightarrow> string \<Rightarrow> 'e"
  err_to_string :: "(unit, 'e) pres \<Rightarrow> string"

record 'e nom = "'e nom_error" +
  tag :: "string \<Rightarrow> (string, 'e) parser"
  alpha1 :: "(string, 'e) parser"
  alphanumeric1 :: "(string, 'e) parser"
  multispace0 :: "(string, 'e) parser"
  take_till1 :: "(char \<Rightarrow> bool) \<Rightarrow> (string, 'e) parser"
  take_while_m_n :: "nat \<Rightarrow> nat \<Rightarrow> (char \<Rightarrow> bool) \<Rightarrow> (string, 'e) parser"
  escaped :: "(string, 'e) parser \<Rightarrow> char \<Rightarrow> (string, 'e) parser \<Rightarrow> (string, 'e) parser"
  recognize :: "(string \<times> string list, 'e) parser \<Rightarrow> (string, 'e) parser"
  peek :: "(string, 'e) parser \<Rightarrow> (string, 'e) parser"
  in_context :: "string \<Rightarrow> (string, 'e) parser \<Rightarrow> (string, 'e) parser"
  alt_str :: "(string, 'e) parser list \<Rightarrow> (string, 'e) parser"
  alt_cond :: "(condition, 'e) parser list \<Rightarrow> (condition, 'e) parser"
  many0_str :: "(string, 'e) parser \<Rightarrow> (string list, 'e) parser"
  many0_cond :: "(condition, 'e) parser \<Rightarrow> (condition list, 'e) parser"
  pair_str :: "(string, 'e) parser \<Rightarrow> (string list, 'e) parser \<Rightarrow> (string \<times> string list, 'e) parser"
  pair_cond :: "(string, 'e) parser \<Rightarrow> (condition, 'e) parser \<Rightarrow> (string \<times> condition, 'e) parser"
  map_cond :: "(string \<times> condition, 'e) parser \<Rightarrow> (string \<times> condition \<Rightarrow> condition)
    \<Rightarrow> (condition, 'e) parser"
  map_res :: "(string, 'e) parser \<Rightarrow> (string \<Rightarrow> string + rvalue) \<Rightarrow> (rvalue, 'e) parser"
  delimited_str :: "(string, 'e) parser \<Rightarrow> (string, 'e) parser \<Rightarrow> (string, 'e) parser \<Rightarrow> (string, 'e) parser"
  delimited_op :: "(string, 'e) parser \<Rightarrow> (leaf_operator, 'e) parser \<Rightarrow> (string, 'e) parser
    \<Rightarrow> (leaf_operator, 'e) parser"
  delimited_value :: "(string, 'e) parser \<Rightarrow> (rvalue, 'e) parser \<Rightarrow> (string, 'e) parser
    \<Rightarrow> (rvalue, 'e) parser"
  delimited_cond :: "(string, 'e) parser \<Rightarrow> (condition, 'e) parser \<Rightarrow> (string, 'e) parser
    \<Rightarrow> (condition, 'e) parser"
  preceded_str :: "(string, 'e) parser \<Rightarrow> (string, 'e) parser \<Rightarrow> (string, 'e) parser"
  preceded_cond :: "(string, 'e) parser \<Rightarrow> (condition, 'e) parser \<Rightarrow> (condition, 'e) parser"
  tuple_leaf :: "(string, 'e) parser \<Rightarrow> (leaf_operator, 'e) parser \<Rightarrow> (rvalue, 'e) parser
    \<Rightarrow> (string \<times> leaf_operator \<times> rvalue, 'e) parser"
  tuple_chain :: "(condition, 'e) parser \<Rightarrow> (condition list, 'e) parser
    \<Rightarrow> (condition \<times> condition list, 'e) parser"

section \<open>Documented behaviour\<close>

definition is_alpha :: "char \<Rightarrow> bool" where
  "is_alpha c \<longleftrightarrow> (65 \<le> byte c \<and> byte c \<le> 90) \<or> (97 \<le> byte c \<and> byte c \<le> 122)"

definition is_digit :: "char \<Rightarrow> bool" where
  "is_digit c \<longleftrightarrow> 48 \<le> byte c \<and> byte c \<le> 57"

definition is_space :: "char \<Rightarrow> bool" where
  "is_space c \<longleftrightarrow> byte c = 32 \<or> byte c = 9 \<or> byte c = 13 \<or> byte c = 10"

text \<open>At least one byte of a class, as many as possible.\<close>

definition take1_run :: "'e nom_error \<Rightarrow> error_kind \<Rightarrow> (char \<Rightarrow> bool) \<Rightarrow> (string, 'e) parser" where
  "take1_run E k P i =
     (if takeWhile P i = [] then PError (mk_error E i k) else POk (dropWhile P i) (takeWhile P i))"

lemma take1_run_simps [simp]:
  "take1_run E k P [] = PError (mk_error E [] k)"
  "P c \<Longrightarrow> take1_run E k P (c # s) = POk (dropWhile P s) (c # takeWhile P s)"
  "\<not> P c \<Longrightarrow> take1_run E k P (c # s) = PError (mk_error E (c # s) k)"
  by (simp_all add: take1_run_def)

definition tag_run :: "'e nom_error \<Rightarrow> string \<Rightarrow> (string, 'e) parser" where
  "tag_run E t i = (case str_strip_prefix t i of
     Some r \<Rightarrow> POk r t | None \<Rightarrow> PError (mk_error E i KTag))"

lemma tag_run_simps [simp]:
  "tag_run E [] i = POk i []"
  "tag_run E [c] [] = PError (mk_error E [] KTag)"
  "tag_run E [c] (d # s) = (if c = d then POk s [c] else PError (mk_error E (d # s) KTag))"
  by (simp_all add: tag_run_def)

lemma tag_run_POk_iff: "tag_run E t i = POk r s \<longleftrightarrow> i = t @ r \<and> s = t"
  by (auto simp: tag_run_def str_strip_prefix_Some_iff split: option.splits)

lemma tag_run_cases: "(\<exists>r. i = t @ r \<and> tag_run E t i = POk r t) \<or> (\<exists>e. tag_run E t i = PError e)"
  by (cases "str_strip_prefix t i") (auto simp: tag_run_def str_strip_prefix_Some_iff)

definition take_m_n_run :: "'e nom_error \<Rightarrow> nat \<Rightarrow> nat \<Rightarrow> (char \<Rightarrow> bool) \<Rightarrow> (string, 'e) parser" where
  "take_m_n_run E m n P i =
     (let k = min n (length (takeWhile P i)) in
      if m \<le> k then POk (drop k i) (take k i) else PError (mk_error E i KTakeWhileMN))"

text \<open>Alternatives in order; only a recoverable error moves on to the next.\<close>

fun alt_from :: "'e nom_error \<Rightarrow> 'e \<Rightarrow> ('a, 'e) parser list \<Rightarrow> ('a, 'e) parser" where
  "alt_from E e [] i = PError (append_error E i KAlt e)"
| "alt_from E e (p # ps) i =
     (case p i of PError e' \<Rightarrow> alt_from E (or_error E e e') ps i | r \<Rightarrow> r)"

fun alt_run :: "'e nom_error \<Rightarrow> ('a, 'e) parser list \<Rightarrow> ('a, 'e) parser" where
  "alt_run E [] i = PError (mk_error E i KAlt)"
| "alt_run E (p # ps) i = (case p i of PError e \<Rightarrow> alt_from E e ps i | r \<Rightarrow> r)"

lemma alt_run_first [simp]: "p i = POk j x \<Longrightarrow> alt_run E (p # ps) i = POk j x"
  by simp

lemma alt_run_next [simp]: "p i = PError e \<Longrightarrow> alt_run E (p # ps) i = alt_from E e ps i"
  by simp

lemma alt_from_first [simp]: "p i = POk j x \<Longrightarrow> alt_from E e (p # ps) i = POk j x"
  by simp

lemma alt_from_next [simp]:
  "p i = PError e' \<Longrightarrow> alt_from E e (p # ps) i = alt_from E (or_error E e e') ps i"
  by simp

declare alt_run.simps(2) [simp del] alt_from.simps(2) [simp del]

text \<open>Repetition until a recoverable error; an element that consumes nothing is an error.\<close>

function many0_run :: "'e nom_error \<Rightarrow> ('a, 'e) parser \<Rightarrow> ('a list, 'e) parser" where
  "many0_run E p i =
     (case p i of
        POk j x \<Rightarrow>
          (if length j < length i
           then pbind (many0_run E p j) (\<lambda>k xs. POk k (x # xs))
           else PError (mk_error E i KMany0))
      | PError e \<Rightarrow> POk i []
      | PFailure e \<Rightarrow> PFailure e
      | PAbort \<Rightarrow> PAbort)"
  by pat_completeness auto
termination
  by (relation "measure (\<lambda>(E, p, i). length i)") auto

declare many0_run.simps [simp del]

text \<open>
  \<open>escaped\<close>: runs of normal characters and control characters followed by an escapable one, as
  far as they go, at least one; \<open>i0\<close> is the input, \<open>i\<close> what is left of it. A control character at
  the end, or one whose continuation is not escapable, is an error.
\<close>

function escaped_run :: "'e nom_error \<Rightarrow> (string, 'e) parser \<Rightarrow> char \<Rightarrow> (string, 'e) parser
    \<Rightarrow> string \<Rightarrow> (string, 'e) parser" where
  "escaped_run E nrm c esc i0 i =
     (case i of
        [] \<Rightarrow> if i0 = [] then PError (mk_error E i0 KEscaped) else POk [] i0
      | d # ds \<Rightarrow>
          (case nrm i of
             POk j _ \<Rightarrow> if length j < length i then escaped_run E nrm c esc i0 j else PAbort
           | PError _ \<Rightarrow>
               (if d = c then
                  (if ds = [] then PError (mk_error E i0 KEscaped)
                   else (case esc ds of
                           POk j _ \<Rightarrow> if length j < length i then escaped_run E nrm c esc i0 j else PAbort
                         | PError e \<Rightarrow> PError e
                         | PFailure e \<Rightarrow> PFailure e
                         | PAbort \<Rightarrow> PAbort))
                else if length i = length i0 then PError (mk_error E i0 KEscaped)
                else POk i (take (length i0 - length i) i0))
           | PFailure e \<Rightarrow> PFailure e
           | PAbort \<Rightarrow> PAbort))"
  by pat_completeness auto
termination
  by (relation "measure (\<lambda>(E, nrm, c, esc, i0, i). length i)") auto

declare escaped_run.simps [simp del]

lemma escaped_run_normal:
  "\<lbrakk>nrm (d # ds) = POk j x; length j \<le> length ds\<rbrakk>
    \<Longrightarrow> escaped_run E nrm c esc i0 (d # ds) = escaped_run E nrm c esc i0 j"
  by (simp add: escaped_run.simps [of _ _ _ _ _ "d # ds"])

lemma escaped_run_escape:
  "\<lbrakk>nrm (c # ds) = PError e; ds \<noteq> []; esc ds = POk j x; length j \<le> length ds\<rbrakk>
    \<Longrightarrow> escaped_run E nrm c esc i0 (c # ds) = escaped_run E nrm c esc i0 j"
  by (simp add: escaped_run.simps [of _ _ _ _ _ "c # ds"])

definition recognize_run :: "('b, 'e) parser \<Rightarrow> (string, 'e) parser" where
  "recognize_run p i = pbind (p i) (\<lambda>j _. POk j (take (length i - length j) i))"

definition context_run :: "'e nom_error \<Rightarrow> string \<Rightarrow> ('a, 'e) parser \<Rightarrow> ('a, 'e) parser" where
  "context_run E s p i = (case p i of
     PError e \<Rightarrow> PError (ctx_error E i s e) | PFailure e \<Rightarrow> PFailure (ctx_error E i s e) | r \<Rightarrow> r)"

definition pair_run :: "('a, 'e) parser \<Rightarrow> ('b, 'e) parser \<Rightarrow> ('a \<times> 'b, 'e) parser" where
  "pair_run p q i = pbind (p i) (\<lambda>j x. pbind (q j) (\<lambda>k y. POk k (x, y)))"

definition delimited_run ::
    "('a, 'e) parser \<Rightarrow> ('b, 'e) parser \<Rightarrow> ('c, 'e) parser \<Rightarrow> ('b, 'e) parser" where
  "delimited_run p q r i =
     pbind (p i) (\<lambda>j _. pbind (q j) (\<lambda>k y. pbind (r k) (\<lambda>l _. POk l y)))"

definition preceded_run :: "('a, 'e) parser \<Rightarrow> ('b, 'e) parser \<Rightarrow> ('b, 'e) parser" where
  "preceded_run p q i = pbind (p i) (\<lambda>j _. q j)"

definition map_res_run :: "'e nom_error \<Rightarrow> ('a, 'e) parser \<Rightarrow> ('a \<Rightarrow> string + 'b) \<Rightarrow> ('b, 'e) parser" where
  "map_res_run E p f i = pbind (p i) (\<lambda>j x.
     case f x of Inr y \<Rightarrow> POk j y | Inl e \<Rightarrow> PError (ext_error E i KMapRes e))"

locale nom =
  fixes N :: "'e nom"
  assumes tag_law [simp]: "tag N = tag_run (nom_error.truncate N)"
    and alpha1_law [simp]: "alpha1 N = take1_run (nom_error.truncate N) KAlpha is_alpha"
    and alphanumeric1_law [simp]: "alphanumeric1 N =
      take1_run (nom_error.truncate N) KAlphaNumeric (\<lambda>c. is_alpha c \<or> is_digit c)"
    and multispace0_law [simp]:
      "multispace0 N = (\<lambda>i. POk (dropWhile is_space i) (takeWhile is_space i))"
    and take_till1_law [simp]:
      "take_till1 N P = take1_run (nom_error.truncate N) KTakeTill1 (\<lambda>c. \<not> P c)"
    and take_while_m_n_law [simp]: "take_while_m_n N = take_m_n_run (nom_error.truncate N)"
    and escaped_law [simp]:
      "escaped N nrm c esc = (\<lambda>i. escaped_run (nom_error.truncate N) nrm c esc i i)"
    and recognize_law [simp]: "recognize N = recognize_run"
    and peek_law [simp]: "peek N p = (\<lambda>i. pbind (p i) (\<lambda>j x. POk i x))"
    and context_law [simp]: "in_context N = context_run (nom_error.truncate N)"
    and alt_str_law [simp]: "alt_str N = alt_run (nom_error.truncate N)"
    and alt_cond_law [simp]: "alt_cond N = alt_run (nom_error.truncate N)"
    and many0_str_law [simp]: "many0_str N = many0_run (nom_error.truncate N)"
    and many0_cond_law [simp]: "many0_cond N = many0_run (nom_error.truncate N)"
    and pair_str_law [simp]: "pair_str N = pair_run"
    and pair_cond_law [simp]: "pair_cond N = pair_run"
    and map_cond_law [simp]: "map_cond N q f = (\<lambda>i. pbind (q i) (\<lambda>j x. POk j (f x)))"
    and map_res_law [simp]: "map_res N = map_res_run (nom_error.truncate N)"
    and delimited_str_law [simp]: "delimited_str N = delimited_run"
    and delimited_op_law [simp]: "delimited_op N = delimited_run"
    and delimited_value_law [simp]: "delimited_value N = delimited_run"
    and delimited_cond_law [simp]: "delimited_cond N = delimited_run"
    and preceded_str_law [simp]: "preceded_str N = preceded_run"
    and preceded_cond_law [simp]: "preceded_cond N = preceded_run"
    and tuple_leaf_law [simp]: "tuple_leaf N p r s = (\<lambda>i.
      pbind (p i) (\<lambda>j x. pbind (r j) (\<lambda>k y. pbind (s k) (\<lambda>l z. POk l (x, y, z)))))"
    and tuple_chain_law [simp]: "tuple_chain N = pair_run"

section \<open>An instance\<close>

text \<open>The default error type of \<open>nom\<close>: the input at the error and its kind.\<close>

definition kind_text :: "error_kind \<Rightarrow> string" where
  "kind_text k = (case k of KTag \<Rightarrow> ''Tag'' | KAlpha \<Rightarrow> ''Alpha'' | KAlphaNumeric \<Rightarrow> ''AlphaNumeric''
     | KTakeTill1 \<Rightarrow> ''TakeTill1'' | KTakeWhileMN \<Rightarrow> ''TakeWhileMN'' | KEscaped \<Rightarrow> ''Escaped''
     | KAlt \<Rightarrow> ''Alt'' | KMany0 \<Rightarrow> ''Many0'' | KMapRes \<Rightarrow> ''MapRes'')"

definition input_error :: "(string \<times> error_kind) nom_error" where
  "input_error = \<lparr>mk_error = (\<lambda>i k. (i, k)), append_error = (\<lambda>i k e. e),
     or_error = (\<lambda>a b. b), ctx_error = (\<lambda>i s e. e), ext_error = (\<lambda>i k e. (i, k)),
     err_to_string = (\<lambda>r. case r of PError (i, k) \<Rightarrow> kind_text k | _ \<Rightarrow> [])\<rparr>"

definition nom_ref :: "(string \<times> error_kind) nom" where
  "nom_ref = nom_error.extend input_error (nom.fields
     (tag_run input_error)
     (take1_run input_error KAlpha is_alpha)
     (take1_run input_error KAlphaNumeric (\<lambda>c. is_alpha c \<or> is_digit c))
     (\<lambda>i. POk (dropWhile is_space i) (takeWhile is_space i))
     (\<lambda>P. take1_run input_error KTakeTill1 (\<lambda>c. \<not> P c))
     (take_m_n_run input_error)
     (\<lambda>nrm c esc i. escaped_run input_error nrm c esc i i)
     recognize_run
     (\<lambda>p i. pbind (p i) (\<lambda>j x. POk i x))
     (context_run input_error)
     (alt_run input_error) (alt_run input_error)
     (many0_run input_error) (many0_run input_error)
     pair_run pair_run
     (\<lambda>p f i. pbind (p i) (\<lambda>j x. POk j (f x)))
     (map_res_run input_error)
     delimited_run delimited_run delimited_run delimited_run
     preceded_run preceded_run
     (\<lambda>p q r i. pbind (p i) (\<lambda>j x. pbind (q j) (\<lambda>k y. pbind (r k) (\<lambda>l z. POk l (x, y, z)))))
     pair_run)"

lemma nom_ref_error [simp]: "nom_error.truncate nom_ref = input_error"
  by (simp add: nom_ref_def nom_error.defs nom.defs input_error_def)

interpretation ref_nom: nom nom_ref
  by unfold_locales (simp_all, simp_all add: nom_ref_def nom_error.defs nom.defs)

end
