(* ===== verification/Rule_Parser.thy ===== *)
theory Rule_Parser
  imports Nom_Interface
begin

text \<open>
  \<open>src/parser/rule.rs\<close>: the parser of rule expressions, written with the combinators \<open>N\<close> of
  \<open>nom\<close> and the function \<open>un\<close> of the crate \<open>unescape\<close>. The recursion through parentheses
  (\<open>leaf_expr_or_paren\<close> calls \<open>expr_no_paren\<close>) is cut by a depth: \<open>expr_no_paren\<close> aborts when the
  depth is used up, and \<open>do_parse\<close> starts with the length of the input, which
  \<open>expr_depth_enough\<close> shows to be enough for every input.
\<close>

definition leaf_binary_op :: "'e nom \<Rightarrow> (leaf_operator, 'e) parser" where
  "leaf_binary_op N i =
     pbind (tag N ''=='' i) (\<lambda>i op_str. if op_str = ''=='' then POk i OpEq else PAbort)"

definition identifier_str :: "'e nom \<Rightarrow> (string, 'e) parser" where
  "identifier_str N input =
     recognize N
       (pair_str N (alt_str N [alpha1 N, tag N ''_''])
                   (many0_str N (alt_str N [alphanumeric1 N, tag N ''_'']))) input"

text \<open>\<open>ws inner\<close>, for the instance \<open>d\<close> of \<open>delimited\<close> at the type of \<open>inner\<close>.\<close>

definition ws :: "'e nom \<Rightarrow> ((string, 'e) parser \<Rightarrow> ('a, 'e) parser \<Rightarrow> (string, 'e) parser \<Rightarrow> ('a, 'e) parser)
    \<Rightarrow> ('a, 'e) parser \<Rightarrow> ('a, 'e) parser" where
  "ws N d inner = d (multispace0 N) inner (multispace0 N)"

definition normal :: "'e nom \<Rightarrow> (string, 'e) parser" where
  "normal N i = take_till1 N (\<lambda>c. c = CHR 0x5C \<or> c = CHR 0x22 \<or> byte c < 32 \<or> byte c = 127) i"

definition is_hexdigit :: "char \<Rightarrow> bool" where
  "is_hexdigit c \<longleftrightarrow>
     (48 \<le> byte c \<and> byte c \<le> 57) \<or> (65 \<le> byte c \<and> byte c \<le> 70) \<or> (97 \<le> byte c \<and> byte c \<le> 102)"

definition parse_hex :: "'e nom \<Rightarrow> (string, 'e) parser" where
  "parse_hex N i =
     in_context N ''hex string''
       (preceded_str N (peek N (tag N ''u''))
          (take_while_m_n N 5 5 (\<lambda>c. is_hexdigit c \<or> c = CHR ''u''))) i"

definition escapable :: "'e nom \<Rightarrow> (string, 'e) parser" where
  "escapable N i =
     in_context N ''escaped''
       (alt_str N [tag N [CHR 0x22], tag N [CHR 0x5C], tag N ''/'', tag N ''b'', tag N ''f'',
                   tag N ''n'', tag N ''r'', tag N ''t'', parse_hex N]) i"

definition parse_str :: "'e nom \<Rightarrow> (string, 'e) parser" where
  "parse_str N i = escaped N (normal N) (CHR 0x5C) (escapable N) i"

definition string_literal :: "'e nom \<Rightarrow> (string, 'e) parser" where
  "string_literal N i =
     in_context N ''string''
       (alt_str N [tag N [CHR 0x22, CHR 0x22],
                   delimited_str N (tag N [CHR 0x22]) (parse_str N) (tag N [CHR 0x22])]) i"

definition unescape_str :: "(string \<Rightarrow> string option) \<Rightarrow> string \<Rightarrow> string + rvalue" where
  "unescape_str un i =
     (case un i of Some t \<Rightarrow> Inr (Str t) | None \<Rightarrow> Inl ''can not parse enscaped string'')"

definition rhs_literal :: "'e nom \<Rightarrow> (string \<Rightarrow> string option) \<Rightarrow> (rvalue, 'e) parser" where
  "rhs_literal N un i = map_res N (string_literal N) (unescape_str un) i"

definition leaf_expr :: "'e nom \<Rightarrow> (string \<Rightarrow> string option) \<Rightarrow> (condition, 'e) parser" where
  "leaf_expr N un i =
     pbind (tuple_leaf N (ws N (delimited_str N) (identifier_str N))
                         (ws N (delimited_op N) (leaf_binary_op N))
                         (ws N (delimited_value N) (rhs_literal N un)) i)
       (\<lambda>i (ident, oper, val). POk i (CLeaf ident oper (Some val)))"

text \<open>The next four take the parser for the expression inside parentheses as \<open>inner\<close>.\<close>

definition leaf_expr_or_paren :: "'e nom \<Rightarrow> (string \<Rightarrow> string option) \<Rightarrow> (condition, 'e) parser
    \<Rightarrow> (condition, 'e) parser" where
  "leaf_expr_or_paren N un inner i =
     alt_cond N
       [leaf_expr N un,
        delimited_cond N (ws N (delimited_str N) (tag N ''('')) inner
                         (ws N (delimited_str N) (tag N '')''))] i"

definition expr_not :: "'e nom \<Rightarrow> (string \<Rightarrow> string option) \<Rightarrow> (condition, 'e) parser
    \<Rightarrow> (condition, 'e) parser" where
  "expr_not N un inner i =
     alt_cond N
       [map_cond N (pair_cond N (tag N ''!'') (leaf_expr_or_paren N un inner)) (\<lambda>(_, c). CNot c),
        leaf_expr_or_paren N un inner] i"

definition expr_and :: "'e nom \<Rightarrow> (string \<Rightarrow> string option) \<Rightarrow> (condition, 'e) parser
    \<Rightarrow> (condition, 'e) parser" where
  "expr_and N un inner i =
     pbind (tuple_chain N
              (ws N (delimited_cond N) (expr_not N un inner))
              (many0_cond N (preceded_cond N (ws N (delimited_str N) (tag N ''&&''))
                                             (ws N (delimited_cond N) (expr_not N un inner)))) i)
       (\<lambda>i (first, more).
          if length more = 0 then POk i first else POk i (CAnd (first # more)))"

definition expr_or :: "'e nom \<Rightarrow> (string \<Rightarrow> string option) \<Rightarrow> (condition, 'e) parser
    \<Rightarrow> (condition, 'e) parser" where
  "expr_or N un inner i =
     pbind (tuple_chain N
              (ws N (delimited_cond N) (expr_and N un inner))
              (many0_cond N (preceded_cond N (ws N (delimited_str N) (tag N ''||''))
                                             (ws N (delimited_cond N) (expr_and N un inner)))) i)
       (\<lambda>i (first, more).
          if length more = 0 then POk i first else POk i (COr (first # more)))"

fun expr_no_paren :: "'e nom \<Rightarrow> (string \<Rightarrow> string option) \<Rightarrow> nat \<Rightarrow> (condition, 'e) parser" where
  "expr_no_paren N un 0 i = PAbort"
| "expr_no_paren N un (Suc n) i = expr_or N un (expr_no_paren N un n) i"

definition expr :: "'e nom \<Rightarrow> (string \<Rightarrow> string option) \<Rightarrow> nat \<Rightarrow> (condition, 'e) parser" where
  "expr N un n i = expr_or N un (expr_no_paren N un n) i"

definition do_parse :: "'e nom \<Rightarrow> (string \<Rightarrow> string option) \<Rightarrow> (condition, 'e) parser" where
  "do_parse N un i = expr N un (length i) i"

section \<open>The grammar\<close>

text \<open>
  The language of rules, without reference to parsing: every token is followed by optional
  blanks, \<open>!\<close> applies to a leaf or a parenthesis, \<open>&&\<close> binds tighter than \<open>||\<close>, and a chain of at
  least two operands is one node.
\<close>

definition spaces :: "string \<Rightarrow> bool" where
  "spaces w \<longleftrightarrow> (\<forall>c\<in>set w. is_space c)"

definition ident_start :: "char \<Rightarrow> bool" where
  "ident_start c \<longleftrightarrow> is_alpha c \<or> c = CHR ''_''"

definition ident_char :: "char \<Rightarrow> bool" where
  "ident_char c \<longleftrightarrow> is_alpha c \<or> is_digit c \<or> c = CHR ''_''"

definition is_ident :: "string \<Rightarrow> bool" where
  "is_ident s \<longleftrightarrow> (case s of [] \<Rightarrow> False | c # _ \<Rightarrow> ident_start c) \<and> (\<forall>c\<in>set s. ident_char c)"

definition lit_char :: "char \<Rightarrow> bool" where
  "lit_char c \<longleftrightarrow> \<not> (c = CHR 0x5C \<or> c = CHR 0x22 \<or> byte c < 32 \<or> byte c = 127)"

definition is_escape :: "string \<Rightarrow> bool" where
  "is_escape e \<longleftrightarrow>
     (\<exists>c\<in>{CHR 0x22, CHR 0x5C, CHR ''/'', CHR ''b'', CHR ''f'', CHR ''n'', CHR ''r'', CHR ''t''}. e = [c]) \<or>
     (length e = 5 \<and> hd e = CHR ''u'' \<and> (\<forall>c\<in>set e. is_hexdigit c \<or> c = CHR ''u''))"

inductive lit_text :: "string \<Rightarrow> bool" where
  lit_Nil: "lit_text []"
| lit_normal: "\<lbrakk>lit_char c; lit_text s\<rbrakk> \<Longrightarrow> lit_text (c # s)"
| lit_escape: "\<lbrakk>is_escape e; lit_text s\<rbrakk> \<Longrightarrow> lit_text (CHR 0x5C # e @ s)"

text \<open>A quoted literal and the text handed to \<open>unescape\<close>: of the empty literal, its two quotes.\<close>

inductive quoted :: "string \<Rightarrow> string \<Rightarrow> bool" where
  quoted_empty: "quoted [CHR 0x22, CHR 0x22] [CHR 0x22, CHR 0x22]"
| quoted_text: "\<lbrakk>lit_text s; s \<noteq> []\<rbrakk> \<Longrightarrow> quoted (CHR 0x22 # s @ [CHR 0x22]) s"

inductive g_leaf :: "(string \<Rightarrow> string option) \<Rightarrow> condition \<Rightarrow> string \<Rightarrow> bool" for un where
  leaf: "\<lbrakk>is_ident ident; spaces w1; spaces w2; quoted q raw; un raw = Some v; spaces w3\<rbrakk>
    \<Longrightarrow> g_leaf un (CLeaf ident OpEq (Some (Str v))) (ident @ w1 @ ''=='' @ w2 @ q @ w3)"

inductive g_unit :: "(string \<Rightarrow> string option) \<Rightarrow> condition \<Rightarrow> string \<Rightarrow> bool"
  and g_not :: "(string \<Rightarrow> string option) \<Rightarrow> condition \<Rightarrow> string \<Rightarrow> bool"
  and g_ands :: "(string \<Rightarrow> string option) \<Rightarrow> condition list \<Rightarrow> string \<Rightarrow> bool"
  and g_and :: "(string \<Rightarrow> string option) \<Rightarrow> condition \<Rightarrow> string \<Rightarrow> bool"
  and g_ors :: "(string \<Rightarrow> string option) \<Rightarrow> condition list \<Rightarrow> string \<Rightarrow> bool"
  and g_or :: "(string \<Rightarrow> string option) \<Rightarrow> condition \<Rightarrow> string \<Rightarrow> bool"
for un where
  unit_leaf: "g_leaf un c s \<Longrightarrow> g_unit un c s"
| unit_paren: "\<lbrakk>spaces w1; g_or un c s; spaces w2\<rbrakk>
    \<Longrightarrow> g_unit un c (CHR ''('' # w1 @ s @ CHR '')'' # w2)"
| not_unit: "g_unit un c s \<Longrightarrow> g_not un c s"
| not_not: "\<lbrakk>spaces w; g_unit un c s\<rbrakk> \<Longrightarrow> g_not un (CNot c) (CHR ''!'' # w @ s)"
| ands_Nil: "g_ands un [] []"
| ands_Cons: "\<lbrakk>spaces w; g_not un c s; g_ands un cs t\<rbrakk>
    \<Longrightarrow> g_ands un (c # cs) (CHR ''&'' # CHR ''&'' # w @ s @ t)"
| and_one: "g_not un c s \<Longrightarrow> g_and un c s"
| and_many: "\<lbrakk>g_not un c s; g_ands un cs t; cs \<noteq> []\<rbrakk> \<Longrightarrow> g_and un (CAnd (c # cs)) (s @ t)"
| ors_Nil: "g_ors un [] []"
| ors_Cons: "\<lbrakk>spaces w; g_and un c s; g_ors un cs t\<rbrakk>
    \<Longrightarrow> g_ors un (c # cs) (CHR ''|'' # CHR ''|'' # w @ s @ t)"
| or_one: "g_and un c s \<Longrightarrow> g_or un c s"
| or_many: "\<lbrakk>g_and un c s; g_ors un cs t; cs \<noteq> []\<rbrakk> \<Longrightarrow> g_or un (COr (c # cs)) (s @ t)"

inductive_cases g_ands_NilE: "g_ands un [] s"
inductive_cases g_ands_ConsE: "g_ands un (c # cs) s"
inductive_cases g_leafE: "g_leaf un c s"
inductive_cases quotedE: "quoted q raw"

end
