(* ===== verification/Rule_Parser_Correct.thy ===== *)
theory Rule_Parser_Correct
  imports Rule_Parser
begin

section \<open>Characters\<close>

lemma ident_start_char: "ident_start c \<Longrightarrow> ident_char c"
  by (auto simp: ident_start_def ident_char_def)

lemma ident_char_not_space: "ident_char c \<Longrightarrow> \<not> is_space c"
  by (auto simp: ident_char_def is_alpha_def is_digit_def is_space_def)

lemma ident_start_not_space: "ident_start c \<Longrightarrow> \<not> is_space c"
  using ident_start_char ident_char_not_space by blast

lemma spaces_simps [simp]: "spaces []" "spaces (c # w) \<longleftrightarrow> is_space c \<and> spaces w"
  "spaces (v @ w) \<longleftrightarrow> spaces v \<and> spaces w"
  by (auto simp: spaces_def)

lemma spaces_takeWhile [simp]: "spaces (takeWhile is_space i)"
  by (auto simp: spaces_def dest: set_takeWhileD)

definition no_space :: "string \<Rightarrow> bool" where
  "no_space r \<longleftrightarrow> (case r of [] \<Rightarrow> True | c # _ \<Rightarrow> \<not> is_space c)"

lemma no_space_simps [simp]: "no_space []" "no_space (c # r) \<longleftrightarrow> \<not> is_space c"
  by (auto simp: no_space_def)

lemma no_space_dropWhile [simp]: "no_space (dropWhile is_space i)"
  by (induction i) auto

lemma dropWhile_no_space: "no_space r \<Longrightarrow> dropWhile is_space r = r"
  by (cases r) auto

lemma drop_spaces [simp]: "spaces w \<Longrightarrow> dropWhile is_space (w @ r) = dropWhile is_space r"
  by (induction w) auto

lemma take_drop_spaces: "i = takeWhile is_space i @ dropWhile is_space i"
  by simp

lemma is_space_token [simp]:
  "\<not> is_space CHR ''(''" "\<not> is_space CHR '')''" "\<not> is_space CHR ''!''" "\<not> is_space CHR ''&''"
  "\<not> is_space CHR ''|''" "\<not> is_space CHR ''=''" "\<not> is_space CHR 0x22"
  by (simp_all add: is_space_def)

lemma ident_char_token [simp]:
  "\<not> ident_char CHR ''(''" "\<not> ident_char CHR '')''" "\<not> ident_char CHR ''!''"
  "\<not> ident_char CHR ''=''"
  by (simp_all add: ident_char_def is_alpha_def is_digit_def)

lemma ident_start_token [simp]: "\<not> ident_start CHR ''(''" "\<not> ident_start CHR ''!''"
  by (auto dest: ident_start_char)

lemma is_identE:
  assumes "is_ident s"
  obtains c t where "s = c # t" "ident_start c" "\<forall>d\<in>set t. ident_char d"
  using assms by (cases s) (auto simp: is_ident_def)

text \<open>What may follow a phrase: nothing, or one of the given characters.\<close>

definition stops :: "string \<Rightarrow> string \<Rightarrow> bool" where
  "stops cs r \<longleftrightarrow> (case r of [] \<Rightarrow> True | c # _ \<Rightarrow> c \<in> set cs)"

lemma stops_simps [simp]: "stops cs []" "stops cs (c # r) \<longleftrightarrow> c \<in> set cs"
  by (simp_all add: stops_def)

lemma stops_no_space: "stops '')|&'' r \<Longrightarrow> no_space r"
  by (cases r) auto

lemma stops_mono: "stops '')'' r \<Longrightarrow> stops '')|'' r" "stops '')|'' r \<Longrightarrow> stops '')|&'' r"
  by (cases r; auto)+

abbreviation opens :: "string \<Rightarrow> nat" where
  "opens s \<equiv> count_list s CHR ''(''"

section \<open>Chains of operands\<close>

text \<open>One link of a chain: the operator, blanks, an operand, blanks.\<close>

definition link_elem :: "'e nom_error \<Rightarrow> string \<Rightarrow> ('a, 'e) parser \<Rightarrow> ('a, 'e) parser" where
  "link_elem E tok p i =
     pbind (tag_run E tok (dropWhile is_space i))
       (\<lambda>j _. pbind (p (dropWhile is_space j)) (\<lambda>k x. POk (dropWhile is_space k) x))"

lemma dropWhile_space_idem [simp]: "dropWhile is_space (dropWhile is_space i) = dropWhile is_space i"
  by (simp add: dropWhile_no_space)

lemma many0_link_stop:
  assumes "stops cs r" "no_space r" "c \<notin> set cs"
  shows "many0_run E (link_elem E (c # tok) p) r = POk r []"
proof -
  have "\<exists>e. link_elem E (c # tok) p r = PError e"
    using assms by (cases r) (auto simp: link_elem_def tag_run_def)
  then show ?thesis by (auto simp: many0_run.simps [of _ _ r])
qed

lemma many0_and_stop: "stops '')|'' r \<Longrightarrow> many0_run E (link_elem E ''&&'' p) r = POk r []"
  by (rule many0_link_stop [where cs = "'')|''"]) (auto dest: stops_mono stops_no_space)

lemma many0_or_stop: "stops '')'' r \<Longrightarrow> many0_run E (link_elem E ''||'' p) r = POk r []"
  by (rule many0_link_stop [where cs = "'')''"]) (auto dest: stops_mono stops_no_space)

lemma many0_link_step:
  assumes "p (s @ t) = POk t x" and "no_space s" "s \<noteq> []" "no_space t" "spaces w" "\<not> is_space c"
  shows "many0_run E (link_elem E (c # tok) p) (c # tok @ w @ s @ t) =
    pbind (many0_run E (link_elem E (c # tok) p) t) (\<lambda>k xs. POk k (x # xs))"
proof -
  have "dropWhile is_space (s @ t) = s @ t" using assms(2,3) by (cases s) auto
  moreover have "str_strip_prefix (c # tok) (c # tok @ w @ s @ t) = Some (w @ s @ t)"
    using str_strip_prefix_append [of "c # tok"] by simp
  ultimately have "link_elem E (c # tok) p (c # tok @ w @ s @ t) = POk t x"
    using assms by (simp add: link_elem_def tag_run_def dropWhile_no_space)
  then show ?thesis by (simp add: many0_run.simps [of _ _ "c # tok @ w @ s @ t"])
qed

lemma link_elem_sound:
  assumes "link_elem E tok p i = POk r x" and "no_space i"
    and "\<And>i r x. p i = POk r x \<Longrightarrow> no_space i \<Longrightarrow> \<exists>s. i = s @ r \<and> G x s \<and> no_space r"
  shows "\<exists>w s. i = tok @ w @ s @ r \<and> spaces w \<and> G x s \<and> no_space r"
proof -
  from assms(1,2) obtain j k where j: "i = tok @ j" "p (dropWhile is_space j) = POk k x"
    and r: "r = dropWhile is_space k"
    by (auto simp: link_elem_def pbind_POk_iff tag_run_POk_iff dropWhile_no_space)
  from assms(3) [OF j(2)] obtain s where s: "dropWhile is_space j = s @ k" "G x s" "no_space k"
    by auto
  with r have "r = k" by (simp add: dropWhile_no_space)
  with s j have "i = tok @ takeWhile is_space j @ s @ r"
    by (metis takeWhile_dropWhile_id)
  with s r show ?thesis by (metis spaces_takeWhile no_space_dropWhile)
qed

lemma many0_link_sound:
  assumes "many0_run E (link_elem E tok p) i = POk r xs" and "no_space i"
    and "\<And>i r x. p i = POk r x \<Longrightarrow> no_space i \<Longrightarrow> \<exists>s. i = s @ r \<and> G x s \<and> no_space r"
    and "Gs [] []"
    and "\<And>w s t x xs. spaces w \<Longrightarrow> G x s \<Longrightarrow> Gs xs t \<Longrightarrow> Gs (x # xs) (tok @ w @ s @ t)"
  shows "\<exists>t. i = t @ r \<and> Gs xs t \<and> no_space r"
  using assms(1,2)
proof (induction i arbitrary: xs rule: length_induct)
  case (1 i)
  show ?case
  proof (cases "link_elem E tok p i")
    case (POk j x)
    have "\<exists>w s. i = tok @ w @ s @ j \<and> spaces w \<and> G x s \<and> no_space j"
      using POk "1.prems"(2) assms(3) by (rule link_elem_sound)
    then obtain w s where
      ws: "i = tok @ w @ s @ j" "spaces w" "G x s" "no_space j" by blast
    from "1.prems"(1) POk obtain ys where ys: "many0_run E (link_elem E tok p) j = POk r ys"
      "xs = x # ys" "length j < length i"
      by (auto simp: many0_run.simps [of _ _ i] pbind_POk_iff split: if_splits)
    from "1.IH" ys ws(4) obtain t where t: "j = t @ r" "Gs ys t" "no_space r" by blast
    with ws have "i = (tok @ w @ s @ t) @ r" by simp
    with t ws ys assms(5) show ?thesis by blast
  next
    case (PError e)
    with "1.prems" assms(4) show ?thesis by (auto simp: many0_run.simps [of _ _ i])
  qed (use "1.prems" in \<open>simp_all add: many0_run.simps [of _ _ i]\<close>)
qed

section \<open>First characters of the grammar\<close>

lemma g_leaf_head: "g_leaf un c s \<Longrightarrow> \<exists>d t. s = d # t \<and> ident_start d"
  by (auto elim!: g_leafE is_identE)

lemma g_unit_head: "g_unit un c s \<Longrightarrow> \<exists>d t. s = d # t \<and> (ident_start d \<or> d = CHR ''('')"
  by (auto elim!: g_unit.cases dest: g_leaf_head)

lemma g_not_head: "g_not un c s \<Longrightarrow> no_space s \<and> s \<noteq> []"
  by (auto elim!: g_not.cases dest!: g_unit_head dest: ident_start_not_space)

lemma g_and_head: "g_and un c s \<Longrightarrow> no_space s \<and> s \<noteq> []"
  by (auto elim!: g_and.cases dest!: g_not_head simp: no_space_def split: list.splits)

lemma g_or_head: "g_or un c s \<Longrightarrow> no_space s \<and> s \<noteq> []"
  by (auto elim!: g_or.cases dest!: g_and_head simp: no_space_def split: list.splits)

lemma g_ands_head: "g_ands un cs t \<Longrightarrow> stops ''&'' t"
  by (auto elim: g_ands.cases)

lemma g_ors_head: "g_ors un cs t \<Longrightarrow> stops ''|'' t"
  by (auto elim: g_ors.cases)

lemma stops_append: "\<lbrakk>stops cs t; stops ds r; set cs \<subseteq> set ds\<rbrakk> \<Longrightarrow> stops ds (t @ r)"
  by (cases t) auto

text \<open>What follows an operand: the rest of its chain, or what follows the chain.\<close>

lemma ands_follow: "\<lbrakk>g_ands un cs t; stops '')|'' r\<rbrakk> \<Longrightarrow> stops '')|&'' (t @ r)"
  by (rule stops_append [OF g_ands_head]) (auto dest: stops_mono)

lemma ors_follow: "\<lbrakk>g_ors un cs t; stops '')'' r\<rbrakk> \<Longrightarrow> stops '')|'' (t @ r)"
  by (rule stops_append [OF g_ors_head]) (auto dest: stops_mono)

text \<open>No blanks are skipped before an operand or after the chain.\<close>

lemma head_trim: "no_space s \<and> s \<noteq> [] \<Longrightarrow> dropWhile is_space (s @ r) = s @ r"
  by (cases s) auto

lemmas g_trims = head_trim [OF g_not_head] head_trim [OF g_and_head] dropWhile_no_space stops_no_space

abbreviation link_run :: "'e nom \<Rightarrow> string \<Rightarrow> (condition, 'e) parser \<Rightarrow> (condition list, 'e) parser" where
  "link_run N tok p \<equiv> many0_run (nom_error.truncate N) (link_elem (nom_error.truncate N) tok p)"

context nom
begin

section \<open>Tokens\<close>

lemma ws_laws [simp]:
  "ws N delimited_run p = (\<lambda>i. pbind (p (dropWhile is_space i)) (\<lambda>j x. POk (dropWhile is_space j) x))"
  by (simp add: ws_def delimited_run_def fun_eq_iff)

lemma ident_many:
  "\<exists>xs. many0_run E (alt_run E [take1_run E KAlphaNumeric (\<lambda>c. is_alpha c \<or> is_digit c),
     tag_run E ''_'']) i = POk (dropWhile ident_char i) xs"
proof (induction i rule: length_induct)
  case (1 i)
  let ?an = "\<lambda>c. is_alpha c \<or> is_digit c"
  let ?p = "alt_run E [take1_run E KAlphaNumeric ?an, tag_run E ''_'']"
  show ?case
  proof (cases i)
    case Nil
    then show ?thesis by (simp add: many0_run.simps [of _ _ "[]"])
  next
    case (Cons c s)
    note step = many0_run.simps [of E ?p "c # s"]
    consider "?an c" | "\<not> ?an c" "c = CHR ''_''" | "\<not> ident_char c" by (auto simp: ident_char_def)
    then show ?thesis
    proof cases
      case 1
      have len: "length (dropWhile ?an s) < length i"
        using Cons by (simp add: length_dropWhile_le le_imp_less_Suc)
      with "1.IH" obtain xs where
        xs: "many0_run E ?p (dropWhile ?an s) = POk (dropWhile ident_char (dropWhile ?an s)) xs"
        by blast
      have eq: "dropWhile ident_char (dropWhile ?an s) = dropWhile ident_char s"
        by (induction s) (auto simp: ident_char_def)
      have "?p (c # s) = POk (dropWhile ?an s) (c # takeWhile ?an s)"
        using 1 by simp
      moreover from 1 have "ident_char c" by (auto simp: ident_char_def)
      ultimately show ?thesis using xs len eq Cons by (simp add: step)
    next
      case 2
      then obtain xs where "many0_run E ?p s = POk (dropWhile ident_char s) xs"
        using "1.IH" Cons by auto
      moreover from 2 have "?p (c # s) = POk s ''_''" "ident_char c" by (simp_all add: ident_char_def)
      ultimately show ?thesis using Cons by (simp add: step)
    next
      case 3
      then show ?thesis using Cons by (auto simp: step ident_char_def)
    qed
  qed
qed

lemma identifier_start:
  assumes "ident_start c"
  shows "identifier_str N (c # s) = POk (dropWhile ident_char s) (c # takeWhile ident_char s)"
proof -
  let ?E = "nom_error.truncate N"
  let ?first = "alt_run ?E [take1_run ?E KAlpha is_alpha, tag_run ?E ''_'']"
  let ?many = "many0_run ?E (alt_run ?E [take1_run ?E KAlphaNumeric (\<lambda>c. is_alpha c \<or> is_digit c),
     tag_run ?E ''_''])"
  have drop: "dropWhile ident_char (dropWhile is_alpha s) = dropWhile ident_char s"
    by (induction s) (auto simp: ident_char_def)
  from assms consider "is_alpha c" | "\<not> is_alpha c" "c = CHR ''_''" by (auto simp: ident_start_def)
  then obtain j x where first: "?first (c # s) = POk j x"
    and j: "dropWhile ident_char j = dropWhile ident_char s"
  proof cases
    case 1
    then have "?first (c # s) = POk (dropWhile is_alpha s) (c # takeWhile is_alpha s)"
      by simp
    then show ?thesis using drop that by blast
  next
    case 2
    then have "?first (c # s) = POk s ''_''" by simp
    then show ?thesis using that by blast
  qed
  obtain xs where many: "?many j = POk (dropWhile ident_char s) xs"
    using ident_many [of ?E j] j by auto
  have s: "s = takeWhile ident_char s @ dropWhile ident_char s" by simp
  have "take (length (c # s) - length (dropWhile ident_char s)) (c # s) = c # takeWhile ident_char s"
    by (subst s, subst (2) s) (simp del: takeWhile_dropWhile_id)
  then show ?thesis
    using first many
    by (simp add: identifier_str_def recognize_run_def pair_run_def)
qed

lemma identifier_error: "i = [] \<or> \<not> ident_start (hd i) \<Longrightarrow> \<exists>e. identifier_str N i = PError e"
  by (cases i)
    (auto simp: identifier_str_def recognize_run_def pair_run_def ident_start_def)

lemma identifier_complete:
  assumes "is_ident s" and "r = [] \<or> \<not> ident_char (hd r)"
  shows "identifier_str N (s @ r) = POk r s"
proof -
  from assms(1) obtain c t where s: "s = c # t" "ident_start c" "\<forall>d\<in>set t. ident_char d"
    by (rule is_identE)
  moreover from s assms(2) have "takeWhile ident_char (t @ r) = t" "dropWhile ident_char (t @ r) = r"
    by (blast intro: takeWhile_append_stop dropWhile_append_stop)+
  ultimately show ?thesis by (simp add: identifier_start)
qed

lemma identifier_sound:
  assumes "identifier_str N i = POk r s"
  shows "i = s @ r \<and> is_ident s"
proof -
  have "i \<noteq> [] \<and> ident_start (hd i)"
    using assms identifier_error [of i] by force
  then obtain c t where i: "i = c # t" "ident_start c" by (cases i) auto
  with assms show ?thesis
    by (auto simp: identifier_start is_ident_def ident_start_char dest: set_takeWhileD)
qed

section \<open>String literals\<close>

lemma normal_run: "normal N = take1_run (nom_error.truncate N) KTakeTill1 lit_char"
  by (simp add: normal_def fun_eq_iff lit_char_def [abs_def])

lemma take_of_takeWhile:
  assumes "n \<le> length (takeWhile P s)"
  shows "n \<le> length s" and "c \<in> set (take n s) \<Longrightarrow> P c"
proof -
  have s: "s = takeWhile P s @ dropWhile P s" by simp
  show "n \<le> length s" using assms length_takeWhile_le order_trans by blast
  have "take n s = take n (takeWhile P s)"
    by (subst s, subst take_append) (use assms in \<open>simp del: takeWhile_dropWhile_id\<close>)
  then show "c \<in> set (take n s) \<Longrightarrow> P c"
    by (auto dest: in_set_takeD set_takeWhileD)
qed

lemma parse_hex_sound:
  assumes "parse_hex N i = POk s e"
  shows "i = e @ s \<and> length e = 5 \<and> hd e = CHR ''u'' \<and> (\<forall>c\<in>set e. is_hexdigit c \<or> c = CHR ''u'')"
proof -
  let ?P = "\<lambda>c. is_hexdigit c \<or> c = CHR ''u''"
  from assms obtain t where t: "i = CHR ''u'' # t" "5 \<le> length (takeWhile ?P i)"
    "s = drop 5 i" "e = take 5 i"
    by (auto simp: parse_hex_def context_run_def preceded_run_def take_m_n_run_def Let_def
        pbind_POk_iff tag_run_POk_iff split: pres.splits if_splits)
  with take_of_takeWhile [OF t(2)] show ?thesis by auto
qed

lemma escapable_sound: "escapable N i = POk s e \<Longrightarrow> i = e @ s \<and> is_escape e"
  by (auto simp: escapable_def context_run_def is_escape_def tag_run_POk_iff
      alt_run.simps(2) alt_from.simps(2)
      split: pres.splits dest!: parse_hex_sound)

lemma escapable_complete: "is_escape e \<Longrightarrow> escapable N (e @ s) = POk s e"
proof -
  assume "is_escape e"
  then consider c where "c \<in> {CHR 0x22, CHR 0x5C, CHR ''/'', CHR ''b'', CHR ''f'', CHR ''n'',
      CHR ''r'', CHR ''t''}" "e = [c]"
    | "length e = 5" "hd e = CHR ''u''" "\<forall>c\<in>set e. is_hexdigit c \<or> c = CHR ''u''"
    by (auto simp: is_escape_def)
  then show ?thesis
  proof cases
    case 1
    then show ?thesis
      by (auto simp: escapable_def context_run_def alt_run.simps(2) alt_from.simps(2))
  next
    case 2
    then obtain t where e: "e = CHR ''u'' # t" "length t = 4" by (cases e) auto
    have "takeWhile (\<lambda>c. is_hexdigit c \<or> c = CHR ''u'') (e @ s)
        = e @ takeWhile (\<lambda>c. is_hexdigit c \<or> c = CHR ''u'') s"
      using 2(3) by (simp add: takeWhile_append)
    then have "parse_hex N (e @ s) = POk s e"
      using 2(1) e by (simp add: parse_hex_def context_run_def preceded_run_def take_m_n_run_def Let_def)
    then show ?thesis
      using e by (simp add: escapable_def context_run_def alt_run.simps(2) alt_from.simps(2))
  qed
qed

lemma lit_text_dropWhile: "lit_text s \<Longrightarrow> lit_text (dropWhile lit_char s)"
proof (induction rule: lit_text.induct)
  case (lit_escape e s)
  have "\<not> lit_char CHR 0x5C" by (simp add: lit_char_def)
  with lit_escape show ?case by (simp add: lit_text.lit_escape)
qed (auto intro: lit_text.intros)

lemma lit_text_append: "\<lbrakk>lit_text u; lit_text v\<rbrakk> \<Longrightarrow> lit_text (u @ v)"
  by (induction rule: lit_text.induct) (auto intro: lit_text.intros)

lemma lit_text_chars: "\<forall>c\<in>set u. lit_char c \<Longrightarrow> lit_text u"
  by (induction u) (auto intro: lit_text.intros)

lemma lit_text_hd: "lit_text (c # s) \<Longrightarrow> c \<noteq> CHR 0x22"
  by (auto elim: lit_text.cases simp: lit_char_def)

lemma is_escape_not_Nil: "is_escape e \<Longrightarrow> e \<noteq> []"
  by (auto simp: is_escape_def)

lemma escaped_skips_text:
  assumes "lit_text s" and "\<not> lit_char q"
  shows "escaped_run E (take1_run F k lit_char) CHR 0x5C (escapable N) i0 (s @ q # r) =
    escaped_run E (take1_run F k lit_char) CHR 0x5C (escapable N) i0 (q # r)"
  using assms(1)
proof (induction s rule: length_induct)
  case (1 s)
  let ?run = "escaped_run E (take1_run F k lit_char) CHR 0x5C (escapable N) i0"
  from "1.prems" show ?case
  proof (cases rule: lit_text.cases)
    case (lit_normal c t)
    have "lit_text (dropWhile lit_char t)" using lit_normal lit_text_dropWhile by blast
    moreover have "length (dropWhile lit_char t) < length s"
      using lit_normal by (simp add: length_dropWhile_le le_imp_less_Suc)
    ultimately have IH: "?run (dropWhile lit_char t @ q # r) = ?run (q # r)"
      using "1.IH" by blast
    have "dropWhile lit_char (t @ q # r) = dropWhile lit_char t @ q # r"
      using assms(2) by (induction t) auto
    then have "?run (c # t @ q # r) = ?run (dropWhile lit_char t @ q # r)"
      using lit_normal by (intro escaped_run_normal) (simp_all add: length_dropWhile_le)
    with lit_normal IH show ?thesis by simp
  next
    case (lit_escape e t)
    then have IH: "?run (t @ q # r) = ?run (q # r)"
      using "1.IH" by simp
    have "\<not> lit_char CHR 0x5C" by (simp add: lit_char_def)
    then have "?run (CHR 0x5C # e @ t @ q # r) = ?run (t @ q # r)"
      using lit_escape
      by (intro escaped_run_escape) (simp_all add: escapable_complete is_escape_not_Nil)
    with lit_escape IH show ?thesis by simp
  qed simp
qed

lemma parse_str_complete:
  assumes "lit_text s" and "s \<noteq> []"
  shows "parse_str N (s @ CHR 0x22 # r) = POk (CHR 0x22 # r) s"
proof -
  have q: "\<not> lit_char CHR 0x22" by (simp add: lit_char_def)
  have "escaped_run E (take1_run F k lit_char) CHR 0x5C p (s @ CHR 0x22 # r) (CHR 0x22 # r)
      = POk (CHR 0x22 # r) s" for E :: "'e nom_error" and F k p
    using q assms(2) by (simp add: escaped_run.simps [of _ _ _ _ _ "CHR 0x22 # r"])
  with assms(1) q show ?thesis
    by (simp add: parse_str_def normal_run escaped_skips_text)
qed

text \<open>A run of plain characters, or an escape, before text.\<close>

lemma lit_text_run:
  assumes "lit_char d" and "dropWhile lit_char ds = u @ j" and "lit_text u"
  shows "\<exists>v. d # ds = v @ j \<and> lit_text v"
proof (intro exI conjI)
  show "d # ds = (d # takeWhile lit_char ds @ u) @ j" by (simp flip: assms(2))
  show "lit_text (d # takeWhile lit_char ds @ u)"
    using assms(1,3) lit_text_chars [of "takeWhile lit_char ds"]
    by (intro lit_normal lit_text_append) (auto dest: set_takeWhileD)
qed

lemma lit_text_escape:
  assumes "escapable N ds = POk (u @ j) e" and "lit_text u"
  shows "\<exists>v. CHR 0x5C # ds = v @ j \<and> lit_text v"
  using escapable_sound [OF assms(1)] lit_escape [OF _ assms(2)] by (intro exI [of _ "CHR 0x5C # e @ u"]) auto

lemma escaped_run_sound:
  assumes "escaped_run E (take1_run F k lit_char) CHR 0x5C (escapable N) i0 i = POk j s"
  shows "\<exists>u. i = u @ j \<and> lit_text u \<and> length j \<noteq> length i0 \<and> s = take (length i0 - length j) i0"
  using assms
proof (induction i rule: length_induct)
  case (1 i)
  note run = escaped_run.simps [of E "take1_run F k lit_char" "CHR 0x5C" "escapable N" i0]
  consider "i = []" | (lit) d ds where "i = d # ds" "lit_char d" | (esc) ds where "i = CHR 0x5C # ds" "\<not> lit_char CHR 0x5C"
    | (other) d ds where "i = d # ds" "\<not> lit_char d" "d \<noteq> CHR 0x5C"
    by (cases i) auto
  then show ?case
  proof cases
    case lit
    with "1.prems" have "escaped_run E (take1_run F k lit_char) CHR 0x5C (escapable N) i0
        (dropWhile lit_char ds) = POk j s"
      by (simp add: escaped_run_normal length_dropWhile_le)
    moreover have "length (dropWhile lit_char ds) < length i"
      using lit by (simp add: length_dropWhile_le le_imp_less_Suc)
    ultimately show ?thesis using "1.IH" lit lit_text_run by blast
  next
    case esc
    with "1.prems" obtain k' e where e: "escapable N ds = POk k' e" "length k' < length i"
      "escaped_run E (take1_run F k lit_char) CHR 0x5C (escapable N) i0 k' = POk j s"
      by (auto simp: run [of "CHR 0x5C # ds"] split: if_splits pres.splits)
    with "1.IH" esc(1) show ?thesis using lit_text_escape by blast
  qed (use "1.prems" in \<open>auto simp: run intro: lit_text.intros split: if_splits\<close>)
qed

lemma parse_str_sound:
  assumes "parse_str N i = POk j s"
  shows "i = s @ j \<and> lit_text s \<and> s \<noteq> []"
proof -
  from assms have "escaped_run (nom_error.truncate N)
      (take1_run (nom_error.truncate N) KTakeTill1 lit_char) CHR 0x5C (escapable N) i i = POk j s"
    by (simp add: parse_str_def normal_run)
  from escaped_run_sound [OF this] show ?thesis by auto
qed

lemma string_literal_complete: "quoted q raw \<Longrightarrow> string_literal N (q @ r) = POk r raw"
proof (induction rule: quoted.induct)
  case quoted_empty
  show ?case by (simp add: string_literal_def context_run_def tag_run_def)
next
  case (quoted_text s)
  then obtain c t where s: "s = c # t" by (cases s) auto
  with quoted_text(1) lit_text_hd have "c \<noteq> CHR 0x22" by blast
  with s have "tag_run E [CHR 0x22, CHR 0x22] ((CHR 0x22 # s @ [CHR 0x22]) @ r) =
      PError (mk_error E ((CHR 0x22 # s @ [CHR 0x22]) @ r) KTag)" for E :: "'e nom_error"
    by (simp add: tag_run_def)
  moreover have "parse_str N (s @ CHR 0x22 # r) = POk (CHR 0x22 # r) s"
    using quoted_text by (rule parse_str_complete)
  ultimately show ?case
    by (simp add: string_literal_def context_run_def delimited_run_def)
qed

lemma string_literal_sound:
  assumes "string_literal N i = POk r raw"
  shows "\<exists>q. quoted q raw \<and> i = q @ r"
proof -
  from assms consider "i = [CHR 0x22, CHR 0x22] @ r" "raw = [CHR 0x22, CHR 0x22]"
    | j where "i = CHR 0x22 # j" "parse_str N j = POk (CHR 0x22 # r) raw"
    by (auto simp: string_literal_def context_run_def delimited_run_def alt_run.simps(2)
        alt_from.simps(2) tag_run_POk_iff pbind_POk_iff split: pres.splits)
  then show ?thesis
  proof cases
    case 1
    then show ?thesis using quoted_empty by blast
  next
    case 2
    from parse_str_sound [OF 2(2)] 2(1) have "i = (CHR 0x22 # raw @ [CHR 0x22]) @ r"
      "lit_text raw" "raw \<noteq> []" by simp_all
    then show ?thesis using quoted_text by blast
  qed
qed

lemma rhs_literal_complete:
  "\<lbrakk>quoted q raw; un raw = Some v\<rbrakk> \<Longrightarrow> rhs_literal N un (q @ r) = POk r (Str v)"
  by (simp add: rhs_literal_def map_res_run_def string_literal_complete unescape_str_def)

lemma rhs_literal_sound:
  "rhs_literal N un i = POk r val \<Longrightarrow> \<exists>q raw v. quoted q raw \<and> i = q @ r \<and> un raw = Some v \<and> val = Str v"
  by (fastforce simp: rhs_literal_def map_res_run_def unescape_str_def pbind_POk_iff
      split: option.splits dest!: string_literal_sound)

lemma quoted_hd: "quoted q raw \<Longrightarrow> \<exists>t. q = CHR 0x22 # t"
  by (auto elim: quoted.cases)

section \<open>Leaves\<close>

lemma leaf_binary_op_complete: "leaf_binary_op N (CHR ''='' # CHR ''='' # r) = POk r OpEq"
  by (simp add: leaf_binary_op_def tag_run_def)

lemma leaf_binary_op_sound: "leaf_binary_op N i = POk r oper \<Longrightarrow> i = ''=='' @ r \<and> oper = OpEq"
  by (auto simp: leaf_binary_op_def tag_run_POk_iff pbind_POk_iff)

lemma leaf_expr_complete:
  assumes "g_leaf un c s" and "no_space r" and "spaces w"
  shows "leaf_expr N un (w @ s @ r) = POk r c"
  using assms(1)
proof (cases rule: g_leaf.cases)
  case (leaf ident w1 w2 q raw v w3)
  from leaf(3) obtain d t where id: "ident = d # t" "ident_start d" by (rule is_identE)
  then have nsp: "\<not> is_space d" by (simp add: ident_start_not_space)
  have "w1 @ CHR ''='' # x = [] \<or> \<not> ident_char (hd (w1 @ CHR ''='' # x))" for x
    using leaf(4) by (cases w1) (auto dest: ident_char_not_space)
  then have idp: "identifier_str N (ident @ w1 @ CHR ''='' # x) = POk (w1 @ CHR ''='' # x) ident" for x
    using leaf(3) identifier_complete by blast
  obtain u where q: "q = CHR 0x22 # u" using leaf(6) quoted_hd by blast
  have rhs: "rhs_literal N un (CHR 0x22 # u @ w3 @ r) = POk (w3 @ r) (Str v)"
    using rhs_literal_complete [of q raw un v "w3 @ r"] leaf(6,7) q by simp
  have "dropWhile is_space (w3 @ r) = r" using leaf(8) assms(2) by (simp add: dropWhile_no_space)
  with leaf id nsp idp assms(3) q rhs show ?thesis
    by (simp add: leaf_expr_def leaf_binary_op_complete)
qed

lemma leaf_expr_sound:
  assumes "leaf_expr N un i = POk r c"
  shows "\<exists>w s. spaces w \<and> g_leaf un c s \<and> i = w @ s @ r \<and> no_space r"
proof -
  let ?W = "dropWhile is_space"
  from assms obtain j1 ident j2 oper j3 val where
    id: "identifier_str N (?W i) = POk j1 ident" and
    oper: "leaf_binary_op N (?W (?W j1)) = POk j2 oper" and
    val: "rhs_literal N un (?W (?W j2)) = POk j3 val" and
    c: "c = CLeaf ident oper (Some val)" and r: "r = ?W j3"
    by (auto simp: leaf_expr_def pbind_POk_iff)
  from rhs_literal_sound [OF val] obtain q raw v where
    v: "quoted q raw" "?W (?W j2) = q @ j3" "un raw = Some v" "val = Str v" by blast
  have split: "x = takeWhile is_space x @ ?W x" for x by simp
  have i: "?W i = ident @ j1" "is_ident ident" using identifier_sound [OF id] by simp_all
  have j1: "?W j1 = ''=='' @ j2" "oper = OpEq" using leaf_binary_op_sound [OF oper]
    by (simp_all add: dropWhile_no_space)
  have j2: "?W j2 = q @ j3" using v(2) by (simp add: dropWhile_no_space)
  let ?s = "ident @ takeWhile is_space j1 @ ''=='' @ takeWhile is_space j2 @ q @ takeWhile is_space j3"
  have "g_leaf un c ?s" unfolding c j1(2) v(4)
    using i(2) v(1,3) by (intro leaf) simp_all
  moreover have "i = takeWhile is_space i @ ?s @ r"
    by (subst split [of i], subst i(1), subst (1) split [of j1], subst j1(1), subst (1) split [of j2],
        subst j2, subst (1) split [of j3]) (simp add: r del: takeWhile_dropWhile_id)
  ultimately show ?thesis using r by (metis no_space_dropWhile spaces_takeWhile)
qed

lemma leaf_expr_error:
  assumes "dropWhile is_space i = [] \<or> \<not> ident_start (hd (dropWhile is_space i))"
  shows "\<exists>e. leaf_expr N un i = PError e"
  using identifier_error [OF assms] by (auto simp: leaf_expr_def)

section \<open>The expression levels as chains\<close>

lemma preceded_link:
  "preceded_run (\<lambda>i. pbind (tag_run E tok (dropWhile is_space i)) (\<lambda>j. POk (dropWhile is_space j)))
     (\<lambda>i. pbind (p (dropWhile is_space i)) (\<lambda>j. POk (dropWhile is_space j))) = link_elem E tok p"
proof
  fix i
  show "preceded_run (\<lambda>i. pbind (tag_run E tok (dropWhile is_space i)) (\<lambda>j. POk (dropWhile is_space j)))
     (\<lambda>i. pbind (p (dropWhile is_space i)) (\<lambda>j. POk (dropWhile is_space j))) i = link_elem E tok p i"
    by (cases "tag_run E tok (dropWhile is_space i)") (simp_all add: preceded_run_def link_elem_def)
qed

lemma pbind_assoc: "pbind (pbind r f) g = pbind r (\<lambda>i x. pbind (f i x) g)"
  by (cases r) auto

lemma expr_and_chain:
  "expr_and N un inner i =
     pbind (expr_not N un inner (dropWhile is_space i)) (\<lambda>j first.
       pbind (many0_run (nom_error.truncate N)
                (link_elem (nom_error.truncate N) ''&&'' (expr_not N un inner)) (dropWhile is_space j))
         (\<lambda>k more. POk k (if more = [] then first else CAnd (first # more))))"
  by (simp add: expr_and_def pair_run_def preceded_link pbind_assoc if_distrib [of "POk _"])

lemma expr_or_chain:
  "expr_or N un inner i =
     pbind (expr_and N un inner (dropWhile is_space i)) (\<lambda>j first.
       pbind (many0_run (nom_error.truncate N)
                (link_elem (nom_error.truncate N) ''||'' (expr_and N un inner)) (dropWhile is_space j))
         (\<lambda>k more. POk k (if more = [] then first else COr (first # more))))"
  by (simp add: expr_or_def pair_run_def preceded_link pbind_assoc if_distrib [of "POk _"])

lemma unit_paren_run:
  assumes "spaces w" "spaces w1" "inner (dropWhile is_space x) = POk (CHR '')'' # w2 @ r) c"
    "spaces w2" "no_space r"
  shows "leaf_expr_or_paren N un inner (w @ CHR ''('' # w1 @ x) = POk r c"
proof -
  obtain e where "leaf_expr N un (w @ CHR ''('' # w1 @ x) = PError e"
    using leaf_expr_error [of "w @ CHR ''('' # w1 @ x"] assms(1) by auto
  with assms show ?thesis
    by (simp add: leaf_expr_or_paren_def delimited_run_def dropWhile_no_space)
qed

section \<open>Every phrase of the grammar is parsed\<close>

lemma grammar_complete:
  "g_unit un c s \<Longrightarrow> opens s \<le> n \<Longrightarrow> no_space r \<Longrightarrow> spaces w \<Longrightarrow>
     leaf_expr_or_paren N un (expr_no_paren N un n) (w @ s @ r) = POk r c"
  "g_not un c s \<Longrightarrow> opens s \<le> n \<Longrightarrow> no_space r \<Longrightarrow>
     expr_not N un (expr_no_paren N un n) (s @ r) = POk r c"
  "g_ands un cs s \<Longrightarrow> opens s \<le> n \<Longrightarrow> stops '')|'' r \<Longrightarrow>
     link_run N ''&&'' (expr_not N un (expr_no_paren N un n)) (s @ r) = POk r cs"
  "g_and un c s \<Longrightarrow> opens s \<le> n \<Longrightarrow> stops '')|'' r \<Longrightarrow>
     expr_and N un (expr_no_paren N un n) (s @ r) = POk r c"
  "g_ors un cs s \<Longrightarrow> opens s \<le> n \<Longrightarrow> stops '')'' r \<Longrightarrow>
     link_run N ''||'' (expr_and N un (expr_no_paren N un n)) (s @ r) = POk r cs"
  "g_or un c s \<Longrightarrow> opens s \<le> n \<Longrightarrow> stops '')'' r \<Longrightarrow>
     expr_or N un (expr_no_paren N un n) (s @ r) = POk r c"
proof (induction c s and c s and cs s and c s and cs s and c s arbitrary: n r w and n r and n r and n r and n r and n r
    rule: g_unit_g_not_g_ands_g_and_g_ors_g_or.inducts)
  case (unit_leaf c s)
  then show ?case by (simp add: leaf_expr_or_paren_def leaf_expr_complete)
next
  case (unit_paren w1 c s w2)
  then obtain m where m: "n = Suc m" "opens s \<le> m" by (cases n) auto
  from unit_paren have "no_space s \<and> s \<noteq> []" by (blast dest: g_or_head)
  then have "dropWhile is_space (s @ CHR '')'' # w2 @ r) = s @ CHR '')'' # w2 @ r"
    by (cases s) auto
  moreover have "expr_or N un (expr_no_paren N un m) (s @ CHR '')'' # w2 @ r) = POk (CHR '')'' # w2 @ r) c"
    using unit_paren.IH(2) [OF m(2)] by simp
  ultimately have "expr_no_paren N un n (dropWhile is_space (s @ CHR '')'' # w2 @ r)) =
      POk (CHR '')'' # w2 @ r) c"
    using m by simp
  then have "leaf_expr_or_paren N un (expr_no_paren N un n) (w @ CHR ''('' # w1 @ s @ CHR '')'' # w2 @ r)
      = POk r c"
    using unit_paren.prems unit_paren.hyps by (intro unit_paren_run [where ?w2.0 = w2]) simp_all
  then show ?case by simp
next
  case (not_unit c s)
  then obtain d t where s: "s = d # t" "d \<noteq> CHR ''!''"
    using g_unit_head [OF not_unit.IH(1)] by force
  have "leaf_expr_or_paren N un (expr_no_paren N un n) (s @ r) = POk r c"
    using not_unit.IH(2) [of n r "[]"] not_unit.prems by simp
  with s show ?case by (simp add: expr_not_def pair_run_def)
next
  case (not_not w c s)
  then have "leaf_expr_or_paren N un (expr_no_paren N un n) (w @ s @ r) = POk r c" by simp
  then show ?case by (simp add: expr_not_def pair_run_def)
next
  case ands_Nil
  then show ?case by (simp add: many0_and_stop)
next
  case (ands_Cons w c s cs t)
  note follow = ands_follow [OF ands_Cons.IH(3) ands_Cons.prems(2)]
  have "expr_not N un (expr_no_paren N un n) (s @ t @ r) = POk (t @ r) c"
    using ands_Cons follow by (simp add: stops_no_space)
  with ands_Cons show ?case
    using many0_link_step [of "expr_not N un (expr_no_paren N un n)" s "t @ r" c w "CHR ''&''" _ "''&''"]
    by (simp add: g_not_head stops_no_space [OF follow])
next
  case (and_one c s)
  then show ?case by (simp add: expr_and_chain g_trims stops_mono many0_and_stop)
next
  case (and_many c s cs t)
  note follow = stops_no_space [OF ands_follow [OF and_many.IH(3) and_many.prems(2)]]
  with and_many show ?case by (simp add: expr_and_chain g_trims)
next
  case ors_Nil
  then show ?case by (simp add: many0_or_stop)
next
  case (ors_Cons w c s cs t)
  note follow = ors_follow [OF ors_Cons.IH(3) ors_Cons.prems(2)]
  have "expr_and N un (expr_no_paren N un n) (s @ t @ r) = POk (t @ r) c"
    using ors_Cons follow by simp
  with ors_Cons show ?case
    using many0_link_step [of "expr_and N un (expr_no_paren N un n)" s "t @ r" c w "CHR ''|''" _ "''|''"]
    by (simp add: g_and_head stops_no_space [OF stops_mono(2) [OF follow]])
next
  case (or_one c s)
  then show ?case by (simp add: expr_or_chain g_trims stops_mono many0_or_stop)
next
  case (or_many c s cs t)
  note follow = ors_follow [OF or_many.IH(3) or_many.prems(2)]
  with or_many show ?case by (simp add: expr_or_chain g_trims stops_mono)
qed

section \<open>Everything parsed is a phrase of the grammar\<close>

text \<open>What the proof needs of the parser for the inside of parentheses.\<close>

lemma unit_sound:
  assumes "leaf_expr_or_paren N un inner i = POk r c"
    and inner: "\<And>i r c. inner i = POk r c \<Longrightarrow>
      \<exists>w s. spaces w \<and> i = w @ s @ r \<and> g_or un c s \<and> no_space r"
  shows "\<exists>w s. spaces w \<and> i = w @ s @ r \<and> g_unit un c s \<and> no_space r"
proof -
  let ?W = "dropWhile is_space"
  have split: "x = takeWhile is_space x @ ?W x" for x by simp
  from assms(1) consider "leaf_expr N un i = POk r c"
    | j k l where "?W i = CHR ''('' # j" "inner (?W j) = POk k c" "?W k = CHR '')'' # l" "r = ?W l"
    by (auto simp: leaf_expr_or_paren_def alt_run.simps(2) alt_from.simps(2) delimited_run_def
        pbind_POk_iff tag_run_POk_iff split: pres.splits)
  then show ?thesis
  proof cases
    case 1
    from leaf_expr_sound [OF this] unit_leaf [of un c] show ?thesis by metis
  next
    case 2
    from inner [OF 2(2)] obtain w s where s: "spaces w" "?W j = w @ s @ k" "g_or un c s" "no_space k"
      by blast
    from 2(3) s(4) have k: "k = CHR '')'' # l" by (simp add: dropWhile_no_space)
    let ?s = "CHR ''('' # (takeWhile is_space j @ w) @ s @ CHR '')'' # takeWhile is_space l"
    have "g_unit un c ?s" using s by (intro unit_paren) simp_all
    moreover have "j = (takeWhile is_space j @ w) @ s @ CHR '')'' # takeWhile is_space l @ r"
      using split [of j] s(2) k split [of l] 2(4) by (simp del: takeWhile_dropWhile_id)
    then have "i = takeWhile is_space i @ ?s @ r"
      using split [of i] 2(1) by (simp del: takeWhile_dropWhile_id)
    moreover have "no_space r" using 2(4) by simp
    ultimately show ?thesis using spaces_takeWhile by blast
  qed
qed

lemma spaces_no_space: "\<lbrakk>spaces w; no_space (w @ s)\<rbrakk> \<Longrightarrow> w = []"
  by (cases w) auto

lemma not_sound:
  assumes "expr_not N un inner i = POk r c" and "no_space i"
    and inner: "\<And>i r c. inner i = POk r c \<Longrightarrow>
      \<exists>w s. spaces w \<and> i = w @ s @ r \<and> g_or un c s \<and> no_space r"
  shows "\<exists>s. i = s @ r \<and> g_not un c s \<and> no_space r"
proof -
  from assms(1) consider j d where "i = CHR ''!'' # j" "leaf_expr_or_paren N un inner j = POk r d"
      "c = CNot d"
    | "leaf_expr_or_paren N un inner i = POk r c"
    by (auto simp: expr_not_def alt_run.simps(2) alt_from.simps(2) pair_run_def
        pbind_POk_iff tag_run_POk_iff split: pres.splits)
  then show ?thesis
  proof cases
    case 1
    from unit_sound [OF 1(2) inner] obtain w s where "spaces w" "j = w @ s @ r" "g_unit un d s"
      "no_space r" by blast
    with 1 have "i = (CHR ''!'' # w @ s) @ r" "g_not un c (CHR ''!'' # w @ s)"
      by (auto intro: not_not)
    with \<open>no_space r\<close> show ?thesis by blast
  next
    case 2
    from unit_sound [OF 2 inner] obtain w s where "spaces w" "i = w @ s @ r" "g_unit un c s"
      "no_space r" by blast
    moreover from this assms(2) have "w = []" by (blast intro: spaces_no_space)
    ultimately show ?thesis by (auto intro: not_unit)
  qed
qed

lemma and_sound:
  assumes "expr_and N un inner i = POk r c" and "no_space i"
    and inner: "\<And>i r c. inner i = POk r c \<Longrightarrow>
      \<exists>w s. spaces w \<and> i = w @ s @ r \<and> g_or un c s \<and> no_space r"
  shows "\<exists>s. i = s @ r \<and> g_and un c s \<and> no_space r"
proof -
  from assms(1,2) obtain j first more where
    first: "expr_not N un inner i = POk j first" and
    more: "many0_run (nom_error.truncate N) (link_elem (nom_error.truncate N) ''&&''
      (expr_not N un inner)) (dropWhile is_space j) = POk r more" and
    c: "c = (if more = [] then first else CAnd (first # more))"
    by (auto simp: expr_and_chain pbind_POk_iff dropWhile_no_space)
  from not_sound [OF first assms(2) inner] obtain s where s: "i = s @ j" "g_not un first s" "no_space j"
    by blast
  have "\<exists>t. dropWhile is_space j = t @ r \<and> g_ands un more t \<and> no_space r"
  proof (rule many0_link_sound [where G = "g_not un" and Gs = "g_ands un", OF more])
    show "\<exists>s. i = s @ r \<and> g_not un x s \<and> no_space r"
      if "expr_not N un inner i = POk r x" "no_space i" for i r x
      using not_sound [OF that inner] by blast
  qed (use ands_Nil ands_Cons in auto)
  then obtain t where t: "j = t @ r" "g_ands un more t" "no_space r"
    using s(3) by (auto simp: dropWhile_no_space)
  have "g_and un c (s @ t)"
  proof (cases "more = []")
    case True
    with t(2) have "t = []" by (auto elim: g_ands_NilE)
    with True c s(2) show ?thesis by (simp add: and_one)
  qed (use c s(2) t(2) in \<open>simp add: and_many\<close>)
  with s(1) t show ?thesis by (metis append.assoc)
qed

lemma or_sound:
  assumes "expr_or N un inner i = POk r c"
    and inner: "\<And>i r c. inner i = POk r c \<Longrightarrow>
      \<exists>w s. spaces w \<and> i = w @ s @ r \<and> g_or un c s \<and> no_space r"
  shows "\<exists>w s. spaces w \<and> i = w @ s @ r \<and> g_or un c s \<and> no_space r"
proof -
  let ?i = "dropWhile is_space i"
  from assms(1) obtain j first more where
    first: "expr_and N un inner ?i = POk j first" and
    more: "many0_run (nom_error.truncate N) (link_elem (nom_error.truncate N) ''||''
      (expr_and N un inner)) (dropWhile is_space j) = POk r more" and
    c: "c = (if more = [] then first else COr (first # more))"
    by (auto simp: expr_or_chain pbind_POk_iff)
  from and_sound [OF first no_space_dropWhile inner] obtain s where
    s: "?i = s @ j" "g_and un first s" "no_space j" by blast
  have "\<exists>t. dropWhile is_space j = t @ r \<and> g_ors un more t \<and> no_space r"
  proof (rule many0_link_sound [where G = "g_and un" and Gs = "g_ors un", OF more])
    show "\<exists>s. i = s @ r \<and> g_and un x s \<and> no_space r"
      if "expr_and N un inner i = POk r x" "no_space i" for i r x
      using and_sound [OF that inner] by blast
  qed (use ors_Nil ors_Cons in auto)
  then obtain t where t: "j = t @ r" "g_ors un more t" "no_space r"
    using s(3) by (auto simp: dropWhile_no_space)
  have "g_or un c (s @ t)"
  proof (cases "more = []")
    case True
    with t(2) have "t = []" by (auto elim: g_ors.cases)
    with True c s(2) show ?thesis by (simp add: or_one)
  qed (use c s(2) t(2) in \<open>simp add: or_many\<close>)
  moreover have "i = takeWhile is_space i @ (s @ t) @ r"
    using s(1) t(1) by (metis append.assoc takeWhile_dropWhile_id)
  ultimately show ?thesis using t(3) spaces_takeWhile by blast
qed

lemma expr_no_paren_sound:
  "expr_no_paren N un n i = POk r c \<Longrightarrow>
    \<exists>w s. spaces w \<and> i = w @ s @ r \<and> g_or un c s \<and> no_space r"
proof (induction n arbitrary: i r c)
  case (Suc n)
  from Suc.prems have "expr_or N un (expr_no_paren N un n) i = POk r c" by simp
  from this Suc.IH show ?case by (rule or_sound)
qed simp

lemma expr_sound:
  assumes "expr N un n i = POk r c"
  shows "\<exists>w s. spaces w \<and> i = w @ s @ r \<and> g_or un c s \<and> no_space r"
  by (rule or_sound [OF assms [unfolded expr_def] expr_no_paren_sound])

lemma expr_leading_space: "expr_or N un inner (dropWhile is_space i) = expr_or N un inner i"
  by (simp add: expr_or_chain)

lemma expr_complete:
  assumes "g_or un c s" "spaces w" "opens s \<le> n" "stops '')'' r"
  shows "expr N un n (w @ s @ r) = POk r c"
proof -
  from g_or_head [OF assms(1)] have "dropWhile is_space (w @ s @ r) = s @ r"
    using assms(2) by (cases s) auto
  then show ?thesis
    using grammar_complete(6) [OF assms(1,3,4)] expr_leading_space
    by (metis expr_def)
qed

lemma count_list_length: "count_list s c \<le> length s"
  by (induction s) auto

text \<open>Parsing a whole text is deriving it.\<close>

lemma do_parse_iff:
  "do_parse N un i = POk [] c \<longleftrightarrow> (\<exists>w s. spaces w \<and> i = w @ s \<and> g_or un c s)"
proof
  assume "do_parse N un i = POk [] c"
  then show "\<exists>w s. spaces w \<and> i = w @ s \<and> g_or un c s"
    using expr_sound by (fastforce simp: do_parse_def)
next
  assume "\<exists>w s. spaces w \<and> i = w @ s \<and> g_or un c s"
  then obtain w s where "spaces w" "i = w @ s" "g_or un c s" by blast
  moreover from this have "opens s \<le> length i"
    using count_list_length [of s] by (simp add: trans_le_add2)
  ultimately show "do_parse N un i = POk [] c"
    using expr_complete [of un c s w "length i" "[]"] by (simp add: do_parse_def)
qed

section \<open>Parsing always returns, and the depth does not matter\<close>

end

text \<open>A call that returns, with a rest that is a suffix of its input.\<close>

definition returns :: "string \<Rightarrow> ('a, 'e) pres \<Rightarrow> bool" where
  "returns i r \<longleftrightarrow> (case r of PAbort \<Rightarrow> False | POk j x \<Rightarrow> suffix j i | _ \<Rightarrow> True)"

lemma returns_simps [simp]:
  "returns i (POk j x) \<longleftrightarrow> suffix j i" "returns i (PError e)" "returns i (PFailure e)"
  "\<not> returns i PAbort"
  by (simp_all add: returns_def)

lemma returns_mono: "\<lbrakk>returns j r; suffix j i\<rbrakk> \<Longrightarrow> returns i r"
  by (cases r) (auto intro: suffix_order.order_trans)

lemma returns_pbind:
  "\<lbrakk>returns i r; \<And>j x. r = POk j x \<Longrightarrow> suffix j i \<Longrightarrow> returns j (f j x)\<rbrakk> \<Longrightarrow> returns i (pbind r f)"
  by (cases r) (auto intro: returns_mono)

lemma returns_pbind_POk [intro]:
  "\<lbrakk>returns i r; \<And>j x. suffix (g j x) j\<rbrakk> \<Longrightarrow> returns i (pbind r (\<lambda>j x. POk (g j x) (h j x)))"
  by (rule returns_pbind) auto

lemma opens_suffix: "suffix j i \<Longrightarrow> opens j \<le> opens i"
  by (auto simp: suffix_def)

lemma suffix_drop_space [simp]: "suffix (dropWhile is_space i) i"
  by (rule suffix_dropWhile)

lemma returns_tag [simp]: "returns i (tag_run E t i)"
  by (auto simp: tag_run_def str_strip_prefix_Some_iff suffix_def split: option.splits)

lemma returns_take1 [simp]: "returns i (take1_run E k P i)"
  by (auto simp: take1_run_def suffix_dropWhile)

lemma returns_alt:
  assumes "\<forall>p\<in>set ps. returns i (p i)"
  shows "returns i (alt_from E e ps i)" and "returns i (alt_run E ps i)"
proof -
  show *: "returns i (alt_from E e ps i)" for e
    using assms by (induction ps arbitrary: e) (auto simp: alt_from.simps(2) split: pres.splits)
  show "returns i (alt_run E ps i)"
    using assms
  proof (cases ps)
    case (Cons p qs)
    have "returns i (alt_from E e qs i)" for e
      using assms Cons by (induction qs arbitrary: e ps) (auto simp: alt_from.simps(2) split: pres.splits)
    with Cons assms show ?thesis by (auto simp: alt_run.simps(2) split: pres.splits)
  qed simp
qed

lemma agree_alt2:
  assumes "p i = p' i \<and> returns i (p i)" and "q i = q' i \<and> returns i (q i)"
  shows "alt_run E [p, q] i = alt_run E [p', q'] i \<and> returns i (alt_run E [p, q] i)"
proof -
  have "returns i (alt_run E [p, q] i)" using assms(1) [THEN conjunct2] assms(2) [THEN conjunct2]
    by (intro returns_alt) auto
  moreover have "alt_run E [p, q] i = alt_run E [p', q'] i"
    using assms by (cases "p' i"; cases "q' i") (simp_all add: alt_run.simps(2) alt_from.simps(2))
  ultimately show ?thesis by blast
qed

lemma returns_many0:
  assumes "\<And>j. suffix j i \<Longrightarrow> returns j (p j)"
  shows "returns i (many0_run E p i)"
  using assms
proof (induction i rule: length_induct)
  case (1 i)
  show ?case
  proof (cases "p i")
    case (POk j x)
    with "1.prems" [of i] have suf: "suffix j i" by simp
    have "returns j (many0_run E p j)" if "length j < length i"
    proof -
      have "returns k (p k)" if "suffix k j" for k
        using "1.prems" that suf suffix_order.order_trans by blast
      with "1.IH" \<open>length j < length i\<close> show ?thesis by blast
    qed
    then have "returns i (many0_run E p j)" if "length j < length i"
      using that suf returns_mono by blast
    with POk show ?thesis by (auto simp: many0_run.simps [of _ _ i])
  qed (use "1.prems" [of i] in \<open>simp_all add: many0_run.simps [of _ _ i]\<close>)
qed

lemma returns_escaped:
  assumes "\<And>ds. returns ds (esc ds)" and "suffix i i0"
  shows "returns i0 (escaped_run E (take1_run F k P) c esc i0 i)"
  using assms(2)
proof (induction i rule: length_induct)
  case (1 i)
  let ?run = "escaped_run E (take1_run F k P) c esc i0"
  show ?case
  proof (cases i)
    case (Cons d ds)
    show ?thesis
    proof (cases "P d")
      case True
      then have "?run i = ?run (dropWhile P ds)"
        using Cons by (simp add: escaped_run_normal length_dropWhile_le)
      moreover have "suffix (dropWhile P ds) i0"
        using "1.prems" Cons by (meson suffix_ConsD suffix_dropWhile suffix_order.order_trans)
      moreover have "length (dropWhile P ds) < length i"
        using Cons by (simp add: length_dropWhile_le le_imp_less_Suc)
      ultimately show ?thesis using "1.IH" by auto
    next
      case False
      have "returns i0 (?run j)" if "esc ds = POk j x" for j x
        using assms(1) [of ds] that "1.prems" "1.IH" Cons
        by (auto simp: suffix_def)
      moreover have "length j \<le> length ds" if "esc ds = POk j x" for j x
        using assms(1) [of ds] that by (auto simp: suffix_def)
      moreover have "esc ds \<noteq> PAbort" using assms(1) [of ds] by auto
      ultimately show ?thesis using Cons False "1.prems"
        by (cases "esc ds") (auto simp: escaped_run.simps [of _ _ _ _ _ "d # ds"] le_imp_less_Suc)
    qed
  qed (simp add: escaped_run.simps [of _ _ _ _ _ "[]"])
qed

text \<open>Two parsers agree, and return, on inputs with fewer than \<open>k\<close> opening parentheses.\<close>

definition agree :: "nat \<Rightarrow> ('a, 'e) parser \<Rightarrow> ('a, 'e) parser \<Rightarrow> bool" where
  "agree k p q \<longleftrightarrow> (\<forall>i. opens i < k \<longrightarrow> p i = q i \<and> returns i (p i))"

lemma agreeD: "\<lbrakk>agree k p q; opens i < k\<rbrakk> \<Longrightarrow> p i = q i \<and> returns i (p i)"
  unfolding agree_def by blast

lemma agree_link:
  assumes "agree k p q"
  shows "agree k (link_elem E tok p) (link_elem E tok q)"
  unfolding agree_def
proof (intro allI impI)
  fix i assume i: "opens i < k"
  consider j where "dropWhile is_space i = tok @ j" "tag_run E tok (dropWhile is_space i) = POk j tok"
    | e where "tag_run E tok (dropWhile is_space i) = PError e"
    using tag_run_cases by blast
  then show "link_elem E tok p i = link_elem E tok q i \<and> returns i (link_elem E tok p i)"
  proof cases
    case 1
    let ?j = "dropWhile is_space j"
    from 1(1) have "suffix j i" by (metis suffixI suffix_drop_space suffix_order.order_trans)
    then have suf: "suffix ?j i" by (meson suffix_drop_space suffix_order.order_trans)
    with i have "opens ?j < k" using opens_suffix le_less_trans by blast
    from agreeD [OF assms this] have eq: "p ?j = q ?j" and ret: "returns ?j (p ?j)" by auto
    from ret have "returns ?j (pbind (p ?j) (\<lambda>k x. POk (dropWhile is_space k) x))"
      by (intro returns_pbind_POk) auto
    with suf 1(2) eq show ?thesis by (simp add: link_elem_def returns_mono)
  qed (simp add: link_elem_def)
qed

lemma agree_many0:
  assumes "agree k p q"
  shows "agree k (many0_run E p) (many0_run E q)"
  unfolding agree_def
proof (intro allI impI)
  fix i assume "opens i < k"
  then show "many0_run E p i = many0_run E q i \<and> returns i (many0_run E p i)"
  proof (induction i rule: length_induct)
    case (1 i)
    from agreeD [OF assms "1.prems"] have eq: "p i = q i" and ret: "returns i (p i)" by auto
    have "returns i (many0_run E p i)"
      by (rule returns_many0) (use assms "1.prems" opens_suffix le_less_trans in \<open>blast dest: agreeD\<close>)
    moreover have "many0_run E p i = many0_run E q i"
    proof (cases "p i")
      case (POk j x)
      with ret have "opens j < k" using "1.prems" opens_suffix le_less_trans by fastforce
      with "1.IH" have "many0_run E p j = many0_run E q j" if "length j < length i"
        using that by blast
      with POk eq show ?thesis by (simp add: many0_run.simps [of _ _ i])
    qed (use eq in \<open>simp_all add: many0_run.simps [of _ _ i]\<close>)
    ultimately show ?case by blast
  qed
qed

context nom
begin

lemma returns_identifier: "returns i (identifier_str N i)"
proof (cases "identifier_str N i")
  case (POk r s)
  with identifier_sound show ?thesis by (auto simp: suffix_def)
next
  case PAbort
  show ?thesis
  proof (cases i)
    case (Cons c t)
    then show ?thesis
      using PAbort identifier_start [of c t] identifier_error [of i] by fastforce
  qed (use PAbort identifier_error [of "[]"] in fastforce)
qed simp_all

lemma returns_parse_hex: "returns i (parse_hex N i)"
  by (auto simp: parse_hex_def context_run_def preceded_run_def take_m_n_run_def Let_def
      tag_run_def suffix_drop split: pres.splits option.splits)

lemma returns_context: "returns i (p i) \<Longrightarrow> returns i (context_run E s p i)"
  by (cases "p i") (simp_all add: context_run_def)

lemma returns_escapable: "returns i (escapable N i)"
  by (simp add: escapable_def returns_context returns_alt returns_parse_hex)

lemma returns_parse_str: "returns i (parse_str N i)"
  by (simp add: parse_str_def normal_run returns_escaped returns_escapable)

lemma returns_string_literal: "returns i (string_literal N i)"
proof -
  have "returns i (delimited_run (tag_run E t) (parse_str N) (tag_run E t) i)" for E t
    unfolding delimited_run_def
    by (intro returns_pbind returns_tag returns_parse_str) simp_all
  then show ?thesis by (simp add: string_literal_def returns_context returns_alt)
qed

lemma returns_rhs_literal: "returns i (rhs_literal N un i)"
  unfolding rhs_literal_def map_res_law map_res_run_def
  by (rule returns_pbind [OF returns_string_literal]) (auto simp: unescape_str_def split: option.splits)

lemma returns_leaf_binary_op: "returns i (leaf_binary_op N i)"
  unfolding leaf_binary_op_def tag_law
  by (rule returns_pbind [OF returns_tag]) (auto simp: tag_run_POk_iff)

lemma returns_ws:
  assumes "\<And>i. returns i (p i)"
  shows "returns i (pbind (p (dropWhile is_space i)) (\<lambda>j. POk (dropWhile is_space j)))"
proof -
  have "returns (dropWhile is_space i) (pbind (p (dropWhile is_space i)) (\<lambda>j. POk (dropWhile is_space j)))"
    by (rule returns_pbind [OF assms]) simp
  then show ?thesis by (rule returns_mono) simp
qed

lemma returns_leaf_expr: "returns i (leaf_expr N un i)"
proof -
  have "returns i (pbind (pbind (identifier_str N (dropWhile is_space i)) (\<lambda>j. POk (dropWhile is_space j)))
     (\<lambda>j x. pbind (pbind (leaf_binary_op N (dropWhile is_space j)) (\<lambda>j. POk (dropWhile is_space j)))
       (\<lambda>k y. pbind (pbind (rhs_literal N un (dropWhile is_space k)) (\<lambda>j. POk (dropWhile is_space j)))
         (\<lambda>l z. POk l (x, y, z)))))"
    by (intro returns_pbind [OF returns_ws] returns_identifier returns_leaf_binary_op returns_rhs_literal)
      simp
  then have "returns i (pbind \<dots> (\<lambda>i (ident, oper, val). POk i (CLeaf ident oper (Some val))))"
    by (rule returns_pbind) (simp split: prod.splits)
  then show ?thesis by (simp add: leaf_expr_def)
qed

lemma agree_unit:
  assumes "agree k inner inner'"
  shows "agree (Suc k) (leaf_expr_or_paren N un inner) (leaf_expr_or_paren N un inner')"
  unfolding agree_def
proof (intro allI impI)
  fix i assume i: "opens i < Suc k"
  let ?T = "nom_error.truncate N"
  let ?ws = "\<lambda>t i. pbind (tag_run ?T t (dropWhile is_space i)) (\<lambda>j. POk (dropWhile is_space j))"
  let ?paren = "\<lambda>inner. delimited_run (?ws ''('') inner (?ws '')'')"
  have paren: "?paren inner i = ?paren inner' i \<and> returns i (?paren inner i)"
  proof -
    consider j where "dropWhile is_space i = CHR ''('' # j"
      "tag_run ?T ''('' (dropWhile is_space i) = POk j ''(''"
      | e where "tag_run ?T ''('' (dropWhile is_space i) = PError e"
      using tag_run_cases [of "dropWhile is_space i" "''(''" ?T] by auto
    then show ?thesis
    proof cases
      case 1
      let ?j = "dropWhile is_space j"
      have "opens (CHR ''('' # j) \<le> opens i" using 1(1) opens_suffix suffix_drop_space by metis
      moreover have "opens ?j \<le> opens j" by (rule opens_suffix) simp
      ultimately have "opens ?j < k" using i by simp
      from agreeD [OF assms this] have eq: "inner ?j = inner' ?j" and ret: "returns ?j (inner ?j)"
        by auto
      have "returns ?j (pbind (inner ?j) (\<lambda>k y. pbind (?ws '')'' k) (\<lambda>l _. POk l y)))"
        using ret by (rule returns_pbind) (rule returns_pbind [OF returns_ws], simp_all)
      moreover have "suffix ?j i"
        using 1(1) by (metis suffix_ConsD suffix_drop_space suffix_order.order_trans)
      ultimately show ?thesis using 1(2) eq by (simp add: delimited_run_def returns_mono)
    qed (simp add: delimited_run_def)
  qed
  show "leaf_expr_or_paren N un inner i = leaf_expr_or_paren N un inner' i
      \<and> returns i (leaf_expr_or_paren N un inner i)"
    unfolding leaf_expr_or_paren_def alt_cond_law delimited_cond_law delimited_str_law ws_laws tag_law
    by (intro agree_alt2 conjI refl returns_leaf_expr conjunct1 [OF paren] conjunct2 [OF paren])
qed

lemma agree_not:
  assumes "agree k inner inner'"
  shows "agree (Suc k) (expr_not N un inner) (expr_not N un inner')"
  unfolding agree_def
proof (intro allI impI)
  fix i assume i: "opens i < Suc k"
  let ?u = "leaf_expr_or_paren N un inner" and ?u' = "leaf_expr_or_paren N un inner'"
  have u: "?u j = ?u' j \<and> returns j (?u j)" if "suffix j i" for j
    using agreeD [OF agree_unit [OF assms]] that i opens_suffix le_less_trans by blast
  let ?T = "nom_error.truncate N"
  let ?neg = "\<lambda>u i. pbind (pair_run (tag_run ?T ''!'') u i) (\<lambda>j x. POk j (case x of (_, c) \<Rightarrow> CNot c))"
  have neg: "?neg ?u i = ?neg ?u' i \<and> returns i (?neg ?u i)"
  proof -
    consider j where "i = CHR ''!'' # j" "tag_run ?T ''!'' i = POk j ''!''"
      | e where "tag_run ?T ''!'' i = PError e"
      using tag_run_cases [of i "''!''" ?T] by auto
    then show ?thesis
    proof cases
      case 1
      then have suf: "suffix j i" by (simp add: suffix_ConsI)
      from u [OF suf] have eq: "?u j = ?u' j" and "returns j (?u j)" by blast+
      then have "returns i (?u' j)" using suf returns_mono by fastforce
      then show ?thesis using 1(2) eq by (cases "?u' j") (simp_all add: pair_run_def)
    qed (simp add: pair_run_def)
  qed
  show "expr_not N un inner i = expr_not N un inner' i \<and> returns i (expr_not N un inner i)"
    unfolding expr_not_def alt_cond_law map_cond_law pair_cond_law tag_law
    by (intro agree_alt2 neg u) simp
qed

lemma agree_chain:
  assumes "agree k p q"
    and f: "\<And>i. f i = pbind (p (dropWhile is_space i)) (\<lambda>j first.
       pbind (many0_run E (link_elem E tok p) (dropWhile is_space j)) (\<lambda>k more. POk k (h first more)))"
    and g: "\<And>i. g i = pbind (q (dropWhile is_space i)) (\<lambda>j first.
       pbind (many0_run E (link_elem E tok q) (dropWhile is_space j)) (\<lambda>k more. POk k (h first more)))"
  shows "agree k f g"
  unfolding agree_def
proof (intro allI impI)
  fix i assume i: "opens i < k"
  let ?i = "dropWhile is_space i"
  have small: "opens (dropWhile is_space j) < k" if "opens j < k" for j
    using that opens_suffix [OF suffix_drop_space [of j]] by simp
  from agreeD [OF assms(1) small [OF i]] have eq: "p ?i = q ?i" and ret: "returns ?i (p ?i)" by auto
  have many: "many0_run E (link_elem E tok p) j = many0_run E (link_elem E tok q) j
      \<and> returns j (many0_run E (link_elem E tok p) j)" if "opens j < k" for j
    using agreeD [OF agree_many0 [OF agree_link [OF assms(1)]] that] .
  show "f i = g i \<and> returns i (f i)"
  proof (cases "p ?i")
    case (POk j first)
    with ret have j: "suffix j ?i" by simp
    then have "opens j < k" using opens_suffix [OF j] small [OF i] by simp
    note m = many [OF small [OF this]]
    have "returns (dropWhile is_space j) (pbind (many0_run E (link_elem E tok p) (dropWhile is_space j))
        (\<lambda>k more. POk k (h first more)))"
      using m by (intro returns_pbind_POk) auto
    moreover have "suffix (dropWhile is_space j) i"
      using j by (meson suffix_drop_space suffix_order.order_trans)
    ultimately show ?thesis using POk eq m by (simp add: f g returns_mono)
  qed (use eq ret in \<open>simp_all add: f g\<close>)
qed

lemma agree_or:
  assumes "agree k inner inner'"
  shows "agree (Suc k) (expr_or N un inner) (expr_or N un inner')"
proof -
  have "agree (Suc k) (expr_and N un inner) (expr_and N un inner')"
    by (rule agree_chain [OF agree_not [OF assms] expr_and_chain expr_and_chain])
  from agree_chain [OF this expr_or_chain expr_or_chain] show ?thesis .
qed

lemma agree_depth: "k \<le> n \<Longrightarrow> k \<le> m \<Longrightarrow> agree k (expr_no_paren N un n) (expr_no_paren N un m)"
proof (induction k arbitrary: n m)
  case (Suc k)
  then obtain n' m' where nm: "n = Suc n'" "m = Suc m'" "k \<le> n'" "k \<le> m'"
    by (cases n; cases m) auto
  then have "agree (Suc k) (expr_or N un (expr_no_paren N un n')) (expr_or N un (expr_no_paren N un m'))"
    using Suc.IH by (intro agree_or) simp
  moreover have "expr_no_paren N un (Suc d) = expr_or N un (expr_no_paren N un d)" for d
    by (rule ext) simp
  ultimately show ?case using nm by simp
qed (simp add: agree_def)

text \<open>Any depth of at least the number of opening parentheses gives the same, returning, parse.\<close>

lemma expr_depth_enough:
  assumes "opens i \<le> n"
  shows "expr N un n i = do_parse N un i \<and> returns i (do_parse N un i)"
proof -
  have "opens i \<le> length i" by (rule count_list_length)
  then have "agree (Suc (opens i)) (expr_or N un (expr_no_paren N un (length i)))
      (expr_or N un (expr_no_paren N un n))"
    using assms by (intro agree_or agree_depth)
  from agreeD [OF this lessI] have *: "expr N un (length i) i = expr N un n i \<and>
      returns i (expr N un (length i) i)"
    unfolding expr_def .
  show ?thesis
    unfolding do_parse_def using conjunct1 [OF *, symmetric] conjunct2 [OF *] by (rule conjI)
qed

end

section \<open>The conditions the parser builds\<close>

text \<open>
  Every leaf compares with a value, names a valid identifier, and every \<open>And\<close>/\<open>Or\<close> node has at
  least two children.
\<close>

fun parsed_shape :: "condition \<Rightarrow> bool" where
  "parsed_shape (CAnd cs) \<longleftrightarrow> 2 \<le> length cs \<and> list_all parsed_shape cs"
| "parsed_shape (COr cs) \<longleftrightarrow> 2 \<le> length cs \<and> list_all parsed_shape cs"
| "parsed_shape (CNot c) \<longleftrightarrow> parsed_shape c"
| "parsed_shape (CLeaf l oper r) \<longleftrightarrow> is_ident l \<and> r \<noteq> None"

lemma parsed_shape_binary: "parsed_shape c \<Longrightarrow> binary_only c"
  by (induction c) (auto simp: list_all_iff)

lemma grammar_shape:
  "g_unit un c s \<Longrightarrow> parsed_shape c"
  "g_not un c s \<Longrightarrow> parsed_shape c"
  "g_ands un cs s \<Longrightarrow> list_all parsed_shape cs"
  "g_and un c s \<Longrightarrow> parsed_shape c"
  "g_ors un cs s \<Longrightarrow> list_all parsed_shape cs"
  "g_or un c s \<Longrightarrow> parsed_shape c"
proof (induction c s and c s and cs s and c s and cs s and c s
    rule: g_unit_g_not_g_ands_g_and_g_ors_g_or.inducts)
  case (unit_leaf c s)
  then show ?case by (auto elim: g_leafE)
next
  case (and_many c s cs t)
  then show ?case by (cases cs) auto
next
  case (or_many c s cs t)
  then show ?case by (cases cs) auto
qed auto

end
