(* ===== verification/Rust_Float.thy ===== *)
theory Rust_Float
  imports "HOL-Library.Word"
begin

text \<open>
  \<open>f32\<close>: the 32 bits of an IEEE 754 single. \<open>is_finite\<close>, \<open>==\<close> and \<open>>\<close> are computed on the bits:
  on numbers that are not NaN the order is that of sign and magnitude, with both zeros equal.
\<close>

unbundle bit_operations_syntax

type_synonym f32 = "32 word"

definition f32_mag :: "f32 \<Rightarrow> f32" where
  "f32_mag w = w AND 0x7FFFFFFF"

definition f32_neg :: "f32 \<Rightarrow> bool" where
  "f32_neg w \<longleftrightarrow> 0x80000000 \<le> w"

definition f32_is_nan :: "f32 \<Rightarrow> bool" where
  "f32_is_nan w \<longleftrightarrow> 0x7F800000 < f32_mag w"

definition f32_is_finite :: "f32 \<Rightarrow> bool" where
  "f32_is_finite w \<longleftrightarrow> f32_mag w < 0x7F800000"

definition f32_key :: "f32 \<Rightarrow> int" where
  "f32_key w = (if f32_neg w then - uint (f32_mag w) else uint (f32_mag w))"

definition f32_gt :: "f32 \<Rightarrow> f32 \<Rightarrow> bool" where
  "f32_gt a b \<longleftrightarrow> \<not> f32_is_nan a \<and> \<not> f32_is_nan b \<and> f32_key b < f32_key a"

definition f32_eq :: "f32 \<Rightarrow> f32 \<Rightarrow> bool" where
  "f32_eq a b \<longleftrightarrow> \<not> f32_is_nan a \<and> \<not> f32_is_nan b \<and> f32_key a = f32_key b"

lemma f32_finite_not_nan: "f32_is_finite w \<Longrightarrow> \<not> f32_is_nan w"
  by (auto simp: f32_is_finite_def f32_is_nan_def)

lemma f32_zeros_equal: "f32_eq 0 0x80000000"
  by (simp add: f32_eq_def f32_is_nan_def f32_key_def f32_neg_def f32_mag_def)

lemma f32_inf_not_finite: "\<not> f32_is_finite 0x7F800000"
  by (simp add: f32_is_finite_def f32_mag_def)

lemma f32_one_gt_zero: "f32_gt 0x3F800000 0"
  by (simp add: f32_gt_def f32_is_nan_def f32_key_def f32_neg_def f32_mag_def)

end
