(* ===== verification/Model_Objects.thy ===== *)
theory Model_Objects
  imports Errors Rule_Parser_Correct Rust_Float
begin

text \<open>
  \<open>src/model\<close>: the objects stored in a repository of configurations (rules, links, resources) and
  their loaders. The crate \<open>serde_json\<close> is the record \<open>serde_json\<close>: parsing of bytes, the typed
  conversions the derives produce, and the two accessors the code calls on a \<open>Value\<close>. With the
  parser combinators and \<open>unescape\<close> it makes up \<open>crates\<close>, the argument of the loaders.
\<close>

type_synonym object_id = string

section \<open>Objects\<close>

record 'j root_common =
  rc_version :: "32 word"
  rc_kind :: string
  rc_meta :: 'j
  rc_spec :: 'j

record object_meta =
  m_desc :: string
  m_tags :: "string list"

type_synonym rule_meta = object_meta
type_synonym link_meta = object_meta
type_synonym res_meta = object_meta

record rule_spec = rs_rule :: condition

record rule_obj =
  rule_meta_of :: rule_meta
  rule_spec_of :: rule_spec

record link_spec =
  ls_pri :: f32
  ls_is_neg :: bool
  ls_ver :: string
  ls_rule :: string
  ls_reses :: "string list"

record link_obj =
  link_meta_of :: link_meta
  link_spec_of :: link_spec

record 'j res_spec_item =
  ri_content_type :: string
  ri_key :: string
  ri_data :: string
  ri_schema :: 'j

record 'j res_obj =
  res_meta_of :: res_meta
  res_spec_of :: "'j res_spec_item list"

section \<open>The crates\<close>

record 'j serde_json =
  root_from_slice :: "string \<Rightarrow> foreign_error + 'j root_common"
  rule_meta_from_value :: "'j \<Rightarrow> foreign_error + rule_meta"
  link_meta_from_value :: "'j \<Rightarrow> foreign_error + link_meta"
  link_spec_from_value :: "'j \<Rightarrow> foreign_error + link_spec"
  res_meta_from_value :: "'j \<Rightarrow> foreign_error + res_meta"
  res_spec_from_value :: "'j \<Rightarrow> foreign_error + 'j res_spec_item list"
  pointer :: "'j \<Rightarrow> string \<Rightarrow> 'j option"
  as_str :: "'j \<Rightarrow> string option"

record ('j, 'e) crates =
  c_json :: "'j serde_json"
  c_nom :: "'e nom"
  c_unescape :: "string \<Rightarrow> string option"

text \<open>The \<open>?\<close> operator on a \<open>Result\<close> of \<open>serde_json\<close>, in a function returning \<open>DataLoaderError\<close>.\<close>

fun of_serde :: "foreign_error + 'a \<Rightarrow> ('a, data_loader_error) res" where
  "of_serde (Inr x) = Ok x"
| "of_serde (Inl e) = Err (UnmarshalError e)"

lemma of_serde_Ok_iff [simp]: "of_serde r = Ok x \<longleftrightarrow> r = Inr x"
  by (cases r) auto

lemma of_serde_no_unwind [simp]: "of_serde r \<noteq> Panic" "of_serde r \<noteq> Hang"
  by (cases r; simp)+

section \<open>The loaders\<close>

text \<open>The part of \<open>Rule::load_from_slice\<close> after the rule text is found.\<close>

definition rule_from_str :: "('j, 'e) crates \<Rightarrow> rule_meta \<Rightarrow> string \<Rightarrow> (rule_obj, data_loader_error) res" where
  "rule_from_str X meta rule_str =
     (case do_parse (c_nom X) (c_unescape X) rule_str of
        PError e \<Rightarrow> Err (SpecParseError (err_to_string (c_nom X) (PError e)))
      | PFailure e \<Rightarrow> Err (SpecParseError (err_to_string (c_nom X) (PFailure e)))
      | PAbort \<Rightarrow> Hang
      | POk left cond \<Rightarrow>
          if left \<noteq> []
          then Err (SpecParseError (''syntax error in rule, some part not recognised: '' @ left))
          else Ok \<lparr>rule_meta_of = meta, rule_spec_of = \<lparr>rs_rule = cond\<rparr>\<rparr>)"

definition rule_load_from_slice :: "('j, 'e) crates \<Rightarrow> string \<Rightarrow> (rule_obj, data_loader_error) res" where
  "rule_load_from_slice X rule_data =
     and_then (of_serde (root_from_slice (c_json X) rule_data)) (\<lambda>root.
     and_then (of_serde (rule_meta_from_value (c_json X) (rc_meta root))) (\<lambda>meta.
       (case pointer (c_json X) (rc_spec root) ''/rule'' of
          None \<Rightarrow> Err (SpecParseError ''no rule found or rule is not string'')
        | Some v \<Rightarrow> (case as_str (c_json X) v of
            None \<Rightarrow> Err (SpecParseError ''no rule found or rule is not string'')
          | Some rule_str \<Rightarrow> rule_from_str X meta rule_str))))"

definition link_load_from_slice :: "('j, 'e) crates \<Rightarrow> string \<Rightarrow> (link_obj, data_loader_error) res" where
  "link_load_from_slice X link_data =
     and_then (of_serde (root_from_slice (c_json X) link_data)) (\<lambda>root.
     and_then (of_serde (link_meta_from_value (c_json X) (rc_meta root))) (\<lambda>meta.
     and_then (of_serde (link_spec_from_value (c_json X) (rc_spec root))) (\<lambda>spec.
       if \<not> f32_is_finite (ls_pri spec)
       then Err (SpecParseError ''pri field is not a valid float number'')
       else Ok \<lparr>link_meta_of = meta, link_spec_of = spec\<rparr>)))"

definition res_load_from_slice :: "('j, 'e) crates \<Rightarrow> string \<Rightarrow> ('j res_obj, data_loader_error) res" where
  "res_load_from_slice X res_data =
     and_then (of_serde (root_from_slice (c_json X) res_data)) (\<lambda>root.
     and_then (of_serde (res_meta_from_value (c_json X) (rc_meta root))) (\<lambda>meta.
     and_then (of_serde (res_spec_from_value (c_json X) (rc_spec root))) (\<lambda>spec.
       Ok \<lparr>res_meta_of = meta, res_spec_of = spec\<rparr>)))"

lemma rule_load_Ok:
  "rule_load_from_slice X raw = Ok r \<Longrightarrow> \<exists>meta s. rule_from_str X meta s = Ok r"
  by (auto simp: rule_load_from_slice_def split: option.split_asm) blast

lemma rule_load_shape:
  assumes "nom (c_nom X)" and "rule_load_from_slice X raw = Ok r"
  shows "parsed_shape (rs_rule (rule_spec_of r))"
proof -
  from rule_load_Ok [OF assms(2)] obtain meta s where r: "rule_from_str X meta s = Ok r" by blast
  then have "do_parse (c_nom X) (c_unescape X) s = POk [] (rs_rule (rule_spec_of r))"
    by (cases "do_parse (c_nom X) (c_unescape X) s") (auto simp: rule_from_str_def split: if_split_asm)
  then show ?thesis
    using nom.do_parse_iff [OF assms(1)] grammar_shape(6) by metis
qed

lemma rule_load_returns:
  assumes "nom (c_nom X)"
  shows "rule_load_from_slice X raw \<noteq> Panic \<and> rule_load_from_slice X raw \<noteq> Hang"
proof -
  have "do_parse (c_nom X) (c_unescape X) s \<noteq> PAbort" for s
    using nom.expr_depth_enough [OF assms order_refl, of "c_unescape X" s] by auto
  then have "rule_from_str X meta s \<noteq> Panic \<and> rule_from_str X meta s \<noteq> Hang" for meta s
    by (cases "do_parse (c_nom X) (c_unescape X) s") (simp_all add: rule_from_str_def)
  then show ?thesis
    by (auto simp: rule_load_from_slice_def res_elim split: option.split_asm)
qed

lemma link_load_returns: "link_load_from_slice X raw \<noteq> Panic \<and> link_load_from_slice X raw \<noteq> Hang"
  by (auto simp: link_load_from_slice_def res_elim)

lemma link_load_finite: "link_load_from_slice X raw = Ok l \<Longrightarrow> f32_is_finite (ls_pri (link_spec_of l))"
  by (auto simp: link_load_from_slice_def split: if_splits)

lemma res_load_returns: "res_load_from_slice X raw \<noteq> Panic \<and> res_load_from_slice X raw \<noteq> Hang"
  by (auto simp: res_load_from_slice_def res_elim)

text \<open>
  A small instance of \<open>serde_json\<close> for concrete runs: a document is a tree, a file is a key of a
  table of documents.
\<close>

datatype doc =
    DText string
  | DNum f32
  | DBool bool
  | DList "doc list"
  | DObj "(string \<times> doc) list"

fun doc_text :: "doc \<Rightarrow> string option" where
  "doc_text (DText s) = Some s"
| "doc_text _ = None"

fun doc_field :: "string \<Rightarrow> doc \<Rightarrow> doc option" where
  "doc_field k (DObj fs) = map_of fs k"
| "doc_field k _ = None"

fun doc_texts :: "doc \<Rightarrow> string list option" where
  "doc_texts (DList ds) = those (map doc_text ds)"
| "doc_texts _ = None"

definition field_text :: "string \<Rightarrow> doc \<Rightarrow> string option" where
  "field_text k d = Option.bind (doc_field k d) doc_text"

definition or_missing :: "'a option \<Rightarrow> foreign_error + 'a" where
  "or_missing r = (case r of None \<Rightarrow> Inl ''missing field'' | Some x \<Rightarrow> Inr x)"

definition doc_meta :: "doc \<Rightarrow> object_meta option" where
  "doc_meta d = (case (field_text ''desc'' d, Option.bind (doc_field ''tags'' d) doc_texts) of
     (Some a, Some b) \<Rightarrow> Some \<lparr>m_desc = a, m_tags = b\<rparr> | _ \<Rightarrow> None)"

definition doc_link :: "doc \<Rightarrow> link_spec option" where
  "doc_link d = (case (doc_field ''pri'' d, doc_field ''is_neg'' d, field_text ''ver'' d,
       field_text ''rule'' d, Option.bind (doc_field ''res'' d) doc_texts) of
     (Some (DNum p), Some (DBool n), Some v, Some r, Some rs) \<Rightarrow>
       Some \<lparr>ls_pri = p, ls_is_neg = n, ls_ver = v, ls_rule = r, ls_reses = rs\<rparr>
   | _ \<Rightarrow> None)"

definition doc_item :: "doc \<Rightarrow> doc res_spec_item option" where
  "doc_item d = (case (field_text ''content_type'' d, field_text ''key'' d, field_text ''data'' d,
       doc_field ''schema'' d) of
     (Some c, Some k, Some v, Some s) \<Rightarrow>
       Some \<lparr>ri_content_type = c, ri_key = k, ri_data = v, ri_schema = s\<rparr>
   | _ \<Rightarrow> None)"

fun doc_items :: "doc \<Rightarrow> doc res_spec_item list option" where
  "doc_items (DList ds) = those (map doc_item ds)"
| "doc_items _ = None"

definition doc_json :: "(string \<times> doc root_common) list \<Rightarrow> doc serde_json" where
  "doc_json table = \<lparr>root_from_slice = (\<lambda>b. or_missing (map_of table b)),
     rule_meta_from_value = (\<lambda>d. or_missing (doc_meta d)),
     link_meta_from_value = (\<lambda>d. or_missing (doc_meta d)),
     link_spec_from_value = (\<lambda>d. or_missing (doc_link d)),
     res_meta_from_value = (\<lambda>d. or_missing (doc_meta d)),
     res_spec_from_value = (\<lambda>d. or_missing (doc_items d)),
     pointer = (\<lambda>d p. case p of [] \<Rightarrow> Some d | c # k \<Rightarrow> doc_field k d),
     as_str = doc_text\<rparr>"

definition doc_crates :: "(string \<times> doc root_common) list \<Rightarrow> (doc, string \<times> error_kind) crates" where
  "doc_crates table = \<lparr>c_json = doc_json table, c_nom = nom_ref, c_unescape = Some\<rparr>"

lemma doc_crates_sel [simp]:
  "c_json (doc_crates t) = doc_json t" "c_nom (doc_crates t) = nom_ref" "c_unescape (doc_crates t) = Some"
  by (simp_all add: doc_crates_def)

end
