(* ===== verification/Cfg_Index.thy ===== *)
theory Cfg_Index
  imports Storage Model_Objects
begin

text \<open>
  \<open>src/cfg_center/cfgindex.rs\<close> and \<open>mem_store.rs\<close>: the in-memory index of a namespace (rules by
  path, link items by rule path, resources by path) and its builder, which walks \<open>/rules\<close>,
  \<open>/links\<close> and \<open>/reses\<close> below the namespace. An \<open>Arc\<close> of an immutable value is the value.
\<close>

type_synonym 'a index_result = "('a, memory_index_error) res"

section \<open>The index\<close>

record idx_rule_item =
  ir_rule :: condition
  ir_abs_path :: string

record idx_link_item =
  il_pri :: f32
  il_is_neg :: bool
  il_rule_path :: string
  il_abs_res_path :: string
  il_link_path :: string

record key_value_pair =
  kv_content_type :: string
  kv_key :: string
  kv_value :: string

record resource =
  r_data :: "key_value_pair list"
  r_res_path :: string

type_synonym rule_index = "(string, idx_rule_item) hash_map"
type_synonym link_index = "(string, idx_link_item list) hash_map"
type_synonym res_index = "(string, resource) hash_map"

record cfg_index =
  rule_stor :: rule_index
  res_stor :: res_index
  link_stor :: link_index

definition add_rule :: "rule_index \<Rightarrow> string \<Rightarrow> rule_obj \<Rightarrow> rule_index" where
  "add_rule storage rule_path rule =
     storage(rule_path \<mapsto> \<lparr>ir_rule = rs_rule (rule_spec_of rule), ir_abs_path = rule_path\<rparr>)"

text \<open>\<open>iter_related_rules\<close> hands every rule to the callback, in the order \<open>ord\<close> of the map.\<close>

definition iter_related_rules ::
  "string list \<Rightarrow> rule_index \<Rightarrow> (idx_rule_item \<Rightarrow> 'c \<Rightarrow> ('c, 'e) res) \<Rightarrow> 'c \<Rightarrow> ('c, 'e) res" where
  "iter_related_rules ord storage cb c =
     fold (\<lambda>v r. and_then r (cb v)) (hash_values storage ord) (Ok c)"

definition remove_path_type_prefix :: "string \<Rightarrow> (string, 'e) res" where
  "remove_path_type_prefix i = slice_from 6 i"

definition add_link :: "link_index \<Rightarrow> string \<Rightarrow> link_obj \<Rightarrow> (link_index, 'e) res" where
  "add_link storage link_path link =
     (let spec = link_spec_of link in
      and_then (try_map (\<lambda>res_path.
          and_then (remove_path_type_prefix res_path) (\<lambda>p.
            Ok \<lparr>il_pri = ls_pri spec, il_is_neg = ls_is_neg spec, il_rule_path = ls_rule spec,
                il_abs_res_path = p, il_link_path = link_path\<rparr>)) (ls_reses spec)) (\<lambda>v.
      and_then (remove_path_type_prefix (ls_rule spec)) (\<lambda>rule_abs_path.
        Ok (storage(rule_abs_path \<mapsto>
              (case storage rule_abs_path of None \<Rightarrow> [] | Some items \<Rightarrow> items) @ v)))))"

definition get_link_by_rule_path :: "link_index \<Rightarrow> string \<Rightarrow> idx_link_item list option" where
  "get_link_by_rule_path storage rule_path = storage rule_path"

definition add_res :: "res_index \<Rightarrow> string \<Rightarrow> 'j res_obj \<Rightarrow> res_index" where
  "add_res storage res_path res =
     storage(res_path \<mapsto>
       \<lparr>r_data = map (\<lambda>spec. \<lparr>kv_content_type = ri_content_type spec, kv_key = ri_key spec,
                                kv_value = ri_data spec\<rparr>) (res_spec_of res),
        r_res_path = res_path\<rparr>)"

definition get_res_by_path :: "res_index \<Rightarrow> string \<Rightarrow> resource option" where
  "get_res_by_path storage res_path = storage res_path"

section \<open>The builder\<close>

definition rule_index_new :: rule_index where
  [simp]: "rule_index_new = Map.empty"

definition link_index_new :: link_index where
  [simp]: "link_index_new = Map.empty"

definition res_index_new :: res_index where
  [simp]: "res_index_new = Map.empty"

definition empty_index :: cfg_index where
  "empty_index = \<lparr>rule_stor = rule_index_new, res_stor = res_index_new, link_stor = link_index_new\<rparr>"

definition ns_path :: "path \<Rightarrow> string \<Rightarrow> path index_result" where
  "ns_path dir namespace =
     and_then (ok_or (str_strip_prefix ''/'' namespace) NamespaceNotAbsolutePath) (\<lambda>r. Ok (path_join dir r))"

text \<open>The path of an entry without the leading \<open>/rules\<close>, \<open>/links\<close> or \<open>/reses\<close>, as text.\<close>

definition internal_path :: "path \<Rightarrow> dir_item \<Rightarrow> (string, 'e) res" where
  "internal_path dir cur_node =
     (case path_strip_prefix (abs_path cur_node) dir of
        Some p \<Rightarrow> Ok (from_utf8_lossy p) | None \<Rightarrow> Panic)"

text \<open>The callback of the three walks: a directory is passed over, a file is added.\<close>

definition file_cb :: "('c \<Rightarrow> dir_item \<Rightarrow> ('c, walk_dir_error) res) \<Rightarrow> 'c walk_cb" where
  "file_cb add idx cur_node =
     (if is_dir cur_node then (idx, Ok Next)
      else (case add idx cur_node of
              Ok idx' \<Rightarrow> (idx', Ok Next)
            | Err e \<Rightarrow> (idx, Err e)
            | Panic \<Rightarrow> (idx, Panic)
            | Hang \<Rightarrow> (idx, Hang)))"

definition rule_file ::
  "('j, 'e) crates \<Rightarrow> cfg_index storage_backend \<Rightarrow> cfg_index \<Rightarrow> dir_item \<Rightarrow> (cfg_index, walk_dir_error) res" where
  "rule_file X backend index cur_node =
     and_then (map_err WalkStorageError (get_obj_by_hash backend (hash cur_node))) (\<lambda>rule_raw_data.
     and_then (map_err WalkLoaderError (rule_load_from_slice X rule_raw_data)) (\<lambda>rule_obj.
     and_then (internal_path ''/rules'' cur_node) (\<lambda>p.
       Ok (index\<lparr>rule_stor := add_rule (rule_stor index) p rule_obj\<rparr>))))"

definition link_file ::
  "('j, 'e) crates \<Rightarrow> cfg_index storage_backend \<Rightarrow> cfg_index \<Rightarrow> dir_item \<Rightarrow> (cfg_index, walk_dir_error) res" where
  "link_file X backend index cur_node =
     and_then (map_err WalkStorageError (get_obj_by_hash backend (hash cur_node))) (\<lambda>link_raw_data.
     and_then (map_err WalkLoaderError (link_load_from_slice X link_raw_data)) (\<lambda>link_obj.
     and_then (internal_path ''/links'' cur_node) (\<lambda>p.
     and_then (add_link (link_stor index) p link_obj) (\<lambda>stor. Ok (index\<lparr>link_stor := stor\<rparr>)))))"

definition res_file ::
  "('j, 'e) crates \<Rightarrow> cfg_index storage_backend \<Rightarrow> cfg_index \<Rightarrow> dir_item \<Rightarrow> (cfg_index, walk_dir_error) res" where
  "res_file X backend index cur_node =
     and_then (map_err WalkStorageError (get_obj_by_hash backend (hash cur_node))) (\<lambda>res_raw_data.
     and_then (map_err WalkLoaderError (res_load_from_slice X res_raw_data)) (\<lambda>res_group_obj.
     and_then (internal_path ''/reses'' cur_node) (\<lambda>p.
       Ok (index\<lparr>res_stor := add_res (res_stor index) p res_group_obj\<rparr>))))"

text \<open>The \<open>?\<close> after \<open>walk_dir\<close>: the index as the callback left it, or the error.\<close>

fun walked :: "'c \<times> unit storage_result \<Rightarrow> 'c index_result" where
  "walked (index, Ok u) = Ok index"
| "walked (index, Err e) = Err (IndexStorageError e)"
| "walked (index, Panic) = Panic"
| "walked (index, Hang) = Hang"

definition load_rule ::
  "('j, 'e) crates \<Rightarrow> cfg_index storage_backend \<Rightarrow> string \<Rightarrow> cfg_index \<Rightarrow> version_item \<Rightarrow> cfg_index index_result" where
  "load_rule X backend namespace index version =
     and_then (ns_path ''/rules'' namespace) (\<lambda>path.
       walked (walk_dir backend version path (file_cb (rule_file X backend)) index))"

definition load_link ::
  "('j, 'e) crates \<Rightarrow> cfg_index storage_backend \<Rightarrow> string \<Rightarrow> cfg_index \<Rightarrow> version_item \<Rightarrow> cfg_index index_result" where
  "load_link X backend namespace index version =
     and_then (ns_path ''/links'' namespace) (\<lambda>path.
       walked (walk_dir backend version path (file_cb (link_file X backend)) index))"

definition load_res ::
  "('j, 'e) crates \<Rightarrow> cfg_index storage_backend \<Rightarrow> string \<Rightarrow> cfg_index \<Rightarrow> version_item \<Rightarrow> cfg_index index_result" where
  "load_res X backend namespace index version =
     and_then (ns_path ''/reses'' namespace) (\<lambda>path.
       walked (walk_dir backend version path (file_cb (res_file X backend)) index))"

definition index_load ::
  "('j, 'e) crates \<Rightarrow> cfg_index storage_backend \<Rightarrow> string \<Rightarrow> version_item \<Rightarrow> cfg_index index_result" where
  "index_load X backend namespace version =
     and_then (load_rule X backend namespace empty_index version) (\<lambda>cfg_index.
     and_then (load_link X backend namespace cfg_index version) (\<lambda>cfg_index.
       load_res X backend namespace cfg_index version))"

record mem_storage =
  ms_version :: version_item
  ms_indices :: cfg_index

definition mem_storage_new ::
  "('j, 'e) crates \<Rightarrow> cfg_index storage_backend \<Rightarrow> string \<Rightarrow> version_item \<Rightarrow> mem_storage index_result" where
  "mem_storage_new X backend namespace version =
     and_then (index_load X backend namespace version) (\<lambda>idx.
       Ok \<lparr>ms_version = version, ms_indices = idx\<rparr>)"

section \<open>Invariant of an index\<close>

text \<open>
  Every rule is stored under its own path and has the shape of parsed rules, every link item
  has a finite priority and is filed under its rule, and every resource is stored under its own path.
\<close>

definition rules_ok :: "rule_index \<Rightarrow> bool" where
  "rules_ok m \<longleftrightarrow> (\<forall>k r. m k = Some r \<longrightarrow> ir_abs_path r = k \<and> parsed_shape (ir_rule r))"

definition links_ok :: "link_index \<Rightarrow> bool" where
  "links_ok m \<longleftrightarrow> (\<forall>k ls. m k = Some ls \<longrightarrow>
     (\<forall>l\<in>set ls. f32_is_finite (il_pri l) \<and> remove_path_type_prefix (il_rule_path l) = (Ok k :: (string, unit) res)))"

definition reses_ok :: "res_index \<Rightarrow> bool" where
  "reses_ok m \<longleftrightarrow> (\<forall>k r. m k = Some r \<longrightarrow> r_res_path r = k)"

definition index_ok :: "cfg_index \<Rightarrow> bool" where
  "index_ok i \<longleftrightarrow> rules_ok (rule_stor i) \<and> links_ok (link_stor i) \<and> reses_ok (res_stor i)"

lemma empty_index_ok: "index_ok empty_index"
  by (simp add: index_ok_def empty_index_def rules_ok_def links_ok_def reses_ok_def)

lemma add_rule_ok: "\<lbrakk>rules_ok m; parsed_shape (rs_rule (rule_spec_of r))\<rbrakk> \<Longrightarrow> rules_ok (add_rule m p r)"
  by (simp add: rules_ok_def add_rule_def)

lemma add_res_ok: "reses_ok m \<Longrightarrow> reses_ok (add_res m p r)"
  by (simp add: reses_ok_def add_res_def)

text \<open>The paths \<open>remove_path_type_prefix\<close> accepts; on any other it panics.\<close>

definition typed_path :: "string \<Rightarrow> bool" where
  "typed_path s \<longleftrightarrow> length s = 6 \<or> (6 < length s \<and> \<not> utf8_cont (s ! 6))"

lemma remove_path_type_prefix_eq:
  "remove_path_type_prefix s = (if typed_path s then Ok (drop 6 s) else Panic)"
  by (auto simp: remove_path_type_prefix_def slice_from_def typed_path_def)

definition link_items :: "string \<Rightarrow> link_obj \<Rightarrow> idx_link_item list" where
  "link_items p l = map (\<lambda>res_path. \<lparr>il_pri = ls_pri (link_spec_of l),
     il_is_neg = ls_is_neg (link_spec_of l), il_rule_path = ls_rule (link_spec_of l),
     il_abs_res_path = drop 6 res_path, il_link_path = p\<rparr>) (ls_reses (link_spec_of l))"

definition link_paths_ok :: "link_obj \<Rightarrow> bool" where
  "link_paths_ok l \<longleftrightarrow> typed_path (ls_rule (link_spec_of l)) \<and>
     list_all typed_path (ls_reses (link_spec_of l))"

definition link_target :: "link_obj \<Rightarrow> string" where
  "link_target l = drop 6 (ls_rule (link_spec_of l))"

lemma try_map_check:
  "try_map (\<lambda>x. and_then (if P x then Ok (g x) else Panic) (\<lambda>y. Ok (h y))) xs =
     (if list_all P xs then Ok (map (\<lambda>x. h (g x)) xs) else Panic)"
  by (induction xs) simp_all

lemma add_link_eq:
  "add_link m p l =
     (if link_paths_ok l
      then Ok (m(link_target l \<mapsto>
             (case m (link_target l) of None \<Rightarrow> [] | Some items \<Rightarrow> items) @ link_items p l))
      else Panic)"
  unfolding add_link_def Let_def remove_path_type_prefix_eq
  by (subst try_map_check [where P = typed_path and g = "drop 6"])
    (auto simp: link_items_def link_paths_ok_def link_target_def)

lemma add_link_ok:
  assumes "links_ok m" and "f32_is_finite (ls_pri (link_spec_of l))" and "add_link m p l = Ok m'"
  shows "links_ok m'"
  using assms
  by (auto simp: add_link_eq links_ok_def remove_path_type_prefix_eq link_paths_ok_def link_target_def
      link_items_def split: if_splits option.splits)

lemma steady_file_cb: "steady (file_cb add)"
  by (auto simp: steady_def file_cb_def split: res.splits)


text \<open>The files added one after the other, with the first failure.\<close>

fun add_all :: "('c \<Rightarrow> dir_item \<Rightarrow> ('c, 'e) res) \<Rightarrow> dir_item list \<Rightarrow> 'c \<Rightarrow> ('c, 'e) res" where
  "add_all add [] c = Ok c"
| "add_all add (i # is) c = and_then (add c i) (add_all add is)"

lemma walked_visit:
  "walked (visit (file_cb add) items c) =
     map_err (\<lambda>e. IndexStorageError (WalkDirError e)) (add_all add (filter (\<lambda>i. \<not> is_dir i) items) c)"
proof (induction items arbitrary: c)
  case (Cons i items)
  then show ?case by (cases "is_dir i"; cases "add c i") (simp_all add: file_cb_def)
qed simp

lemma rule_file_ok:
  assumes "nom (c_nom X)" and "index_ok i" and "rule_file X B i cur = Ok i'"
  shows "index_ok i'"
  using assms(2,3)
  by (auto simp: rule_file_def index_ok_def intro!: add_rule_ok dest: rule_load_shape [OF assms(1)])

lemma link_file_ok: "\<lbrakk>index_ok i; link_file X B i cur = Ok i'\<rbrakk> \<Longrightarrow> index_ok i'"
  by (auto simp: link_file_def index_ok_def intro: add_link_ok link_load_finite)

lemma res_file_ok: "\<lbrakk>index_ok i; res_file X B i cur = Ok i'\<rbrakk> \<Longrightarrow> index_ok i'"
  by (auto simp: res_file_def index_ok_def intro: add_res_ok)

lemma file_cb_inv:
  "\<lbrakk>I c; \<And>c c'. I c \<Longrightarrow> add c i = Ok c' \<Longrightarrow> I c'\<rbrakk> \<Longrightarrow> I (fst (file_cb add c i))"
  by (auto simp: file_cb_def split: res.split)

lemma walked_Ok: "walked r = Ok c \<Longrightarrow> fst r = c"
  by (cases r rule: walked.cases) auto

context walker
begin

lemma walked_inv:
  assumes "I c" and "\<And>c i c'. I c \<Longrightarrow> add c i = Ok c' \<Longrightarrow> I c'"
    and "walked (walk version path (file_cb add) c) = Ok c'"
  shows "I c'"
proof -
  have "I (fst (walk version path (file_cb add) c))"
    using assms(1) by (rule walk_inv) (rule file_cb_inv, auto intro: assms(2))
  with walked_Ok [OF assms(3)] show ?thesis by simp
qed

end

text \<open>Whatever the backend, an index that loads satisfies the invariant.\<close>

lemma index_load_ok:
  assumes "walker (walk_dir B)" and "nom (c_nom X)" and "index_load X B ns version = Ok i"
  shows "index_ok i"
proof -
  from assms(3) obtain i1 i2 where
    i1: "load_rule X B ns empty_index version = Ok i1" and
    i2: "load_link X B ns i1 version = Ok i2" and
    i3: "load_res X B ns i2 version = Ok i"
    by (auto simp: index_load_def)
  note inv = walker.walked_inv [OF assms(1), where I = index_ok]
  have "index_ok i1"
    using i1 empty_index_ok by (auto simp: load_rule_def intro: inv rule_file_ok [OF assms(2)])
  then have "index_ok i2"
    using i2 by (auto simp: load_link_def intro: inv link_file_ok)
  then show ?thesis
    using i3 by (auto simp: load_res_def intro: inv res_file_ok)
qed

end
