(* ===== verification/Fs_Index.thy ===== *)
theory Fs_Index
  imports Filesystem Cfg_Index
begin

text \<open>
  The index of a namespace over the filesystem backend, on a tree: loading it is building it from
  the parsed files of three directories (\<open>build_index\<close>), and what each store then answers.
\<close>

section \<open>Files of a directory tree\<close>

definition files :: "node \<Rightarrow> (string list \<times> string) list" where
  "files t = List.map_filter (\<lambda>(ns, u). case u of File raw \<Rightarrow> Some (ns, raw) | Dir es \<Rightarrow> None) (entries [] t)"

lemma files_iff: "(ns, raw) \<in> set (files t) \<longleftrightarrow> (ns, File raw) \<in> set (entries [] t)"
  by (force simp: files_def map_filter_def split: node.splits)

lemma files_at:
  assumes "well_named t"
  shows "(ns, raw) \<in> set (files t) \<longleftrightarrow> ns \<noteq> [] \<and> node_at t ns = Some (File raw)"
  using entries_at [OF assms, of ns "File raw" "[]"] node_at_entries [of t ns "File raw" "[]"]
  by (auto simp: files_iff)

lemma file_items:
  assumes "\<And>ns u. is_dir (item ns u) = is_dir_node u"
  shows "filter (\<lambda>i. \<not> is_dir i) (map (\<lambda>(ms, v). item ms v) (entries [] t)) =
    map (\<lambda>(ns, raw). item ns (File raw)) (files t)"
proof -
  have "filter (\<lambda>i. \<not> is_dir i) (map (\<lambda>(ms, v). item ms v) es) =
    map (\<lambda>(ns, raw). item ns (File raw)) (List.map_filter (\<lambda>(ns, u).
      case u of File raw \<Rightarrow> Some (ns, raw) | Dir es \<Rightarrow> None) es)" for es
  proof (induction es)
    case (Cons e es)
    then show ?case by (cases e; cases "snd e") (simp_all add: assms map_filter_def)
  qed (simp add: map_filter_def)
  then show ?thesis by (simp add: files_def)
qed

text \<open>Parsing all files, each with its key in the index; the first failure wins.\<close>

definition parse_all ::
  "(string \<Rightarrow> ('o, data_loader_error) res) \<Rightarrow> (string \<times> string) list
    \<Rightarrow> ((string \<times> 'o) list, data_loader_error) res" where
  "parse_all load kfs = try_map (\<lambda>(k, raw). and_then (load raw) (\<lambda>obj. Ok (k, obj))) kfs"

definition keyed :: "string list \<Rightarrow> node \<Rightarrow> (string \<times> string) list" where
  "keyed ks t = map (\<lambda>(ns, raw). (join_on slash (ks @ ns), raw)) (files t)"

lemma add_all_parse:
  assumes "\<And>x c. x \<in> set xs \<Longrightarrow> add c (item x) =
      and_then (map_err WalkLoaderError (load (snd (kr x)))) (\<lambda>obj. Ok (put c (fst (kr x)) obj))"
  shows "add_all add (map item xs) c =
    map_err WalkLoaderError (and_then (parse_all load (map kr xs))
      (\<lambda>kos. Ok (fold (\<lambda>(k, obj) c. put c k obj) kos c)))"
  using assms
proof (induction xs arbitrary: c)
  case (Cons x xs)
  obtain k raw where x: "kr x = (k, raw)" by force
  show ?case
  proof (cases "load raw")
    case (Ok obj)
    with Cons x have "add_all add (map item (x # xs)) c = add_all add (map item xs) (put c k obj)"
      by simp
    also have "\<dots> = map_err WalkLoaderError (and_then (parse_all load (map kr xs))
        (\<lambda>kos. Ok (fold (\<lambda>(k, obj) c. put c k obj) kos (put c k obj))))"
      using Cons by simp
    also have "\<dots> = map_err WalkLoaderError (and_then (parse_all load (map kr (x # xs)))
        (\<lambda>kos. Ok (fold (\<lambda>(k, obj) c. put c k obj) kos c)))"
      by (cases "parse_all load (map kr xs)") (simp_all add: parse_all_def x Ok)
    finally show ?thesis .
  qed (use Cons.prems [of x c] x in \<open>simp_all add: parse_all_def\<close>)
qed (simp add: parse_all_def)

section \<open>Namespaces\<close>

text \<open>The namespace with the names \<open>ks\<close>, as clients write it: \<open>/\<close>, or \<open>/a/b/\<close>.\<close>

definition ns_name :: "string list \<Rightarrow> string" where
  "ns_name ks = (if ks = [] then ''/'' else abs_of ks @ ''/'')"

lemma ns_path_name:
  assumes "\<forall>k\<in>set (d # ks). good_name k"
  shows "ns_path (abs_of [d]) (ns_name ks) = Ok (abs_of (d # ks) @ ''/'')"
proof (cases ks)
  case Nil
  have "d \<noteq> []" "last d \<noteq> slash" using assms by auto
  with Nil show ?thesis by (simp add: ns_path_def ns_name_def path_join_def has_root_def abs_of_def)
next
  case (Cons k kt)
  obtain c cs where k: "k = c # cs" "c \<noteq> slash" using assms Cons by (cases k) (auto simp: good_name_def)
  have "d \<noteq> []" "last d \<noteq> slash" using assms by auto
  with Cons k show ?thesis
    by (simp add: ns_path_def ns_name_def path_join_def has_root_def abs_of_def join_on_head join_on_Cons)
qed

lemma abs_of_snoc: "ns \<noteq> [] \<Longrightarrow> abs_of (ns @ [n]) = abs_of ns @ slash # n"
  by (simp add: abs_of_def join_on_snoc)

lemma path_below_namespace:
  assumes "\<forall>n\<in>set (ks @ ns). good_name n" and "ks \<noteq> []" and "ns \<noteq> []"
  shows "foldl path_join (abs_of ks @ ''/'') ns = abs_of (ks @ ns)"
proof -
  obtain m ms where ns: "ns = m # ms" using assms(3) by (cases ns) auto
  have "path_join (abs_of ks @ ''/'') m = abs_of (ks @ [m])"
    using assms ns by (simp add: path_join_def abs_of_snoc)
  moreover have "foldl path_join (abs_of us) ms = abs_of (us @ ms)"
    if "\<forall>n\<in>set (us @ ms). good_name n" for us
    using that by (induction ms arbitrary: us) auto
  ultimately show ?thesis using assms(1) ns by simp
qed

text \<open>The key of a file: its path without the first component.\<close>

lemma internal_path_item:
  assumes "\<forall>n\<in>set (d # ks @ ns). good_name n \<and> utf8_valid n" and "ns \<noteq> []"
    and "abs_path i = foldl path_join (abs_of (d # ks) @ ''/'') ns"
  shows "internal_path (abs_of [d]) i = Ok (join_on slash (ks @ ns))"
proof -
  have "abs_path i = abs_of (d # ks @ ns)"
    using path_below_namespace [of "d # ks" ns] assms by simp
  moreover have "path_strip_prefix (abs_of (d # ks @ ns)) (abs_of [d]) = Some (join_on slash (ks @ ns))"
    using path_strip_prefix_abs_of [of d "ks @ ns"] assms(1) by (simp add: abs_of_def)
  moreover have "utf8_valid (join_on slash (ks @ ns))"
    using assms(1) by (intro utf8_valid_join_on) auto
  ultimately show ?thesis by (simp add: internal_path_def lossy_valid)
qed

section \<open>Loading is building\<close>

definition link_checked :: "('j, 'e) crates \<Rightarrow> string \<Rightarrow> (link_obj, data_loader_error) res" where
  "link_checked X raw =
     and_then (link_load_from_slice X raw) (\<lambda>l. if link_paths_ok l then Ok l else Panic)"

definition file_links :: "link_index \<Rightarrow> string \<Rightarrow> link_obj \<Rightarrow> link_index" where
  "file_links m p l =
     m(link_target l \<mapsto> (case m (link_target l) of None \<Rightarrow> [] | Some items \<Rightarrow> items) @ link_items p l)"

definition build_index ::
  "(string \<times> rule_obj) list \<Rightarrow> (string \<times> link_obj) list \<Rightarrow> (string \<times> 'j res_obj) list \<Rightarrow> cfg_index" where
  "build_index rs ls ss =
     \<lparr>rule_stor = fold (\<lambda>(k, r) m. add_rule m k r) rs Map.empty,
      res_stor = fold (\<lambda>(k, r) m. add_res m k r) ss Map.empty,
      link_stor = fold (\<lambda>(k, l) m. file_links m k l) ls Map.empty\<rparr>"

lemma fold_rule_stor:
  "fold (\<lambda>(k, r) i. i\<lparr>rule_stor := add_rule (rule_stor i) k r\<rparr>) rs i =
     i\<lparr>rule_stor := fold (\<lambda>(k, r) m. add_rule m k r) rs (rule_stor i)\<rparr>"
  by (induction rs arbitrary: i) auto

lemma fold_link_stor:
  "fold (\<lambda>(k, l) i. i\<lparr>link_stor := file_links (link_stor i) k l\<rparr>) ls i =
     i\<lparr>link_stor := fold (\<lambda>(k, l) m. file_links m k l) ls (link_stor i)\<rparr>"
  by (induction ls arbitrary: i) auto

lemma fold_res_stor:
  "fold (\<lambda>(k, r) i. i\<lparr>res_stor := add_res (res_stor i) k r\<rparr>) ss i =
     i\<lparr>res_stor := fold (\<lambda>(k, r) m. add_res m k r) ss (res_stor i)\<rparr>"
  by (induction ss arbitrary: i) auto

text \<open>The directory \<open>d\<close> of the namespace \<open>ks\<close> in a version of the tree.\<close>

definition fs_dir_of :: "node \<Rightarrow> fs_backend \<Rightarrow> version_item \<Rightarrow> string \<Rightarrow> string list \<Rightarrow> node" where
  "fs_dir_of root b version d ks = fs_subtree root b version (abs_of (d # ks) @ ''/'')"

lemma fs_dir_walk:
  fixes root :: node and nt :: notify and b :: fs_backend
  defines "B \<equiv> fs_storage (tree_os root) nt b"
  assumes names: "\<forall>n\<in>set (d # ks). good_name n \<and> utf8_valid n"
    and dir: "is_dir_node (fs_dir_of root b version d ks)"
    and add: "\<And>c cur raw k. get_obj_by_hash B (hash cur) = Ok raw \<Longrightarrow>
      internal_path (abs_of [d]) cur = (Ok k :: (string, walk_dir_error) res) \<Longrightarrow>
      add c cur = and_then (map_err WalkLoaderError (load raw)) (\<lambda>obj. Ok (put c k obj))"
  shows "walked (walk_dir B version (abs_of (d # ks) @ ''/'') (file_cb add) c) =
    map_err (\<lambda>e. IndexStorageError (WalkDirError (WalkLoaderError e)))
      (and_then (parse_all load (keyed ks (fs_dir_of root b version d ks)))
        (\<lambda>kos. Ok (fold (\<lambda>(k, obj) c. put c k obj) kos c)))"
proof -
  let ?p = "abs_of (d # ks) @ ''/''" and ?t = "fs_dir_of root b version d ks"
  let ?item = "fs_item b version ?p"
  let ?its = "files ?t"
  have t: "?t = fs_subtree root b version ?p" by (simp add: fs_dir_of_def)
  have wt: "well_named ?t" unfolding t by (rule fs_walk.named)
  have step: "add c (?item ns (File raw)) =
      and_then (map_err WalkLoaderError (load raw)) (\<lambda>obj. Ok (put c (join_on slash (ks @ ns)) obj))"
    if "(ns, raw) \<in> set ?its" for ns raw c
  proof (rule add)
    from that files_at [OF wt] have ns: "ns \<noteq> []" "node_at ?t ns = Some (File raw)" by auto
    with fs_get_obj_entry show "get_obj_by_hash B (hash (?item ns (File raw))) = Ok raw"
      by (simp add: B_def fs_storage_def t)
    show "internal_path (abs_of [d]) (?item ns (File raw)) = Ok (join_on slash (ks @ ns))"
      using names node_at_names [OF ns(2) wt] ns(1) by (intro internal_path_item) auto
  qed
  have "walked (walk_dir B version ?p (file_cb add) c) =
      map_err (\<lambda>e. IndexStorageError (WalkDirError e)) (add_all add (map (\<lambda>(ns, raw). ?item ns (File raw)) ?its) c)"
    unfolding B_def using dir
    by (simp add: fs_walk_dir [OF steady_file_cb] walked_visit file_items t)
  also have "add_all add (map (\<lambda>(ns, raw). ?item ns (File raw)) ?its) c =
      map_err WalkLoaderError (and_then (parse_all load (keyed ks ?t))
        (\<lambda>kos. Ok (fold (\<lambda>(k, obj) c. put c k obj) kos c)))"
    unfolding keyed_def
  proof (rule add_all_parse)
    fix x c
    assume x: "x \<in> set ?its"
    obtain ns raw where "x = (ns, raw)" by force
    with x step show "add c (case x of (ns, raw) \<Rightarrow> ?item ns (File raw)) =
        and_then (map_err WalkLoaderError (load (snd (case x of (ns, raw) \<Rightarrow> (join_on slash (ks @ ns), raw)))))
          (\<lambda>obj. Ok (put c (fst (case x of (ns, raw) \<Rightarrow> (join_on slash (ks @ ns), raw))) obj))"
      by simp
  qed
  finally show ?thesis
    by (cases "parse_all load (keyed ks ?t)") simp_all
qed


text \<open>A link whose file is read is filed under its rule, or does not load.\<close>

lemma link_file_adds:
  assumes "get_obj_by_hash B (hash cur) = Ok raw"
    and "internal_path ''/links'' cur = (Ok k :: (string, walk_dir_error) res)"
  shows "link_file X B c cur = and_then (map_err WalkLoaderError (link_checked X raw))
    (\<lambda>l. Ok (c\<lparr>link_stor := file_links (link_stor c) k l\<rparr>))"
  using assms by (cases "link_load_from_slice X raw")
    (simp_all add: link_file_def link_checked_def add_link_eq file_links_def)

section \<open>Loading on every branch\<close>

text \<open>
  What the listing of the directory \<open>d\<close> of a namespace gives: the directory, or the error for a
  version that is not text, a file in its place, or nothing there.
\<close>

definition fs_listing :: "node \<Rightarrow> fs_backend \<Rightarrow> version_item \<Rightarrow> string \<Rightarrow> string list \<Rightarrow> node storage_result" where
  "fs_listing root b version d ks =
     (if \<not> utf8_valid (v_id version) then Err (Utf8Error (utf8_error_text (v_id version)))
      else (case os_node root (versioned b version (abs_of (d # ks) @ ''/'')) of
          Some (Dir es) \<Rightarrow> Ok (Dir es)
        | Some (File raw) \<Rightarrow> Err (IOError ''Not a directory (os error 20)'')
        | None \<Rightarrow> Err (IOError ''No such file or directory (os error 2)'')))"

text \<open>The objects of a directory: the error of its listing, or of the first file that does not load.\<close>

definition dir_objects ::
  "(string \<Rightarrow> ('o, data_loader_error) res) \<Rightarrow> node \<Rightarrow> fs_backend \<Rightarrow> version_item \<Rightarrow> string \<Rightarrow> string list
    \<Rightarrow> (string \<times> 'o) list index_result" where
  "dir_objects load root b version d ks =
     and_then (map_err IndexStorageError (fs_listing root b version d ks)) (\<lambda>t.
       map_err (\<lambda>e. IndexStorageError (WalkDirError (WalkLoaderError e))) (parse_all load (keyed ks t)))"

lemma fs_listing_dir:
  assumes "well_named root" and "utf8_valid (base_path b)" and "\<forall>n\<in>set (d # ks). good_name n \<and> utf8_valid n"
    and "fs_listing root b version d ks = Ok t"
  shows "fs_dir_of root b version d ks = t \<and> is_dir_node t"
proof -
  have "utf8_valid (abs_of (d # ks) @ ''/'')"
    using assms(3) utf8_valid_join_on [of "d # ks"]
    by (simp add: abs_of_def utf8_valid_ascii_Cons utf8_valid_at_ascii del: join_on.simps)
  with assms show ?thesis
    by (auto simp: fs_listing_def fs_dir_of_def fs_subtree_def split: if_splits option.splits node.splits)
qed

lemma dir_listed:
  assumes "is_dir_node (fs_dir_of root b version d ks)"
  shows "fs_listing root b version d ks = Ok (fs_dir_of root b version d ks) \<and> well_named root \<and>
    utf8_valid (base_path b)"
  using assms by (auto simp: fs_listing_def fs_dir_of_def fs_subtree_def split: if_splits option.splits node.splits)

lemma fs_listing_error:
  assumes "fs_listing root b version d ks = Err e"
  shows "walk_dir (fs_storage (tree_os root) nt b) version (abs_of (d # ks) @ ''/'') cb c = (c, Err e)"
proof -
  have "fs_list_dir (tree_os root) b version (abs_of (d # ks) @ ''/'') = Err e"
    using assms by (auto simp: fs_listing_def fs_list_dir_def get_versioned_path_eq tree_os_def
        split: if_splits option.splits node.splits)
  then show ?thesis by (simp add: fs_storage_def default_walk_dir_def walk_loop.simps)
qed

lemma fs_listing_cases: "(\<exists>t. fs_listing root b version d ks = Ok t) \<or> (\<exists>e. fs_listing root b version d ks = Err e)"
  by (auto simp: fs_listing_def split: option.split node.split)

lemma fs_dir_load:
  fixes root :: node and nt :: notify and b :: fs_backend
  defines "B \<equiv> fs_storage (tree_os root) nt b"
  assumes "\<forall>n\<in>set (d # ks). good_name n \<and> utf8_valid n" and "well_named root" and "utf8_valid (base_path b)"
    and "\<And>c cur raw k. get_obj_by_hash B (hash cur) = Ok raw \<Longrightarrow>
      internal_path (abs_of [d]) cur = (Ok k :: (string, walk_dir_error) res) \<Longrightarrow>
      add c cur = and_then (map_err WalkLoaderError (load raw)) (\<lambda>obj. Ok (put c k obj))"
  shows "walked (walk_dir B version (abs_of (d # ks) @ ''/'') (file_cb add) c) =
    and_then (dir_objects load root b version d ks) (\<lambda>kos. Ok (fold (\<lambda>(k, obj) c. put c k obj) kos c))"
  using fs_listing_cases [of root b version d ks]
proof (elim disjE exE)
  fix t assume t: "fs_listing root b version d ks = Ok t"
  have dir: "is_dir_node (fs_dir_of root b version d ks)" and "fs_dir_of root b version d ks = t"
    using fs_listing_dir [OF assms(3,4,2) t] by simp_all
  with fs_dir_walk [OF assms(2) dir, of nt add load put c] assms(5) show ?thesis
    unfolding B_def by (cases "parse_all load (keyed ks t)") (simp_all add: dir_objects_def t)
next
  fix e assume e: "fs_listing root b version d ks = Err e"
  then show ?thesis by (simp add: B_def dir_objects_def fs_listing_error [OF e])
qed

text \<open>The three loads of a namespace, on a tree.\<close>

lemma ns_dir:
  assumes "d \<in> {''rules'', ''links'', ''reses''}" and "\<forall>n\<in>set ks. good_name n \<and> utf8_valid n"
  shows "\<forall>n\<in>set (d # ks). good_name n \<and> utf8_valid n" and "abs_of [d] = CHR ''/'' # d"
    and "ns_path (CHR ''/'' # d) (ns_name ks) = (Ok (abs_of (d # ks) @ ''/'') :: path index_result)"
proof -
  have "good_name d \<and> utf8_valid d"
    using assms(1) by (auto simp: good_name_def ascii_valid)
  then show *: "\<forall>n\<in>set (d # ks). good_name n \<and> utf8_valid n" using assms(2) by simp
  show a: "abs_of [d] = CHR ''/'' # d" by (simp add: abs_of_def)
  show "ns_path (CHR ''/'' # d) (ns_name ks) = (Ok (abs_of (d # ks) @ ''/'') :: path index_result)"
    using ns_path_name [of d ks] * a by auto
qed

lemma load_dirs:
  fixes b :: fs_backend and nt :: notify
  assumes "\<forall>n\<in>set ks. good_name n \<and> utf8_valid n" and "well_named root" and "utf8_valid (base_path b)"
  shows "load_rule X (fs_storage (tree_os root) nt b) (ns_name ks) i version =
      and_then (dir_objects (rule_load_from_slice X) root b version ''rules'' ks) (\<lambda>rs.
        Ok (i\<lparr>rule_stor := fold (\<lambda>(k, r) m. add_rule m k r) rs (rule_stor i)\<rparr>))" (is ?rule)
    and "load_link X (fs_storage (tree_os root) nt b) (ns_name ks) i version =
      and_then (dir_objects (link_checked X) root b version ''links'' ks) (\<lambda>ls.
        Ok (i\<lparr>link_stor := fold (\<lambda>(k, l) m. file_links m k l) ls (link_stor i)\<rparr>))" (is ?link)
    and "load_res X (fs_storage (tree_os root) nt b) (ns_name ks) i version =
      and_then (dir_objects (res_load_from_slice X) root b version ''reses'' ks) (\<lambda>ss.
        Ok (i\<lparr>res_stor := fold (\<lambda>(k, r) m. add_res m k r) ss (res_stor i)\<rparr>))" (is ?res)
proof -
  let ?B = "fs_storage (tree_os root) nt b :: cfg_index storage_backend"
  note d = ns_dir [OF _ assms(1)]
  show ?rule
    using fs_dir_load [OF d(1) assms(2,3), of "''rules''" nt "rule_file X ?B" "rule_load_from_slice X"
        "\<lambda>i k r. i\<lparr>rule_stor := add_rule (rule_stor i) k r\<rparr>" version i] d(2,3) [of "''rules''"]
    by (simp add: load_rule_def rule_file_def fold_rule_stor)
  show ?link
    using fs_dir_load [OF d(1) assms(2,3), of "''links''" nt "link_file X ?B" "link_checked X"
        "\<lambda>i k l. i\<lparr>link_stor := file_links (link_stor i) k l\<rparr>" version i] d(2,3) [of "''links''"]
    by (simp add: load_link_def fold_link_stor link_file_adds)
  show ?res
    using fs_dir_load [OF d(1) assms(2,3), of "''reses''" nt "res_file X ?B" "res_load_from_slice X"
        "\<lambda>i k r. i\<lparr>res_stor := add_res (res_stor i) k r\<rparr>" version i] d(2,3) [of "''reses''"]
    by (simp add: load_res_def res_file_def fold_res_stor)
qed

text \<open>
  Loading a namespace: the index built from all its files, or the error of the first directory that
  cannot be listed or the first file that does not load.
\<close>

lemma index_load_tree:
  assumes "\<forall>n\<in>set ks. good_name n \<and> utf8_valid n" and "well_named root" and "utf8_valid (base_path b)"
  shows "index_load X (fs_storage (tree_os root) nt b) (ns_name ks) version =
    and_then (dir_objects (rule_load_from_slice X) root b version ''rules'' ks) (\<lambda>rs.
    and_then (dir_objects (link_checked X) root b version ''links'' ks) (\<lambda>ls.
    and_then (dir_objects (res_load_from_slice X) root b version ''reses'' ks) (\<lambda>ss.
      Ok (build_index rs ls ss))))"
  unfolding index_load_def load_dirs [OF assms]
  by (cases "dir_objects (rule_load_from_slice X) root b version ''rules'' ks";
      cases "dir_objects (link_checked X) root b version ''links'' ks";
      cases "dir_objects (res_load_from_slice X) root b version ''reses'' ks")
    (simp_all add: build_index_def empty_index_def)

text \<open>When the three directories are there, what is left to go wrong are the files.\<close>

lemma index_load_fs:
  assumes "\<forall>n\<in>set ks. good_name n \<and> utf8_valid n"
    and "\<forall>d\<in>{''rules'', ''links'', ''reses''}. is_dir_node (fs_dir_of root b version d ks)"
  shows "index_load X (fs_storage (tree_os root) nt b) (ns_name ks) version =
    map_err (\<lambda>e. IndexStorageError (WalkDirError (WalkLoaderError e)))
      (and_then (parse_all (rule_load_from_slice X) (keyed ks (fs_dir_of root b version ''rules'' ks))) (\<lambda>rs.
       and_then (parse_all (link_checked X) (keyed ks (fs_dir_of root b version ''links'' ks))) (\<lambda>ls.
       and_then (parse_all (res_load_from_slice X) (keyed ks (fs_dir_of root b version ''reses'' ks))) (\<lambda>ss.
         Ok (build_index rs ls ss)))))"
proof -
  have listed: "fs_listing root b version d ks = Ok (fs_dir_of root b version d ks) \<and> well_named root \<and>
      utf8_valid (base_path b)" if "d \<in> {''rules'', ''links'', ''reses''}" for d
    using dir_listed assms(2) that by blast
  then have ok: "well_named root" "utf8_valid (base_path b)" by blast+
  show ?thesis
    unfolding index_load_tree [OF assms(1) ok] dir_objects_def
    by (cases "parse_all (rule_load_from_slice X) (keyed ks (fs_dir_of root b version ''rules'' ks))";
        cases "parse_all (link_checked X) (keyed ks (fs_dir_of root b version ''links'' ks))";
        cases "parse_all (res_load_from_slice X) (keyed ks (fs_dir_of root b version ''reses'' ks))")
      (simp_all add: listed)
qed

text \<open>A namespace that does not begin with a separator has no index, over any backend.\<close>

lemma index_load_relative:
  assumes "\<not> starts_with ns ''/''"
  shows "index_load X B ns version = Err NamespaceNotAbsolutePath"
proof -
  have "str_strip_prefix ''/'' ns = None"
    using assms by (cases ns) (auto simp: starts_with_def)
  then show ?thesis by (simp add: index_load_def load_rule_def ns_path_def)
qed

text \<open>What it takes to load a namespace from a version of a directory tree.\<close>

definition namespace_files ::
  "('j, 'e) crates \<Rightarrow> node \<Rightarrow> fs_backend \<Rightarrow> version_item \<Rightarrow> string list
    \<Rightarrow> (string \<times> rule_obj) list \<Rightarrow> (string \<times> link_obj) list \<Rightarrow> (string \<times> 'j res_obj) list \<Rightarrow> bool" where
  "namespace_files X root b v ks rs ls ss \<longleftrightarrow>
     (\<forall>n\<in>set ks. good_name n \<and> utf8_valid n) \<and>
     (\<forall>d\<in>{''rules'', ''links'', ''reses''}. is_dir_node (fs_dir_of root b v d ks)) \<and>
     parse_all (rule_load_from_slice X) (keyed ks (fs_dir_of root b v ''rules'' ks)) = Ok rs \<and>
     parse_all (link_checked X) (keyed ks (fs_dir_of root b v ''links'' ks)) = Ok ls \<and>
     parse_all (res_load_from_slice X) (keyed ks (fs_dir_of root b v ''reses'' ks)) = Ok ss"

section \<open>What the stores answer\<close>

lemma build_rule_stor:
  "rule_stor (build_index rs ls ss) k =
     map_option (\<lambda>r. \<lparr>ir_rule = rs_rule (rule_spec_of r), ir_abs_path = k\<rparr>) (map_of (rev rs) k)"
proof -
  have "fold (\<lambda>(k, r) m. add_rule m k r) rs m k =
      (case map_of (rev rs) k of None \<Rightarrow> m k
       | Some r \<Rightarrow> Some \<lparr>ir_rule = rs_rule (rule_spec_of r), ir_abs_path = k\<rparr>)" for m
    by (induction rs arbitrary: m) (auto simp: add_rule_def map_add_def split: option.splits)
  then show ?thesis by (simp add: build_index_def split: option.split)
qed

lemma build_res_stor:
  "res_stor (build_index rs ls ss) k =
     map_option (\<lambda>r. the (add_res Map.empty k r k)) (map_of (rev ss) k)"
proof -
  have "fold (\<lambda>(k, r) m. add_res m k r) ss m k =
      (case map_of (rev ss) k of None \<Rightarrow> m k | Some r \<Rightarrow> add_res Map.empty k r k)" for m
    by (induction ss arbitrary: m) (auto simp: add_res_def map_add_def split: option.splits)
  then show ?thesis by (simp add: build_index_def add_res_def split: option.split)
qed

lemma build_link_stor:
  "link_stor (build_index rs ls ss) rp =
     (let mine = filter (\<lambda>(k, l). link_target l = rp) ls in
      if mine = [] then None else Some (concat (map (\<lambda>(k, l). link_items k l) mine)))"
proof -
  have "fold (\<lambda>(k, l) m. file_links m k l) ls m rp =
      (let mine = filter (\<lambda>(k, l). link_target l = rp) ls in
       if mine = [] then m rp
       else Some ((case m rp of None \<Rightarrow> [] | Some items \<Rightarrow> items) @ concat (map (\<lambda>(k, l). link_items k l) mine)))" for m
  proof (induction ls arbitrary: m)
    case (Cons kl ls)
    obtain k l where kl: "kl = (k, l)" by force
    have "file_links m k l rp =
        (if link_target l = rp then Some ((case m rp of None \<Rightarrow> [] | Some items \<Rightarrow> items) @ link_items k l)
         else m rp)"
      by (simp add: file_links_def)
    then show ?case by (simp add: Cons.IH kl Let_def)
  qed simp
  from this [of Map.empty] show ?thesis by (simp add: build_index_def Let_def)
qed

text \<open>To load a concrete document of \<open>doc_crates\<close>, \<open>simp add: load_eval\<close>.\<close>

declare rule_load_from_slice_def [load_eval] rule_from_str_def [load_eval] link_checked_def [load_eval]
  link_load_from_slice_def [load_eval] res_load_from_slice_def [load_eval] doc_json_def [load_eval]
  or_missing_def [load_eval] doc_meta_def [load_eval] doc_link_def [load_eval] doc_item_def [load_eval]
  field_text_def [load_eval] f32_is_finite_def [load_eval] f32_mag_def [load_eval]
  link_paths_ok_def [load_eval] typed_path_def [load_eval] utf8_cont_def [load_eval]

text \<open>To parse all files of a concrete directory.\<close>

lemmas dir_eval = parse_all_def keyed_def files_def List.map_filter_simps

end
