(* ===== verification/Rule_Properties.thy ===== *)
theory Rule_Properties
  imports Rule_Parser_Correct
begin

text \<open>
  The properties of \<open>src/parser/rule.rs\<close> and \<open>src/rule_engine/mod.rs\<close>: parsing is deciding the
  grammar, always returns, builds conditions whose evaluation cannot panic, and undoes printing.
\<close>

section \<open>A printer\<close>

definition print_literal :: "string \<Rightarrow> string" where
  "print_literal v = CHR 0x22 # v @ [CHR 0x22]"

fun print_cond :: "condition \<Rightarrow> string"
  and print_unit :: "condition \<Rightarrow> string"
where
  "print_cond (CLeaf l oper r) =
     l @ ''=='' @ (case r of Some (Str v) \<Rightarrow> print_literal v | None \<Rightarrow> [])"
| "print_cond (CNot c) = CHR ''!'' # print_unit c"
| "print_cond (CAnd []) = []"
| "print_cond (CAnd (c # cs)) = print_unit c @ concat (map (\<lambda>d. ''&&'' @ print_unit d) cs)"
| "print_cond (COr []) = []"
| "print_cond (COr (c # cs)) = print_unit c @ concat (map (\<lambda>d. ''||'' @ print_unit d) cs)"
| "print_unit (CLeaf l oper r) = print_cond (CLeaf l oper r)"
| "print_unit c = CHR ''('' # print_cond c @ '')''"

text \<open>
  Conditions of the parser's shape whose values need no escape. The literal of the empty value is two
  quotes, and the parser hands both to \<open>unescape\<close>.
\<close>

definition literal_text :: "string \<Rightarrow> string" where
  "literal_text v = (if v = [] then [CHR 0x22, CHR 0x22] else v)"

fun printable :: "(string \<Rightarrow> string option) \<Rightarrow> condition \<Rightarrow> bool" where
  "printable un (CAnd cs) \<longleftrightarrow> 2 \<le> length cs \<and> list_all (printable un) cs"
| "printable un (COr cs) \<longleftrightarrow> 2 \<le> length cs \<and> list_all (printable un) cs"
| "printable un (CNot c) \<longleftrightarrow> printable un c"
| "printable un (CLeaf l oper r) \<longleftrightarrow> is_ident l \<and>
     (case r of None \<Rightarrow> False
      | Some (Str v) \<Rightarrow> list_all lit_char v \<and> un (literal_text v) = Some (literal_text v))"

text \<open>What is read back: the condition, with two quotes for every empty value.\<close>

fun read_back :: "condition \<Rightarrow> condition" where
  "read_back (CAnd cs) = CAnd (map read_back cs)"
| "read_back (COr cs) = COr (map read_back cs)"
| "read_back (CNot c) = CNot (read_back c)"
| "read_back (CLeaf l oper r) = CLeaf l oper (map_option (\<lambda>v. case v of Str s \<Rightarrow> Str (literal_text s)) r)"

fun no_empty_value :: "condition \<Rightarrow> bool" where
  "no_empty_value (CAnd cs) \<longleftrightarrow> list_all no_empty_value cs"
| "no_empty_value (COr cs) \<longleftrightarrow> list_all no_empty_value cs"
| "no_empty_value (CNot c) \<longleftrightarrow> no_empty_value c"
| "no_empty_value (CLeaf l oper r) \<longleftrightarrow> r \<noteq> Some (Str [])"

lemma map_same_iff: "map f xs = xs \<longleftrightarrow> (\<forall>x\<in>set xs. f x = x)"
  by (induction xs) auto

lemma read_back_iff: "read_back c = c \<longleftrightarrow> no_empty_value c"
proof (induction c rule: read_back.induct)
  case (4 l oper r)
  show ?case
  proof (cases r)
    case (Some v)
    then show ?thesis by (cases v) (simp add: literal_text_def)
  qed simp
qed (simp_all add: list_all_iff map_same_iff)

lemma g_ands_units:
  "\<forall>d\<in>set cs. g_unit un (f d) (print_unit d)
    \<Longrightarrow> g_ands un (map f cs) (concat (map (\<lambda>d. ''&&'' @ print_unit d) cs))"
proof (induction cs)
  case (Cons c cs)
  then have "g_not un (f c) (print_unit c)" by (auto intro: not_unit)
  from ands_Cons [OF _ this, of "[]"] Cons show ?case by simp
qed (simp add: ands_Nil)

lemma g_ors_units:
  "\<forall>d\<in>set cs. g_unit un (f d) (print_unit d)
    \<Longrightarrow> g_ors un (map f cs) (concat (map (\<lambda>d. ''||'' @ print_unit d) cs))"
proof (induction cs)
  case (Cons c cs)
  then have "g_and un (f c) (print_unit c)" by (auto intro: not_unit and_one)
  from ors_Cons [OF _ this, of "[]"] Cons show ?case by simp
qed (simp add: ors_Nil)

lemma g_leaf_tight:
  assumes "is_ident l" and "quoted q raw" and "un raw = Some v"
  shows "g_leaf un (CLeaf l OpEq (Some (Str v))) (l @ ''=='' @ q)"
  using leaf [of l "[]" "[]" q raw un v "[]"] assms by simp

lemma quoted_literal:
  assumes "list_all lit_char v"
  shows "quoted (print_literal v) (literal_text v)"
proof (cases "v = []")
  case True
  with quoted_empty show ?thesis by (simp add: print_literal_def literal_text_def)
next
  case False
  moreover have "lit_text v" using assms by (simp add: list_all_iff ref_nom.lit_text_chars)
  ultimately show ?thesis using quoted_text [of v] by (simp add: print_literal_def literal_text_def)
qed

lemma g_leaf_print:
  assumes "printable un (CLeaf l oper r)"
  shows "g_leaf un (read_back (CLeaf l oper r)) (print_cond (CLeaf l oper r))"
proof -
  from assms obtain v where r: "r = Some (Str v)"
    by (auto split: option.splits) (metis rvalue.exhaust)
  with assms have v: "list_all lit_char v" "un (literal_text v) = Some (literal_text v)" "is_ident l"
    by auto
  from g_leaf_tight [where un = un, OF v(3) quoted_literal [OF v(1)] v(2)]
  show ?thesis using r by (cases oper) simp
qed

lemma g_or_of_unit: "g_unit un c s \<Longrightarrow> g_or un c s"
  by (intro or_one and_one not_unit)

lemma g_unit_of_or: "g_or un c s \<Longrightarrow> g_unit un c (CHR ''('' # s @ '')'')"
  using unit_paren [where ?w1.0 = "[]" and ?w2.0 = "[]"] by simp

lemma print_in_grammar:
  "printable un c \<Longrightarrow> g_or un (read_back c) (print_cond c) \<and> g_unit un (read_back c) (print_unit c)"
proof (induction un c rule: printable.induct)
  case (1 un cs)
  then obtain c ds where cs: "cs = c # ds" "ds \<noteq> []" by (cases cs; cases "tl cs") auto
  with 1 have u: "g_unit un (read_back d) (print_unit d)" if "d \<in> set cs" for d
    using that by (auto simp: list_all_iff)
  with cs have "g_and un (read_back (CAnd cs)) (print_cond (CAnd cs))"
    by (auto intro!: and_many not_unit g_ands_units [simplified])
  then have *: "g_or un (read_back (CAnd cs)) (print_cond (CAnd cs))" by (rule or_one)
  from * g_unit_of_or [OF *] show ?case by simp
next
  case (2 un cs)
  then obtain c ds where cs: "cs = c # ds" "ds \<noteq> []" by (cases cs; cases "tl cs") auto
  with 2 have u: "g_unit un (read_back d) (print_unit d)" if "d \<in> set cs" for d
    using that by (auto simp: list_all_iff)
  with cs have *: "g_or un (read_back (COr cs)) (print_cond (COr cs))"
    by (auto intro!: or_many and_one not_unit g_ors_units [simplified])
  from * g_unit_of_or [OF *] show ?case by simp
next
  case (3 un c)
  then have "g_unit un (read_back c) (print_unit c)" by simp
  from not_not [OF _ this, of "[]"] have *: "g_or un (read_back (CNot c)) (print_cond (CNot c))"
    by (auto intro: or_one and_one)
  from * g_unit_of_or [OF *] show ?case by simp
next
  case (4 un l oper r)
  then have "g_unit un (read_back (CLeaf l oper r)) (print_cond (CLeaf l oper r))"
    by (intro unit_leaf g_leaf_print)
  then show ?case by (simp add: g_or_of_unit)
qed

section \<open>Properties\<close>

text \<open>C5. For every text, the parser accepts it whole, with condition \<open>c\<close>, exactly when the text,
  after leading blanks, derives \<open>c\<close> in the grammar of rules (\<open>!\<close> over \<open>&&\<close> over \<open>||\<close>).\<close>

theorem parse_correct:
  assumes "nom N"
  shows "do_parse N un i = POk [] c \<longleftrightarrow> (\<exists>w s. spaces w \<and> i = w @ s \<and> g_or un c s)"
  using assms by (rule nom.do_parse_iff)

theorem parse_correct_witness:
  "do_parse nom_ref Some (''os=='' @ print_literal ''mac'') = POk [] (CLeaf ''os'' OpEq (Some (Str ''mac'')))"
proof -
  have "printable Some (CLeaf ''os'' OpEq (Some (Str ''mac'')))"
    by (simp add: is_ident_def ident_start_def ident_char_def is_alpha_def lit_char_def)
  from print_in_grammar [OF this, THEN conjunct1]
  have "g_or Some (CLeaf ''os'' OpEq (Some (Str ''mac''))) (''os=='' @ print_literal ''mac'')"
    by (simp add: print_literal_def literal_text_def)
  then have "\<exists>w s. spaces w \<and> ''os=='' @ print_literal ''mac'' = w @ s \<and>
      g_or Some (CLeaf ''os'' OpEq (Some (Str ''mac''))) s"
    by (metis append_Nil spaces_simps(1))
  then show ?thesis by (rule parse_correct [OF ref_nom.nom_axioms, THEN iffD2])
qed

text \<open>C18. Parsing returns on every text, with a rest that ends the text, and any recursion depth of
  at least the number of opening parentheses gives the same answer: the parser neither loops nor
  panics, and its recursion is bounded by the parentheses.\<close>

theorem parse_returns:
  assumes "nom N" and "opens i \<le> n"
  shows "expr N un n i = do_parse N un i \<and> do_parse N un i \<noteq> PAbort \<and>
    (\<forall>r c. do_parse N un i = POk r c \<longrightarrow> suffix r i)"
  using nom.expr_depth_enough [OF assms, of un] by (cases "do_parse N un i") auto

theorem parse_returns_witness:
  "do_parse nom_ref Some ''((a'' = expr nom_ref Some 2 ''((a'' \<and> do_parse nom_ref Some ''((a'' \<noteq> PAbort"
  using parse_returns [OF ref_nom.nom_axioms, of "''((a''" 2 Some] by simp

text \<open>C20. A condition the parser returns compares every leaf with a value and names identifiers; its
  evaluation never panics, in any client context, and computes its Boolean meaning.\<close>

theorem parsed_eval:
  assumes "nom N" and "do_parse N un i = POk r c"
  shows "parsed_shape c \<and> cond_eval ctx c = Ok (holds ctx c)"
proof -
  from assms(2) have "expr N un (length i) i = POk r c" by (simp add: do_parse_def)
  from nom.expr_sound [OF assms(1) this] have "parsed_shape c" using grammar_shape(6) by blast
  then show ?thesis using cond_eval_binary(1) parsed_shape_binary by blast
qed

text \<open>C19. Parsing undoes printing but for empty values: a condition of the parser's shape, with values that
  need no escape, is read back from its printed text, parentheses included, with every empty value
  replaced by two quotes; so it comes back as it was exactly when it compares no tag with the empty text.\<close>

theorem parse_print:
  assumes "nom N" and "printable un c"
  shows "do_parse N un (print_cond c) = POk [] (read_back c) \<and>
    (do_parse N un (print_cond c) = POk [] c \<longleftrightarrow> no_empty_value c)"
proof -
  from print_in_grammar [OF assms(2)] have "g_or un (read_back c) ([] @ print_cond c)" by simp
  then have "\<exists>w s. spaces w \<and> print_cond c = w @ s \<and> g_or un (read_back c) s" by (metis append_Nil spaces_simps(1))
  with nom.do_parse_iff [OF assms(1)] have "do_parse N un (print_cond c) = POk [] (read_back c)" by blast
  then show ?thesis using read_back_iff [of c] by simp
qed

definition sample_cond :: condition where
  "sample_cond = COr [CAnd [CLeaf ''a'' OpEq (Some (Str ''1'')), CLeaf ''b'' OpEq (Some (Str ''2''))],
     CNot (COr [CLeaf ''a'' OpEq (Some (Str ''3'')), CLeaf ''c'' OpEq (Some (Str ''4''))])]"

lemma sample_printable: "printable Some sample_cond"
  by (simp add: sample_cond_def is_ident_def ident_start_def ident_char_def is_alpha_def lit_char_def)

theorem parse_print_witness:
  "do_parse nom_ref Some (print_cond sample_cond) = POk [] sample_cond \<and>
   do_parse nom_ref Some (print_cond (CLeaf ''os'' OpEq (Some (Str [])))) =
     POk [] (CLeaf ''os'' OpEq (Some (Str [CHR 0x22, CHR 0x22])))"
proof -
  have "printable Some (CLeaf ''os'' OpEq (Some (Str [])))"
    by (simp add: is_ident_def ident_start_def ident_char_def is_alpha_def)
  from parse_print [OF ref_nom.nom_axioms this] show ?thesis
    using parse_print [OF ref_nom.nom_axioms sample_printable] read_back_iff [of sample_cond]
    by (simp add: literal_text_def) (simp add: sample_cond_def)
qed

lemma sample_parse: "do_parse nom_ref Some (print_cond sample_cond) = POk [] sample_cond"
proof -
  have "read_back sample_cond = sample_cond" by (simp add: sample_cond_def literal_text_def)
  then show ?thesis
    using print_in_grammar [OF sample_printable] ref_nom.do_parse_iff by (metis append_Nil spaces_simps(1))
qed

theorem parsed_eval_witness:
  "parsed_shape sample_cond \<and> cond_eval (Map.empty(''a'' \<mapsto> Str ''3'')) sample_cond =
     (Ok (holds (Map.empty(''a'' \<mapsto> Str ''3'')) sample_cond) :: (bool, unit) res)"
  by (rule parsed_eval [OF ref_nom.nom_axioms sample_parse])

text \<open>The empty literal is not the empty value: \<open>k == ""\<close> hands its two quote characters to
  \<open>unescape\<close>, so with an \<open>unescape\<close> that keeps text without backslashes the condition compares
  the tag with a text of two quotes and is false for a client whose tag is empty.\<close>

lemma empty_literal:
  assumes "nom N" and "\<And>s. CHR 0x5C \<notin> set s \<Longrightarrow> un s = Some s" and "is_ident k"
  shows "do_parse N un (k @ ''=='' @ print_literal []) =
      POk [] (CLeaf k OpEq (Some (Str [CHR 0x22, CHR 0x22]))) \<and>
    cond_eval (Map.empty(k \<mapsto> Str [])) (CLeaf k OpEq (Some (Str [CHR 0x22, CHR 0x22]))) = Ok False"
proof
  have "un [CHR 0x22, CHR 0x22] = Some [CHR 0x22, CHR 0x22]" by (rule assms(2)) simp
  from g_leaf_tight [where un = un, OF assms(3) quoted_empty this]
  have "g_leaf un (CLeaf k OpEq (Some (Str [CHR 0x22, CHR 0x22]))) (k @ ''=='' @ print_literal [])"
    by (simp add: print_literal_def)
  then have "g_or un (CLeaf k OpEq (Some (Str [CHR 0x22, CHR 0x22]))) (k @ ''=='' @ print_literal [])"
    by (intro g_or_of_unit unit_leaf)
  then show "do_parse N un (k @ ''=='' @ print_literal []) =
      POk [] (CLeaf k OpEq (Some (Str [CHR 0x22, CHR 0x22])))"
    using nom.do_parse_iff [OF assms(1)] by (metis append_Nil spaces_simps(1))
qed (simp add: eval_leaf_def)

lemma empty_literal_witness:
  "do_parse nom_ref Some (''os=='' @ print_literal []) =
      POk [] (CLeaf ''os'' OpEq (Some (Str [CHR 0x22, CHR 0x22]))) \<and>
    cond_eval (Map.empty(''os'' \<mapsto> Str [])) (CLeaf ''os'' OpEq (Some (Str [CHR 0x22, CHR 0x22])))
      = (Ok False :: (bool, unit) res)"
  using empty_literal [OF ref_nom.nom_axioms, of Some "''os''"]
  by (simp add: is_ident_def ident_start_def ident_char_def is_alpha_def)

end
