(* ===== verification/Index_Properties.thy ===== *)
theory Index_Properties
  imports Fs_Index Rule_Properties
begin

text \<open>
  The properties of the storage trait, the filesystem backend and the index built over it.
\<close>

section \<open>Every entry once\<close>

lemma entries_prefix: "(ms, u) \<in> set (entries ns t) \<Longrightarrow> \<exists>ks. ms = ns @ ks \<and> ks \<noteq> []"
proof (induction ns t arbitrary: ms u rule: entries.induct)
  case (2 ns es)
  from "2.prems" consider (here) n where "ms = ns @ [n]"
    | (below) n v where "(n, v) \<in> set es" "(ms, u) \<in> set (entries (ns @ [n]) v)"
    by auto
  then show ?case
  proof cases
    case below
    from "2.IH" [OF below(1) refl below(2)] show ?thesis by auto
  qed simp
qed simp

lemma distinct_concat_map:
  assumes "distinct xs" and "\<And>x. x \<in> set xs \<Longrightarrow> distinct (f x)"
    and "\<And>x y. x \<in> set xs \<Longrightarrow> y \<in> set xs \<Longrightarrow> x \<noteq> y \<Longrightarrow> set (f x) \<inter> set (f y) = {}"
  shows "distinct (concat (map f xs))"
  using assms by (induction xs) fastforce+

lemma entries_distinct: "well_named t \<Longrightarrow> distinct (map fst (entries ns t))"
proof (induction ns t rule: entries.induct)
  case (2 ns es)
  let ?below = "\<lambda>(n, t). map fst (entries (ns @ [n]) t)"
  have names: "distinct (map fst es)" using "2.prems" by simp
  then have es: "distinct es" by (simp add: distinct_map)
  have "distinct (concat (map ?below (rev es)))"
  proof (rule distinct_concat_map)
    fix x assume "x \<in> set (rev es)"
    then show "distinct (?below x)" using 2 by (cases x) auto
  next
    fix x y assume xy: "x \<in> set (rev es)" "y \<in> set (rev es)" "x \<noteq> y"
    then have "fst x \<noteq> fst y" using names by (metis eq_key_imp_eq_value prod.collapse set_rev)
    then show "set (?below x) \<inter> set (?below y) = {}"
      by (cases x; cases y) (auto dest!: entries_prefix)
  qed (simp add: es)
  moreover have "distinct (map (\<lambda>(n, t). ns @ [n]) es)"
    using names by (simp add: distinct_map inj_on_def case_prod_unfold)
  moreover have "ns @ [n] \<noteq> ms" if "(ms, u) \<in> set (entries (ns @ [n']) t)" for n n' ms u t
    using entries_prefix [OF that] by auto
  ultimately show ?case
    by (auto simp: map_concat rev_map comp_def case_prod_unfold)
qed simp

section \<open>Properties of the walk and of the listing\<close>

text \<open>C11. The default walk of the filesystem backend over a finite tree returns, and hands every file
  and directory below the start to the callback exactly once (up to the callback's first error).\<close>

theorem fs_walk_complete:
  assumes "steady cb" and "is_dir_node (fs_subtree root b version path)"
  shows "walk_dir (fs_storage (tree_os root) nt b) version path cb c =
      visit cb (map (\<lambda>(ns, u). fs_item b version path ns u) (entries [] (fs_subtree root b version path))) c \<and>
    distinct (map fst (entries [] (fs_subtree root b version path))) \<and>
    (\<forall>ns u. (ns, u) \<in> set (entries [] (fs_subtree root b version path)) \<longleftrightarrow>
       ns \<noteq> [] \<and> node_at (fs_subtree root b version path) ns = Some u)"
proof (intro conjI allI)
  let ?t = "fs_subtree root b version path"
  show "walk_dir (fs_storage (tree_os root) nt b) version path cb c =
      visit cb (map (\<lambda>(ns, u). fs_item b version path ns u) (entries [] ?t)) c"
    by (rule fs_walk_dir [OF assms])
  show "distinct (map fst (entries [] ?t))" by (rule entries_distinct [OF fs_walk.named])
  show "(ns, u) \<in> set (entries [] ?t) \<longleftrightarrow> ns \<noteq> [] \<and> node_at ?t ns = Some u" for ns u
    using entries_at [OF fs_walk.named, of ns u "[]"] node_at_entries [of ?t ns u "[]"] by auto
qed

text \<open>A tree for concrete runs: one rule, one link and one resource, in the namespace \<open>/\<close>.\<close>

definition sample_tree :: node where
  "sample_tree = Dir [(''d'', Dir [(''v1'', Dir
     [(''rules'', Dir [(''r'', File ''R'')]), (''links'', Dir [(''l'', File ''L'')]),
      (''reses'', Dir [(''s'', File ''S'')])])])]"

definition sample_backend :: fs_backend where
  "sample_backend = fs_new ''/d''"

definition sample_version :: version_item where
  "sample_version = \<lparr>v_name = ''v1'', v_id = ''v1''\<rparr>"

lemma sample_subtree:
  "fs_subtree sample_tree sample_backend sample_version ''/rules/'' = Dir [(''r'', File ''R'')]"
  "fs_subtree sample_tree sample_backend sample_version ''/links/'' = Dir [(''l'', File ''L'')]"
  "fs_subtree sample_tree sample_backend sample_version ''/reses/'' = Dir [(''s'', File ''S'')]"
  by (simp_all add: path_eval sample_tree_def sample_backend_def sample_version_def)

definition gather :: "string list walk_cb" where
  "gather c i = (c @ [abs_path i], Ok Next)"

theorem fs_walk_complete_witness:
  "fst (walk_dir (fs_storage (tree_os sample_tree) \<lparr>poll_watcher_new = True, watch_path = (\<lambda>_. True)\<rparr>
     sample_backend) sample_version ''/rules/'' gather []) = [''/rules/r'']"
  using fs_walk_complete [of gather sample_tree sample_backend sample_version "''/rules/''"
      "\<lparr>poll_watcher_new = True, watch_path = (\<lambda>_. True)\<rparr>" "[]"]
  by (simp add: sample_subtree steady_def gather_def path_join_def has_root_def)

text \<open>What the filesystem backend lists for a file can be read back: the hash of a listed file is
  accepted by \<open>get_obj_by_hash\<close>, which returns the content of that file.\<close>

lemma fs_listed_readable:
  assumes "node_at (fs_subtree root b version path) ns = Some (Dir es)" and "(n, File raw) \<in> set es"
  shows "\<exists>items i. fs_list_dir (tree_os root) b version (foldl path_join path ns) = Ok items \<and> i \<in> set items \<and>
    abs_path i = path_join (foldl path_join path ns) n \<and> \<not> is_dir i \<and>
    fs_get_obj_by_hash (tree_os root) (hash i) = Ok raw"
proof -
  let ?i = "fs_item b version path (ns @ [n]) (File raw)"
  have "well_named (Dir es)" using well_named_at [OF fs_walk.named assms(1)] .
  then have "map_of es n = Some (File raw)" using assms(2) by simp
  then have "node_at (fs_subtree root b version path) (ns @ [n]) = Some (File raw)"
    using node_at_snoc [OF assms(1)] by simp
  from fs_get_obj_entry [OF this] have "fs_get_obj_by_hash (tree_os root) (hash ?i) = Ok raw" by simp
  moreover have "?i \<in> set (map (\<lambda>(n, u). fs_item b version path (ns @ [n]) u) es)"
    using assms(2) by force
  ultimately show ?thesis
    using fs_list_dir_tree [OF assms(1)] by (intro exI conjI) auto
qed

lemma fs_listed_readable_witness:
  "\<exists>items i. fs_list_dir (tree_os sample_tree) sample_backend sample_version ''/rules/'' = Ok items \<and>
    i \<in> set items \<and> fs_get_obj_by_hash (tree_os sample_tree) (hash i) = Ok ''R''"
  using fs_listed_readable [of sample_tree sample_backend sample_version "''/rules/''" "[]" _ "''r''" "''R''"]
  by (auto simp: sample_subtree)

text \<open>The version id is joined to the base path as a path: a head file that holds an absolute path
  replaces the base directory.\<close>

lemma version_replaces_base:
  assumes "utf8_valid (v_id version)" and "has_root (v_id version)"
  shows "get_versioned_path b version path = Ok (path_join (v_id version) (rel_part path))"
  using assms by (simp add: get_versioned_path_eq versioned_def path_join_def [of _ "v_id version"])

lemma version_replaces_base_witness:
  "get_versioned_path (fs_new ''/data'') \<lparr>v_name = ''/etc'', v_id = ''/etc''\<rparr> ''rules'' = Ok ''/etc/rules''"
  using version_replaces_base [of "\<lparr>v_name = ''/etc'', v_id = ''/etc''\<rparr>" "fs_new ''/data''" "''rules''"]
  by (simp add: ascii_valid has_root_def path_join_def rel_part_def)

section \<open>Properties of the index\<close>

text \<open>C12. Loading a namespace over the filesystem backend on a tree of files whose names are text. An
  absolute namespace: the files of its three directories are parsed in the order of the walk, and the
  result is the index built from them, or the failure of the first directory that cannot be listed
  (the version is not text, nothing is there, a file is in its place) or of the first file that does
  not parse (a link whose path is too short panics). Any other namespace is refused.\<close>

theorem load_builds:
  assumes "well_named root" and "utf8_valid (base_path b)" and "\<forall>n\<in>set ks. good_name n \<and> utf8_valid n"
  shows "index_load X (fs_storage (tree_os root) nt b) (ns_name ks) version =
      and_then (dir_objects (rule_load_from_slice X) root b version ''rules'' ks) (\<lambda>rs.
      and_then (dir_objects (link_checked X) root b version ''links'' ks) (\<lambda>ls.
      and_then (dir_objects (res_load_from_slice X) root b version ''reses'' ks) (\<lambda>ss.
        Ok (build_index rs ls ss)))) \<and>
    (\<forall>ns. \<not> starts_with ns ''/'' \<longrightarrow>
      index_load X (fs_storage (tree_os root) nt b) ns version = Err NamespaceNotAbsolutePath)"
  using index_load_tree [OF assms(3,1,2)] index_load_relative by blast

text \<open>Documents for the files of the sample tree.\<close>

definition sample_meta :: doc where
  "sample_meta = DObj [(''desc'', DText ''d''), (''tags'', DList [])]"

definition sample_docs :: "(string \<times> doc root_common) list" where
  "sample_docs =
     [(''R'', \<lparr>rc_version = 1, rc_kind = ''Rule'', rc_meta = sample_meta,
         rc_spec = DObj [(''rule'', DText (''os=='' @ print_literal ''mac''))]\<rparr>),
      (''L'', \<lparr>rc_version = 1, rc_kind = ''Link'', rc_meta = sample_meta,
         rc_spec = DObj [(''pri'', DNum 0x3F800000), (''is_neg'', DBool False), (''ver'', DText ''1''),
           (''rule'', DText ''path:/r''), (''res'', DList [DText ''path:/s''])]\<rparr>),
      (''S'', \<lparr>rc_version = 1, rc_kind = ''Res'', rc_meta = sample_meta,
         rc_spec = DList [DObj [(''content_type'', DText ''text''), (''key'', DText ''k''),
           (''data'', DText ''v''), (''schema'', DBool True)]]\<rparr>)]"


definition sample_rule :: rule_obj where
  "sample_rule = \<lparr>rule_meta_of = \<lparr>m_desc = ''d'', m_tags = []\<rparr>,
     rule_spec_of = \<lparr>rs_rule = CLeaf ''os'' OpEq (Some (Str ''mac''))\<rparr>\<rparr>"

definition sample_link :: link_obj where
  "sample_link = \<lparr>link_meta_of = \<lparr>m_desc = ''d'', m_tags = []\<rparr>,
     link_spec_of = \<lparr>ls_pri = 0x3F800000, ls_is_neg = False, ls_ver = ''1'', ls_rule = ''path:/r'',
       ls_reses = [''path:/s'']\<rparr>\<rparr>"

definition sample_res :: "doc res_obj" where
  "sample_res = \<lparr>res_meta_of = \<lparr>m_desc = ''d'', m_tags = []\<rparr>,
     res_spec_of = [\<lparr>ri_content_type = ''text'', ri_key = ''k'', ri_data = ''v'', ri_schema = DBool True\<rparr>]\<rparr>"

lemma sample_leaf_parse:
  "do_parse nom_ref Some (''os=='' @ print_literal ''mac'') = POk [] (CLeaf ''os'' OpEq (Some (Str ''mac'')))"
proof -
  have "printable Some (CLeaf ''os'' OpEq (Some (Str ''mac'')))"
    by (simp add: is_ident_def ident_start_def ident_char_def is_alpha_def lit_char_def)
  from print_in_grammar [OF this, THEN conjunct1]
  have "g_or Some (CLeaf ''os'' OpEq (Some (Str ''mac''))) (''os=='' @ print_literal ''mac'')"
    by (simp add: print_literal_def literal_text_def)
  then show ?thesis using ref_nom.do_parse_iff by (metis append_Nil spaces_simps(1))
qed

lemma sample_loads:
  "rule_load_from_slice (doc_crates sample_docs) ''R'' = Ok sample_rule"
  "link_checked (doc_crates sample_docs) ''L'' = Ok sample_link"
  "res_load_from_slice (doc_crates sample_docs) ''S'' = Ok sample_res"
  using sample_leaf_parse
  by (simp_all add: load_eval sample_docs_def sample_meta_def sample_rule_def sample_link_def sample_res_def)

lemma sample_dirs:
  "fs_dir_of sample_tree sample_backend sample_version ''rules'' [] = Dir [(''r'', File ''R'')]"
  "fs_dir_of sample_tree sample_backend sample_version ''links'' [] = Dir [(''l'', File ''L'')]"
  "fs_dir_of sample_tree sample_backend sample_version ''reses'' [] = Dir [(''s'', File ''S'')]"
  using sample_subtree by (simp_all add: fs_dir_of_def abs_of_def)

definition sample_notify :: notify where
  "sample_notify = \<lparr>poll_watcher_new = True, watch_path = (\<lambda>_. True)\<rparr>"

definition sample_index :: cfg_index where
  "sample_index = build_index [(''r'', sample_rule)] [(''l'', sample_link)] [(''s'', sample_res)]"

lemma sample_parsed:
  "parse_all (rule_load_from_slice (doc_crates sample_docs)) (keyed [] (Dir [(''r'', File ''R'')])) =
    Ok [(''r'', sample_rule)]"
  "parse_all (link_checked (doc_crates sample_docs)) (keyed [] (Dir [(''l'', File ''L'')])) =
    Ok [(''l'', sample_link)]"
  "parse_all (res_load_from_slice (doc_crates sample_docs)) (keyed [] (Dir [(''s'', File ''S'')])) =
    Ok [(''s'', sample_res)]"
  by (simp_all add: dir_eval sample_loads)

theorem load_builds_witness:
  "index_load (doc_crates sample_docs) (fs_storage (tree_os sample_tree) sample_notify sample_backend) ''/''
      sample_version = Ok sample_index \<and>
    index_load (doc_crates sample_docs) (fs_storage (tree_os sample_tree) sample_notify sample_backend) ''/''
      \<lparr>v_name = ''v2'', v_id = ''v2''\<rparr> = Err (IndexStorageError (IOError ''No such file or directory (os error 2)''))"
proof (rule conjI)
  have named: "well_named sample_tree" "utf8_valid (base_path sample_backend)"
    by (simp_all add: sample_tree_def sample_backend_def fs_new_def good_name_def ascii_valid)
  have listed: "fs_listing sample_tree sample_backend sample_version d [] =
      Ok (fs_dir_of sample_tree sample_backend sample_version d [])" if "d \<in> {''rules'', ''links'', ''reses''}" for d
    using that dir_listed [of sample_tree sample_backend sample_version d "[]"] sample_dirs by auto
  show "index_load (doc_crates sample_docs) (fs_storage (tree_os sample_tree) sample_notify sample_backend) ''/''
      sample_version = Ok sample_index"
    using load_builds [OF named, of "[]" "doc_crates sample_docs" sample_notify sample_version]
    by (simp add: dir_objects_def listed sample_dirs sample_parsed ns_name_def sample_index_def)
  have "fs_listing sample_tree sample_backend \<lparr>v_name = ''v2'', v_id = ''v2''\<rparr> ''rules'' [] =
      Err (IOError ''No such file or directory (os error 2)'')"
    by (simp add: fs_listing_def path_eval abs_of_def sample_tree_def sample_backend_def)
  then show "index_load (doc_crates sample_docs) (fs_storage (tree_os sample_tree) sample_notify sample_backend) ''/''
      \<lparr>v_name = ''v2'', v_id = ''v2''\<rparr> = Err (IndexStorageError (IOError ''No such file or directory (os error 2)''))"
    using load_builds [OF named, of "[]" "doc_crates sample_docs" sample_notify "\<lparr>v_name = ''v2'', v_id = ''v2''\<rparr>"]
    by (simp add: dir_objects_def ns_name_def)
qed

text \<open>Where a stored object is found: a rule and a resource under the path of their file below
  the namespaces' directory, and the items of a link, after those of earlier links, under the
  path its \<open>rule\<close> field names.\<close>

lemma stores_answer:
  "rule_stor (build_index rs ls ss) k =
     map_option (\<lambda>r. \<lparr>ir_rule = rs_rule (rule_spec_of r), ir_abs_path = k\<rparr>) (map_of (rev rs) k) \<and>
   res_stor (build_index rs ls ss) k =
     map_option (\<lambda>r. \<lparr>r_data = map (\<lambda>i. \<lparr>kv_content_type = ri_content_type i, kv_key = ri_key i, kv_value = ri_data i\<rparr>)
       (res_spec_of r), r_res_path = k\<rparr>) (map_of (rev ss) k) \<and>
   link_stor (build_index rs ls ss) k =
     (let mine = filter (\<lambda>(p, l). link_target l = k) ls in
      if mine = [] then None else Some (concat (map (\<lambda>(p, l). link_items p l) mine)))"
  by (simp add: build_rule_stor build_link_stor build_res_stor add_res_def)

text \<open>Adding a link, on every branch: when its rule path and all its resource paths can lose the
  six bytes of \<open>path:/\<close>, one item per resource is appended to those of its rule; otherwise (a
  shorter path, or a sixth byte inside a character) the loader panics.\<close>

lemma add_link_total:
  "add_link m p l =
     (if link_paths_ok l
      then Ok (m(drop 6 (ls_rule (link_spec_of l)) \<mapsto>
             (case m (drop 6 (ls_rule (link_spec_of l))) of None \<Rightarrow> [] | Some items \<Rightarrow> items) @
             map (\<lambda>res_path. \<lparr>il_pri = ls_pri (link_spec_of l), il_is_neg = ls_is_neg (link_spec_of l),
                il_rule_path = ls_rule (link_spec_of l), il_abs_res_path = drop 6 res_path,
                il_link_path = p\<rparr>) (ls_reses (link_spec_of l))))
      else Panic)"
  by (simp add: add_link_eq link_target_def link_items_def)

text \<open>C13. Whatever the backend, an index that loads satisfies the invariant: rules under their own
  path and of the shape the parser builds, link items with a finite priority under the path of
  their rule, resources under their own path.\<close>

theorem index_invariant:
  assumes "walker (walk_dir B)" and "nom (c_nom X)" and "index_load X B ns version = Ok i"
  shows "index_ok i"
  by (rule index_load_ok [OF assms])

lemma sample_load:
  "index_load (doc_crates sample_docs) (fs_storage (tree_os sample_tree) sample_notify sample_backend) ''/''
    sample_version = Ok sample_index"
  using index_load_fs [of "[]" sample_tree sample_backend sample_version "doc_crates sample_docs" sample_notify]
  by (simp add: sample_dirs sample_parsed ns_name_def sample_index_def)

lemma fs_storage_walker: "walker (walk_dir (fs_storage os nt b))"
  using default_walk.walker_axioms by (simp add: fs_storage_def)

theorem index_invariant_witness: "index_ok sample_index"
  by (rule index_invariant [OF fs_storage_walker _ sample_load]) (simp add: ref_nom.nom_axioms)

end
