(* ===== verification/Git_Properties.thy ===== *)
theory Git_Properties
  imports Git_Backend Index_Properties
begin

text \<open>
  The properties of the git backend: what the index keeps of files that do not load, and how the
  watcher follows the remote branch.
\<close>

section \<open>Loading over git\<close>

lemma strip_segs_prefix:
  "\<forall>b\<in>set bs. \<not> void_seg b \<Longrightarrow> strip_segs bs ss \<noteq> None \<longleftrightarrow> (\<exists>rest. filter (\<lambda>s. \<not> void_seg s) ss = bs @ rest)"
  by (induction bs ss rule: strip_segs.induct) auto

lemma path_strip_prefix_segs:
  assumes "has_root p" and "path_segs p = d # rest" and "good_name d"
  shows "path_strip_prefix p (slash # d) \<noteq> None"
proof -
  have "strip_segs (path_segs (slash # d)) (split_on slash p) \<noteq> None"
    using assms strip_segs_prefix [of "[d]" "split_on slash p"]
    by (simp add: path_segs_good) (auto simp: path_segs_def)
  then show ?thesis using assms(1) by (auto simp: path_strip_prefix_def)
qed

text \<open>The entry of the tree as an item, and the state after all files that can be added.\<close>

definition entry_item :: "path \<Rightarrow> string \<Rightarrow> git_entry \<Rightarrow> string \<Rightarrow> dir_item" where
  "entry_item path root e n =
     \<lparr>abs_path = path_join (path_join path root) n, is_dir = ge_is_tree e, hash = ge_id e\<rparr>"

fun keep_good :: "('c \<Rightarrow> dir_item \<Rightarrow> ('c, 'e) res) \<Rightarrow> path \<Rightarrow> (string \<times> git_entry) list \<Rightarrow> 'c \<Rightarrow> 'c" where
  "keep_good add path [] c = c"
| "keep_good add path ((root, e) # es) c =
     keep_good add path es
       (case ge_name e of
          None \<Rightarrow> c
        | Some n \<Rightarrow> if ge_is_tree e then c
            else (case add c (entry_item path root e n) of Ok c' \<Rightarrow> c' | _ \<Rightarrow> c))"

text \<open>A walk whose callback panics on a fixed set of objects, and never hangs.\<close>

definition meets :: "(string \<Rightarrow> bool) \<Rightarrow> (string \<times> git_entry) list \<Rightarrow> bool" where
  "meets bad es \<longleftrightarrow> (\<exists>(root, e)\<in>set es. ge_name e \<noteq> None \<and> \<not> ge_is_tree e \<and> bad (ge_id e))"

lemma git_visit_files:
  assumes "\<And>c root e n. (root, e) \<in> set es \<Longrightarrow> ge_name e = Some n \<Longrightarrow> \<not> ge_is_tree e \<Longrightarrow>
      add c (entry_item path root e n) \<noteq> Hang \<and> (add c (entry_item path root e n) = Panic \<longleftrightarrow> bad (ge_id e))"
  shows "if meets bad es then snd (git_visit (git_walk_step path (file_cb add)) es c) = Panic
    else git_visit (git_walk_step path (file_cb add)) es c = (keep_good add path es c, Ok ())"
  using assms
proof (induction es arbitrary: c)
  case (Cons re es)
  obtain root e where re: "re = (root, e)" by force
  have IH: "if meets bad es then snd (git_visit (git_walk_step path (file_cb add)) es c) = Panic
    else git_visit (git_walk_step path (file_cb add)) es c = (keep_good add path es c, Ok ())" for c
    using Cons by (meson list.set_intros(2))
  have meets: "meets bad (re # es) \<longleftrightarrow> (ge_name e \<noteq> None \<and> \<not> ge_is_tree e \<and> bad (ge_id e)) \<or> meets bad es"
    by (simp add: meets_def re)
  show ?case
  proof (cases "ge_name e = None \<or> ge_is_tree e")
    case True
    then have "git_walk_step path (file_cb add) c root e = (c, Code 0)"
      by (cases "ge_name e") (simp_all add: git_walk_step_def file_cb_def)
    then show ?thesis using IH [of c] True meets by (cases "ge_name e") (auto simp: re)
  next
    case False
    then obtain n where n: "ge_name e = Some n" by auto
    have add: "add c (entry_item path root e n) \<noteq> Hang" "add c (entry_item path root e n) = Panic \<longleftrightarrow> bad (ge_id e)"
      using Cons.prems [of root e n c] re n False by simp_all
    have "git_walk_step path (file_cb add) c root e =
        (case add c (entry_item path root e n) of Ok c' \<Rightarrow> (c', Code 0) | Panic \<Rightarrow> (c, StepPanic) | _ \<Rightarrow> (c, Code 0))"
      using False n add(1)
      by (cases "add c (entry_item path root e n)") (simp_all add: git_walk_step_def file_cb_def entry_item_def)
    then show ?thesis using IH add meets n False
      by (cases "add c (entry_item path root e n)") (simp_all add: re)
  qed
qed (simp add: meets_def)

text \<open>Entries as \<open>libgit2\<close> reports them: relative to the tree, a name without separators.\<close>

definition relative_entries :: "(string \<times> git_entry) list \<Rightarrow> bool" where
  "relative_entries es \<longleftrightarrow>
     (\<forall>(root, e)\<in>set es. \<not> has_root root \<and> (\<forall>n. ge_name e = Some n \<longrightarrow> \<not> has_root n))"

lemma git_get_obj_returns:
  "git_get_obj_by_hash G b h \<noteq> Panic \<and> git_get_obj_by_hash G b h \<noteq> Hang"
  by (auto simp: git_get_obj_by_hash_def res_elim)

lemma git_storage_obj [simp]: "get_obj_by_hash (git_storage G b) = git_get_obj_by_hash G b"
  by (simp add: git_storage_def)

lemma relative_entry_path:
  assumes "\<forall>k\<in>set (d # ks). good_name k" and "relative_entries es" and "(root, e) \<in> set es" and "ge_name e = Some n"
  shows "path_strip_prefix (abs_path (entry_item (abs_of (d # ks) @ ''/'') root e n)) (slash # d) \<noteq> None"
proof -
  let ?p = "abs_of (d # ks) @ ''/''"
  have rel: "\<not> has_root root" "\<not> has_root n" using assms(2-4) by (auto simp: relative_entries_def)
  have "path_segs ?p = d # ks" using assms(1) by simp
  then have "path_segs (path_join (path_join ?p root) n) = d # ks @ path_segs root @ path_segs n"
    using rel by (simp del: path_segs_snoc_slash)
  moreover have "has_root (path_join (path_join ?p root) n)"
    using rel by (simp add: path_join_def has_root_def abs_of_def)
  ultimately show ?thesis
    using path_strip_prefix_segs assms(1) by (simp add: entry_item_def)
qed

text \<open>The walk over one of the three directories of a namespace.\<close>

lemma git_dir_load:
  fixes G :: "('r, 'c) git2"
  assumes "git_crate G preorder" and "\<forall>k\<in>set (d # ks). good_name k"
    and "git_walk_start G (gb_git_repo b) version (abs_of (d # ks) @ ''/'') = Ok (Some t)"
    and "preorder (gb_git_repo b) t = Some es" and "relative_entries es"
    and "\<And>c i. path_strip_prefix (abs_path i) (slash # d) \<noteq> None \<Longrightarrow>
      add c i \<noteq> Hang \<and> (add c i = Panic \<longleftrightarrow> bad (hash i))"
  shows "walked (walk_dir (git_storage G b) version (abs_of (d # ks) @ ''/'') (file_cb add) c) =
    (if meets bad es then Panic else Ok (keep_good add (abs_of (d # ks) @ ''/'') es c))"
proof -
  let ?p = "abs_of (d # ks) @ ''/''" and ?cb = "git_walk_step (abs_of (d # ks) @ ''/'') (file_cb add)"
  have "if meets bad es then snd (git_visit ?cb es c) = Panic
    else git_visit ?cb es c = (keep_good add ?p es c, Ok ())"
  proof (rule git_visit_files)
    fix c root e n assume e: "(root, e) \<in> set es" "ge_name e = Some n"
    have "hash (entry_item ?p root e n) = ge_id e" by (simp add: entry_item_def)
    with assms(6) [OF relative_entry_path [OF assms(2,5) e], of c]
    show "add c (entry_item ?p root e n) \<noteq> Hang \<and> (add c (entry_item ?p root e n) = Panic \<longleftrightarrow> bad (ge_id e))"
      by simp
  qed
  moreover have "goes_on ?cb"
    using git_crate.git_walk_steady [OF assms(1) steady_file_cb] .
  then have "tree_walk G (gb_git_repo b) t ?cb c = git_visit ?cb es c"
    using git_crate.walk_all [OF assms(1,4)] by simp
  ultimately show ?thesis
    by (cases "git_visit ?cb es c") (auto simp: git_storage_def git_walk_dir_def assms(3) split: if_splits)
qed

text \<open>A link that parses but whose own path, or that of a resource, cannot lose its prefix.\<close>

definition short_link :: "('j, 'e) crates \<Rightarrow> ('r, 'c) git2 \<Rightarrow> 'r git_backend \<Rightarrow> string \<Rightarrow> bool" where
  "short_link X G b h \<longleftrightarrow>
     (case git_get_obj_by_hash G b h of
        Ok raw \<Rightarrow> (case link_load_from_slice X raw of Ok l \<Rightarrow> \<not> link_paths_ok l | _ \<Rightarrow> False)
      | _ \<Rightarrow> False)"

lemma git_files:
  fixes G :: "('r, cfg_index) git2"
  assumes "nom (c_nom X)"
  shows "path_strip_prefix (abs_path i) ''/rules'' \<noteq> None \<Longrightarrow>
      rule_file X (git_storage G b) c i \<noteq> Hang \<and> rule_file X (git_storage G b) c i \<noteq> Panic"
    and "path_strip_prefix (abs_path i) ''/links'' \<noteq> None \<Longrightarrow>
      link_file X (git_storage G b) c i \<noteq> Hang \<and>
      (link_file X (git_storage G b) c i = Panic \<longleftrightarrow> short_link X G b (hash i))"
    and "path_strip_prefix (abs_path i) ''/reses'' \<noteq> None \<Longrightarrow>
      res_file X (git_storage G b) c i \<noteq> Hang \<and> res_file X (git_storage G b) c i \<noteq> Panic"
proof -
  note read = git_get_obj_returns [of G b "hash i"]
  show "rule_file X (git_storage G b) c i \<noteq> Hang \<and> rule_file X (git_storage G b) c i \<noteq> Panic"
    if "path_strip_prefix (abs_path i) ''/rules'' \<noteq> None"
    using that read rule_load_returns [OF assms]
    by (auto simp: rule_file_def res_elim internal_path_def split: option.splits)
  show "res_file X (git_storage G b) c i \<noteq> Hang \<and> res_file X (git_storage G b) c i \<noteq> Panic"
    if "path_strip_prefix (abs_path i) ''/reses'' \<noteq> None"
    using that read res_load_returns [of X]
    by (auto simp: res_file_def res_elim internal_path_def split: option.splits)
  show "link_file X (git_storage G b) c i \<noteq> Hang \<and>
      (link_file X (git_storage G b) c i = Panic \<longleftrightarrow> short_link X G b (hash i))"
    if "path_strip_prefix (abs_path i) ''/links'' \<noteq> None"
  proof (cases "git_get_obj_by_hash G b (hash i)")
    case (Ok raw)
    then show ?thesis
      using that link_load_returns [of X raw]
      by (cases "link_load_from_slice X raw")
        (auto simp: link_file_def short_link_def internal_path_def add_link_eq split: option.splits)
  qed (use read in \<open>simp_all add: link_file_def short_link_def\<close>)
qed

text \<open>C22. Over the git backend, loading a namespace never fails on a file: \<open>walk_dir\<close> swallows the errors of
  its callback, so every rule, link and resource file that cannot be read or does not parse is left out of
  the index and the rest is kept. The one file that stops a load is a link with a path too short: it panics.\<close>

theorem git_load_keeps_good:
  fixes G :: "('r, cfg_index) git2"
  assumes "git_crate G preorder" and "nom (c_nom X)" and "\<forall>k\<in>set ks. good_name k"
    and "\<forall>d\<in>{''rules'', ''links'', ''reses''}.
      git_walk_start G (gb_git_repo b) version (abs_of (d # ks) @ ''/'') = Ok (Some (t d)) \<and>
      preorder (gb_git_repo b) (t d) = Some (es d) \<and> relative_entries (es d)"
  shows "index_load X (git_storage G b) (ns_name ks) version =
    (if meets (short_link X G b) (es ''links'') then Panic
     else Ok (keep_good (res_file X (git_storage G b)) (abs_of (''reses'' # ks) @ ''/'') (es ''reses'')
       (keep_good (link_file X (git_storage G b)) (abs_of (''links'' # ks) @ ''/'') (es ''links'')
         (keep_good (rule_file X (git_storage G b)) (abs_of (''rules'' # ks) @ ''/'') (es ''rules'') empty_index))))"
proof -
  have names: "\<forall>k\<in>set (d # ks). good_name k" and
    path: "ns_path (slash # d) (ns_name ks) = (Ok (abs_of (d # ks) @ ''/'') :: path index_result)"
    if "d \<in> {''rules'', ''links'', ''reses''}" for d
  proof -
    have "good_name d" using that by (auto simp: good_name_def)
    then show *: "\<forall>k\<in>set (d # ks). good_name k" using assms(3) by simp
    show "ns_path (slash # d) (ns_name ks) = (Ok (abs_of (d # ks) @ ''/'') :: path index_result)"
      using ns_path_name [OF *] by (simp add: abs_of_def)
  qed
  have none: "\<not> meets (\<lambda>_. False) es" for es by (simp add: meets_def)
  note load = git_dir_load [OF assms(1) names]
  have rule: "load_rule X (git_storage G b) (ns_name ks) i version =
      Ok (keep_good (rule_file X (git_storage G b)) (abs_of (''rules'' # ks) @ ''/'') (es ''rules'') i)" for i
    using load [of "''rules''" b version "t ''rules''" "es ''rules''" "rule_file X (git_storage G b)" "\<lambda>_. False" i]
      assms(4) git_files(1) [OF assms(2), of _ G b] path [of "''rules''"] by (simp add: load_rule_def none)
  have link: "load_link X (git_storage G b) (ns_name ks) i version =
      (if meets (short_link X G b) (es ''links'') then Panic
       else Ok (keep_good (link_file X (git_storage G b)) (abs_of (''links'' # ks) @ ''/'') (es ''links'') i))" for i
    using load [of "''links''" b version "t ''links''" "es ''links''" "link_file X (git_storage G b)" "short_link X G b" i]
      assms(4) git_files(2) [OF assms(2), of _ G b] path [of "''links''"] by (simp add: load_link_def)
  have res: "load_res X (git_storage G b) (ns_name ks) i version =
      Ok (keep_good (res_file X (git_storage G b)) (abs_of (''reses'' # ks) @ ''/'') (es ''reses'') i)" for i
    using load [of "''reses''" b version "t ''reses''" "es ''reses''" "res_file X (git_storage G b)" "\<lambda>_. False" i]
      assms(4) git_files(3) [OF assms(2), of _ G b] path [of "''reses''"] by (simp add: load_res_def none)
  show ?thesis by (simp add: index_load_def rule link res)
qed

text \<open>A repository none of whose files is a document: the load succeeds without them.\<close>

definition bad_tree :: node where
  "bad_tree = Dir [(''rules'', Dir [(''r'', File ''garbage'')]), (''links'', Dir [(''l'', File ''garbage'')]),
     (''reses'', Dir [(''s'', File ''garbage'')])]"

definition bad_repo :: ref_repo where
  "bad_repo = \<lparr>rr_commits = [(''c1'', ''one'', bad_tree)], rr_branches = [(''main'', ''c1'')]\<rparr>"

definition bad_backend :: "ref_repo git_backend" where
  "bad_backend = \<lparr>gb_local_repo_path = ''/repo'', gb_remote_repo_url = ''url'', gb_git_repo = bad_repo,
     gb_target_branch_name = ''main'', gb_cur_version = \<lparr>v_name = ''one'', v_id = ''c1''\<rparr>\<rparr>"

abbreviation bad_git :: "(ref_repo, cfg_index) git2" where
  "bad_git \<equiv> git_ref (\<lambda>_. Inr bad_repo) bad_repo"

lemma bad_walk_start:
  "git_walk_start bad_git bad_repo \<lparr>v_name = ''one'', v_id = ''c1''\<rparr> ''/rules/'' = Ok (Some ''c1/rules'')"
  "git_walk_start bad_git bad_repo \<lparr>v_name = ''one'', v_id = ''c1''\<rparr> ''/links/'' = Ok (Some ''c1/links'')"
  "git_walk_start bad_git bad_repo \<lparr>v_name = ''one'', v_id = ''c1''\<rparr> ''/reses/'' = Ok (Some ''c1/reses'')"
  by (simp_all add: git_walk_start_def git_ref_def ref_commit_def bad_repo_def path_eval path_strip_prefix_def
      ref_object_def bad_tree_def)

definition bad_entries :: "string \<Rightarrow> (string \<times> git_entry) list" where
  "bad_entries d = (let f = take 1 d in
     let f = (if d = ''reses'' then ''s'' else f) in
     [([], \<lparr>ge_name = Some f, ge_id = ''c1/'' @ d @ slash # f, ge_is_tree = False\<rparr>)])"

lemma bad_entries:
  "ref_entries bad_repo ''c1/rules'' = Some (bad_entries ''rules'')"
  "ref_entries bad_repo ''c1/links'' = Some (bad_entries ''links'')"
  "ref_entries bad_repo ''c1/reses'' = Some (bad_entries ''reses'')"
  by (simp_all add: ref_entries_def ref_object_def bad_repo_def bad_tree_def ref_entry_def bad_entries_def Let_def)

theorem git_load_keeps_good_witness:
  "index_load (doc_crates []) (git_storage bad_git bad_backend) ''/'' \<lparr>v_name = ''one'', v_id = ''c1''\<rparr> =
    Ok empty_index"
proof -
  let ?v = "\<lparr>v_name = ''one'', v_id = ''c1''\<rparr>" and ?B = "git_storage bad_git bad_backend"
  have bad: "rule_file (doc_crates []) ?B c i \<noteq> Ok c'" "link_file (doc_crates []) ?B c i \<noteq> Ok c'"
    "res_file (doc_crates []) ?B c i \<noteq> Ok c'" for c c' i
    by (simp_all add: rule_file_def rule_load_from_slice_def link_file_def link_load_from_slice_def
        res_file_def res_load_from_slice_def doc_json_def or_missing_def)
  have skip: "keep_good add p es c = c" if "\<And>c i c'. add c i \<noteq> Ok c'" for add p es and c :: cfg_index
    using that by (induction es) (auto split: option.split res.split)
  have "\<not> short_link (doc_crates []) bad_git bad_backend h" for h
    by (simp add: short_link_def link_load_from_slice_def doc_json_def or_missing_def split: res.split)
  then have none: "\<not> meets (short_link (doc_crates []) bad_git bad_backend) es" for es by (simp add: meets_def)
  have dirs: "\<forall>d\<in>{''rules'', ''links'', ''reses''}.
      git_walk_start bad_git (gb_git_repo bad_backend) ?v (abs_of (d # []) @ ''/'') = Ok (Some (''c1/'' @ d)) \<and>
      ref_entries (gb_git_repo bad_backend) (''c1/'' @ d) = Some (bad_entries d) \<and> relative_entries (bad_entries d)"
    using bad_walk_start bad_entries
    by (simp add: abs_of_def bad_backend_def relative_entries_def) (simp add: bad_entries_def has_root_def Let_def)
  have "nom (c_nom (doc_crates []))" by (simp add: ref_nom.nom_axioms)
  from git_load_keeps_good [OF ref_git.git_crate_axioms this _ dirs] show ?thesis
    by (simp add: none skip [of "rule_file _ _"] skip [of "link_file _ _"] skip [of "res_file _ _"] bad ns_name_def
        del: keep_good.simps)
qed

section \<open>Following the branch\<close>

text \<open>A remote without the configured branch makes the sync panic, after the fetch: the watcher
  thread ends and \<open>GitBackend::new\<close> unwinds.\<close>

lemma sync_missing_branch:
  assumes "create_detached G url = Inr ()" and "connect_auth G (get_fetch_opt (env_home G)) url = Ok ()" and "remote_list G url = Inr heads"
    and "''refs/heads/'' @ branch \<notin> fst ` set heads"
    and "find_remote G (gb_git_repo b) ''origin'' = Inr remote"
    and "fetch G (get_fetch_opt (env_home G)) (gb_git_repo b) remote (''refs/heads/'' @ branch) = Ok repo"
  shows "git_sync_local_branch G url b branch = (b\<lparr>gb_git_repo := repo\<rparr>, Panic)"
proof -
  have "newest_commit r cur hs = Some None" if "r \<notin> fst ` set hs" for r cur hs
    using that by (induction r cur hs rule: newest_commit.induct) auto
  with assms show ?thesis by (simp add: git_sync_local_branch_def)
qed

lemma sync_missing_branch_witness:
  "snd (git_sync_local_branch bad_git ''url'' bad_backend ''prod'') = Panic"
  using sync_missing_branch [of bad_git "''url''" "[(''refs/heads/main'', ''c1'')]" "''prod''" bad_backend "''origin''"]
  by (simp add: git_ref_def bad_repo_def)

text \<open>A remote that asks for credentials, and a process that cannot give them: the probe panics, so
  \<open>GitBackend::new\<close> unwinds, and a watcher ends at its next round.\<close>

lemma sync_without_home:
  assumes "create_detached G url = Inr ()"
    and "\<And>cbs. connect_auth G cbs url = and_then (rc_credentials cbs user) (\<lambda>_. Ok ())"
    and "user = None \<or> env_home G = None"
  shows "git_sync_local_branch G url b branch = (b, Panic)"
    and "git_watcher (G # rounds) url branch b = (b, [])"
proof -
  show sync: "git_sync_local_branch G url b branch = (b, Panic)"
    using assms by (auto simp: git_sync_local_branch_def get_fetch_opt_def Let_def split: option.split)
  then show "git_watcher (G # rounds) url branch b = (b, [])" by simp
qed

definition asking_git :: "string option \<Rightarrow> (ref_repo, cfg_index) git2" where
  "asking_git user = bad_git\<lparr>connect_auth := (\<lambda>cbs url. and_then (rc_credentials cbs user) (\<lambda>_. Ok ()))\<rparr>"

lemma sync_without_home_witness:
  "snd (git_sync_local_branch (asking_git None) ''host:repo'' bad_backend ''main'') = Panic"
  "git_sync_local_branch (asking_git (Some ''git'')) ''git@host:repo'' bad_backend ''main'' =
     git_sync_local_branch bad_git ''git@host:repo'' bad_backend ''main''"
proof -
  have "git_sync_local_branch (asking_git None) ''host:repo'' bad_backend ''main'' = (bad_backend, Panic)"
    by (rule sync_without_home(1)) (simp_all add: asking_git_def git_ref_def)
  then show "snd (git_sync_local_branch (asking_git None) ''host:repo'' bad_backend ''main'') = Panic" by simp
  show "git_sync_local_branch (asking_git (Some ''git'')) ''git@host:repo'' bad_backend ''main'' =
     git_sync_local_branch bad_git ''git@host:repo'' bad_backend ''main''"
    by (simp add: git_sync_local_branch_def asking_git_def git_ref_def get_fetch_opt_def bad_repo_def bad_backend_def
        ref_commit_def Let_def)
qed

text \<open>A remote branch at a commit: the first entry of the list with its name.\<close>

lemma newest_commit_Some:
  "newest_commit r cur hs = (case map_of hs r of
     None \<Rightarrow> Some None | Some oid \<Rightarrow> if oid = cur then None else Some (Some oid))"
  by (induction r cur hs rule: newest_commit.induct) auto

definition faithful_ids :: "('r, 'c) git2 \<Rightarrow> bool" where
  "faithful_ids G \<longleftrightarrow> (\<forall>repo oid c. find_commit G repo oid = Inr c \<longrightarrow> gc_id c = oid)"

lemma sync_keeps_version:
  "gb_cur_version (fst (git_sync_local_branch G url b branch)) = gb_cur_version b"
  by (simp add: git_sync_local_branch_def Let_def split: res.split option.split)

text \<open>The commit at which the remote lists the branch, when it can be asked.\<close>

definition remote_head :: "('r, 'c) git2 \<Rightarrow> string \<Rightarrow> string \<Rightarrow> string option" where
  "remote_head G url branch =
     (case (create_detached G url, connect_auth G (get_fetch_opt (env_home G)) url, remote_list G url) of
        (Inr _, Ok _, Inr heads) \<Rightarrow> map_of heads (''refs/heads/'' @ branch)
      | _ \<Rightarrow> None)"

text \<open>The commit is fetched and the local branch is set to it.\<close>

definition fetched ::
  "('r, 'c) git2 \<Rightarrow> 'r git_backend \<Rightarrow> string \<Rightarrow> string \<Rightarrow> git_commit \<Rightarrow> 'r git_backend \<Rightarrow> bool" where
  "fetched G b branch oid commit b' \<longleftrightarrow> (\<exists>remote repo repo'.
     find_remote G (gb_git_repo b) ''origin'' = Inr remote \<and>
     fetch G (get_fetch_opt (env_home G)) (gb_git_repo b) remote (''refs/heads/'' @ branch) = Ok repo \<and>
     find_commit G repo oid = Inr commit \<and>
     set_branch G repo (gb_target_branch_name b) commit = Inr repo' \<and> b' = b\<lparr>gb_git_repo := repo'\<rparr>)"

definition commit_version :: "git_commit \<Rightarrow> version_item" where
  "commit_version commit =
     \<lparr>v_name = (if utf8_valid (gc_message commit) then gc_message commit else []), v_id = gc_id commit\<rparr>"

lemma sync_round:
  assumes "remote_head G url branch = Some oid"
  shows "oid = v_id (gb_cur_version b) \<Longrightarrow> git_sync_local_branch G url b branch = (b, Ok None)"
    and "\<lbrakk>oid \<noteq> v_id (gb_cur_version b); fetched G b branch oid commit b'\<rbrakk> \<Longrightarrow>
      git_sync_local_branch G url b branch = (b', Ok (Some (commit_version commit)))"
proof -
  from assms obtain heads where "create_detached G url = Inr ()"
    "connect_auth G (get_fetch_opt (env_home G)) url = Ok ()" "remote_list G url = Inr heads"
    "map_of heads (''refs/heads/'' @ branch) = Some oid"
    by (auto simp: remote_head_def split: sum.split_asm res.split_asm)
  note remote = this
  show "git_sync_local_branch G url b branch = (b, Ok None)" if "oid = v_id (gb_cur_version b)"
    using that remote by (simp add: git_sync_local_branch_def newest_commit_Some)
  show "git_sync_local_branch G url b branch = (b', Ok (Some (commit_version commit)))"
    if "oid \<noteq> v_id (gb_cur_version b)" "fetched G b branch oid commit b'"
    using that remote by (auto simp: git_sync_local_branch_def newest_commit_Some fetched_def commit_version_def)
qed

lemma fetched_id: "\<lbrakk>faithful_ids G; fetched G b branch oid commit b'\<rbrakk> \<Longrightarrow> v_id (commit_version commit) = oid"
  by (auto simp: fetched_def faithful_ids_def commit_version_def)

text \<open>
  Rounds of the watcher, with the commits at which the remote lists the branch in the rounds that do
  not fail: it need not be reachable in every round, and where it has moved, the commit is fetched.
\<close>

fun watched :: "('r, 'c) git2 list \<Rightarrow> string \<Rightarrow> string \<Rightarrow> 'r git_backend \<Rightarrow> string list \<Rightarrow> bool" where
  "watched [] url branch b heads \<longleftrightarrow> heads = []"
| "watched (G # rounds) url branch b heads \<longleftrightarrow>
     (\<exists>b' e. git_sync_local_branch G url b branch = (b', Err e) \<and> watched rounds url branch b' heads) \<or>
     (\<exists>oid heads'. heads = oid # heads' \<and> remote_head G url branch = Some oid \<and>
       (if oid = v_id (gb_cur_version b) then watched rounds url branch b heads'
        else \<exists>commit b'. fetched G b branch oid commit b' \<and>
          watched rounds url branch (b'\<lparr>gb_cur_version := commit_version commit\<rparr>) heads'))"

lemma remdups_adj_hd: "x # tl (remdups_adj (x # xs)) = remdups_adj (x # xs)"
  by (cases xs) simp_all

text \<open>C23. The watcher of the git backend reports a version exactly when the branch has moved: in any rounds,
  some of which may fail, the commits it reports are those at which the remote lists the branch, without
  the repetitions and without the one the backend is at already; and the backend ends at the last of them.\<close>

theorem watcher_reports_changes:
  assumes "\<forall>G\<in>set rounds. faithful_ids G" and "watched rounds url branch b heads"
  shows "map v_id (snd (git_watcher rounds url branch b)) = tl (remdups_adj (v_id (gb_cur_version b) # heads)) \<and>
    v_id (gb_cur_version (fst (git_watcher rounds url branch b))) = last (v_id (gb_cur_version b) # heads)"
  using assms
proof (induction rounds arbitrary: b heads)
  case (Cons G rounds)
  from Cons.prems(2) consider (failed) b' e where "git_sync_local_branch G url b branch = (b', Err e)"
      "watched rounds url branch b' heads"
    | (same) heads' where "heads = v_id (gb_cur_version b) # heads'"
      "remote_head G url branch = Some (v_id (gb_cur_version b))" "watched rounds url branch b heads'"
    | (moved) oid heads' commit b' where "heads = oid # heads'" "remote_head G url branch = Some oid"
      "oid \<noteq> v_id (gb_cur_version b)" "fetched G b branch oid commit b'"
      "watched rounds url branch (b'\<lparr>gb_cur_version := commit_version commit\<rparr>) heads'"
    by (auto split: if_splits)
  then show ?case
  proof cases
    case failed
    with sync_keeps_version [of G url b branch] Cons.IH [of b' heads] Cons.prems(1) show ?thesis by simp
  next
    case same
    with sync_round(1) [OF same(2) refl] Cons.IH [of b heads'] Cons.prems(1) show ?thesis by simp
  next
    case moved
    have "v_id (commit_version commit) = oid" using fetched_id [OF _ moved(4)] Cons.prems(1) by simp
    with moved sync_round(2) [OF moved(2,3,4)] Cons.IH [OF _ moved(5)] Cons.prems(1) show ?thesis
      by (simp add: case_prod_unfold remdups_adj_hd)
  qed
qed simp

definition moved_repo :: ref_repo where
  "moved_repo = \<lparr>rr_commits = [(''c2'', ''two'', bad_tree)], rr_branches = [(''main'', ''c2'')]\<rparr>"

lemma git_ref_faithful: "faithful_ids (git_ref f r)"
  by (auto simp: faithful_ids_def git_ref_def ref_commit_def split: option.split_asm prod.split_asm)

abbreviation moved_git :: "(ref_repo, cfg_index) git2" where
  "moved_git \<equiv> git_ref (\<lambda>_. Inr bad_repo) moved_repo"

definition fetched_backend :: "ref_repo git_backend" where
  "fetched_backend = bad_backend\<lparr>gb_git_repo := \<lparr>rr_commits = rr_commits moved_repo @ rr_commits bad_repo,
     rr_branches = (''main'', ''c2'') # rr_branches bad_repo\<rparr>\<rparr>"

theorem watcher_reports_changes_witness:
  "map v_id (snd (git_watcher [bad_git, moved_git, moved_git] ''url'' ''main'' bad_backend)) = [''c2'']"
proof -
  let ?commit = "\<lparr>gc_id = ''c2'', gc_message = ''two''\<rparr>"
  have head: "remote_head bad_git ''url'' ''main'' = Some ''c1''" "remote_head moved_git ''url'' ''main'' = Some ''c2''"
    by (simp_all add: remote_head_def git_ref_def bad_repo_def moved_repo_def)
  have moved: "fetched moved_git bad_backend ''main'' ''c2'' ?commit fetched_backend"
    by (simp add: fetched_def git_ref_def bad_backend_def bad_repo_def moved_repo_def ref_commit_def fetched_backend_def)
  have stays: "watched [moved_git] ''url'' ''main'' (fetched_backend\<lparr>gb_cur_version := commit_version ?commit\<rparr>) [''c2'']"
    by (simp add: head commit_version_def)
  have cur: "v_id (gb_cur_version bad_backend) = ''c1''" by (simp add: bad_backend_def)
  have "''c2'' \<noteq> v_id (gb_cur_version bad_backend)" by (simp add: cur)
  with moved stays head(2) have "watched [moved_git, moved_git] ''url'' ''main'' bad_backend [''c2'', ''c2'']"
    by (subst watched.simps(2), intro disjI2 exI [of _ "''c2''"] exI [of _ "[''c2'']"]) (simp del: watched.simps, blast)
  with head(1) cur have "watched [bad_git, moved_git, moved_git] ''url'' ''main'' bad_backend [''c1'', ''c2'', ''c2'']"
    by (subst watched.simps(2), intro disjI2 exI [of _ "''c1''"] exI [of _ "[''c2'', ''c2'']"]) (simp del: watched.simps)
  moreover have "\<forall>G\<in>set [bad_git, moved_git, moved_git]. faithful_ids G" by (simp add: git_ref_faithful)
  ultimately show ?thesis
    using watcher_reports_changes [of "[bad_git, moved_git, moved_git]" "''url''" "''main''" bad_backend] cur by fastforce
qed

end
