(* ===== verification/Rust_Sort.thy ===== *)
theory Rust_Sort
  imports Prelude "HOL-Library.Multiset"
begin

text \<open>
  \<open>slice::sort_unstable_by\<close> of the standard library. Its contract (locale \<open>slice_sort\<close>): the
  result is a permutation of the slice, and it is sorted when the comparator is a total order
  on the elements of the slice; nothing is promised about the order otherwise. The insertion
  sort the library runs on slices of up to 20 elements is an instance of the contract.
\<close>

datatype ordering = Less | Equal | Greater

fun flip :: "ordering \<Rightarrow> ordering" where
  "flip Less = Greater"
| "flip Equal = Equal"
| "flip Greater = Less"

type_synonym 'a compare = "'a \<Rightarrow> 'a \<Rightarrow> ordering"

text \<open>Total order on the elements at distinct positions of the slice.\<close>

definition cmp_total_on :: "'a compare \<Rightarrow> 'a multiset \<Rightarrow> bool" where
  "cmp_total_on cmp M \<longleftrightarrow>
     (\<forall>a b. {#a, b#} \<subseteq># M \<longrightarrow> cmp b a = flip (cmp a b)) \<and>
     (\<forall>a b c. {#a, b, c#} \<subseteq># M \<longrightarrow> cmp a b \<noteq> Greater \<longrightarrow> cmp b c \<noteq> Greater \<longrightarrow> cmp a c \<noteq> Greater)"

lemma cmp_total_flip: "\<lbrakk>cmp_total_on cmp M; {#a, b#} \<subseteq># M\<rbrakk> \<Longrightarrow> cmp b a = flip (cmp a b)"
  unfolding cmp_total_on_def by blast

lemma cmp_total_trans:
  "\<lbrakk>cmp_total_on cmp M; {#a, b, c#} \<subseteq># M; cmp a b \<noteq> Greater; cmp b c \<noteq> Greater\<rbrakk>
    \<Longrightarrow> cmp a c \<noteq> Greater"
  unfolding cmp_total_on_def by blast

lemma cmp_total_on_mono: "\<lbrakk>cmp_total_on cmp M; N \<subseteq># M\<rbrakk> \<Longrightarrow> cmp_total_on cmp N"
  unfolding cmp_total_on_def by (meson subset_mset.order_trans)

text \<open>A strict comparator has one sorted order only.\<close>

lemma cmp_sorted_unique:
  assumes "sorted_wrt (\<lambda>a b. cmp a b \<noteq> Greater) us" and "sorted_wrt (\<lambda>a b. cmp a b \<noteq> Greater) vs"
    and "mset us = mset vs" and "cmp_total_on cmp (mset us)"
    and "\<And>a b. {#a, b#} \<subseteq># mset us \<Longrightarrow> cmp a b \<noteq> Equal"
  shows "us = vs"
  using assms
proof (induction us arbitrary: vs)
  case (Cons u us)
  then obtain v vs' where vs: "vs = v # vs'" by (cases vs) auto
  have "u = v"
  proof (rule ccontr)
    assume "u \<noteq> v"
    with Cons.prems(3) vs have mem: "v \<in> set us" "u \<in> set vs'"
      by (metis insert_iff list.set(2) set_mset_mset)+
    from mem(1) have sub: "{#u, v#} \<subseteq># mset (u # us)" by simp
    have "cmp u v \<noteq> Greater" "cmp v u \<noteq> Greater" using Cons.prems(1,2) vs mem by auto
    moreover have "cmp v u = flip (cmp u v)" using Cons.prems(4) sub by (rule cmp_total_flip)
    ultimately have "cmp u v = Equal" by (cases "cmp u v") auto
    with Cons.prems(5) [OF sub] show False by simp
  qed
  moreover have "us = vs'"
  proof (rule Cons.IH)
    show "cmp_total_on cmp (mset us)" using Cons.prems(4) by (rule cmp_total_on_mono) simp
    show "cmp a b \<noteq> Equal" if "{#a, b#} \<subseteq># mset us" for a b
    proof (rule Cons.prems(5))
      have "mset us \<subseteq># mset (u # us)" by simp
      with that show "{#a, b#} \<subseteq># mset (u # us)" by (rule subset_mset.order_trans)
    qed
  qed (use Cons.prems vs \<open>u = v\<close> in auto)
  ultimately show ?case using vs by simp
qed simp

locale slice_sort =
  fixes sorter :: "'a compare \<Rightarrow> 'a list \<Rightarrow> 'a list"
  assumes sort_perm: "mset (sorter cmp xs) = mset xs"
    and sort_sorted: "cmp_total_on cmp (mset xs) \<Longrightarrow>
      sorted_wrt (\<lambda>a b. cmp a b \<noteq> Greater) (sorter cmp xs)"
begin

lemma sort_set: "set (sorter cmp xs) = set xs"
  by (metis set_mset_mset sort_perm)

lemma sort_length: "length (sorter cmp xs) = length xs"
  by (metis size_mset sort_perm)

text \<open>Any two algorithms that meet the contract agree on a strict total order.\<close>

lemma sort_unique:
  assumes "slice_sort sorter'" and "mset xs = mset ys" and "cmp_total_on cmp (mset xs)"
    and "\<And>a b. {#a, b#} \<subseteq># mset xs \<Longrightarrow> cmp a b \<noteq> Equal"
  shows "sorter cmp xs = sorter' cmp ys"
proof (rule cmp_sorted_unique)
  show "sorted_wrt (\<lambda>a b. cmp a b \<noteq> Greater) (sorter cmp xs)"
    using assms(3) by (rule sort_sorted)
  show "sorted_wrt (\<lambda>a b. cmp a b \<noteq> Greater) (sorter' cmp ys)"
    using assms(2,3) by (intro slice_sort.sort_sorted [OF assms(1)]) simp
qed (use assms slice_sort.sort_perm [OF assms(1)] in \<open>simp_all add: sort_perm\<close>)

end

section \<open>The insertion sort of small slices\<close>

text \<open>
  Each element moves left over its neighbours as long as it is less than them. The sorted part
  is kept reversed, so its right end comes first.
\<close>

fun shift_tail :: "'a compare \<Rightarrow> 'a \<Rightarrow> 'a list \<Rightarrow> 'a list" where
  "shift_tail cmp x [] = [x]"
| "shift_tail cmp x (y # ys) = (if cmp x y = Less then y # shift_tail cmp x ys else x # y # ys)"

definition insertion_sort_by :: "'a compare \<Rightarrow> 'a list \<Rightarrow> 'a list" where
  "insertion_sort_by cmp xs = rev (fold (shift_tail cmp) xs [])"

lemma mset_shift_tail [simp]: "mset (shift_tail cmp x ys) = add_mset x (mset ys)"
  by (induction ys) auto

lemma set_shift_tail [simp]: "set (shift_tail cmp x ys) = insert x (set ys)"
  by (induction ys) auto

lemma mset_fold_shift: "mset (fold (shift_tail cmp) xs acc) = mset xs + mset acc"
  by (induction xs arbitrary: acc) auto

lemma mset_insertion_sort_by: "mset (insertion_sort_by cmp xs) = mset xs"
  by (simp add: insertion_sort_by_def mset_fold_shift)

lemma shift_tail_sorted:
  assumes "cmp_total_on cmp (add_mset x (mset ys))"
    and "sorted_wrt (\<lambda>a b. cmp b a \<noteq> Greater) ys"
  shows "sorted_wrt (\<lambda>a b. cmp b a \<noteq> Greater) (shift_tail cmp x ys)"
  using assms
proof (induction ys)
  case (Cons y ys)
  have flip: "cmp y x = flip (cmp x y)"
    using Cons.prems(1) by (rule cmp_total_flip) simp
  show ?case
  proof (cases "cmp x y = Less")
    case True
    have "cmp_total_on cmp (add_mset x (mset ys))"
      using Cons.prems(1) by (rule cmp_total_on_mono) simp
    with Cons True show ?thesis by auto
  next
    case False
    with flip have yx: "cmp y x \<noteq> Greater" by (cases "cmp x y") auto
    have "cmp z x \<noteq> Greater" if z: "z \<in> set ys" for z
    proof -
      from z obtain M where "mset ys = add_mset z M"
        by (metis in_multiset_in_set multi_member_split)
      then have "add_mset x (mset (y # ys)) = {#z, y, x#} + M"
        by (simp add: add_mset_commute)
      then have sub: "{#z, y, x#} \<subseteq># add_mset x (mset (y # ys))" by simp
      from z Cons.prems(2) have "cmp z y \<noteq> Greater" by simp
      from cmp_total_trans [OF Cons.prems(1) sub this yx] show ?thesis .
    qed
    with False yx Cons.prems(2) show ?thesis by auto
  qed
qed simp

lemma fold_shift_sorted:
  "\<lbrakk>cmp_total_on cmp (mset xs + mset acc); sorted_wrt (\<lambda>a b. cmp b a \<noteq> Greater) acc\<rbrakk>
    \<Longrightarrow> sorted_wrt (\<lambda>a b. cmp b a \<noteq> Greater) (fold (shift_tail cmp) xs acc)"
proof (induction xs arbitrary: acc)
  case (Cons x xs)
  have "cmp_total_on cmp (add_mset x (mset acc))"
    using Cons.prems(1) by (rule cmp_total_on_mono) simp
  then have "sorted_wrt (\<lambda>a b. cmp b a \<noteq> Greater) (shift_tail cmp x acc)"
    using Cons.prems(2) by (rule shift_tail_sorted)
  with Cons show ?case by simp
qed simp

interpretation ins_sort: slice_sort insertion_sort_by
proof unfold_locales
  fix cmp :: "'a compare" and xs :: "'a list"
  show "mset (insertion_sort_by cmp xs) = mset xs" by (rule mset_insertion_sort_by)
  assume "cmp_total_on cmp (mset xs)"
  then have "sorted_wrt (\<lambda>a b. cmp b a \<noteq> Greater) (fold (shift_tail cmp) xs [])"
    by (intro fold_shift_sorted) auto
  then show "sorted_wrt (\<lambda>a b. cmp a b \<noteq> Greater) (insertion_sort_by cmp xs)"
    by (simp add: insertion_sort_by_def sorted_wrt_rev)
qed

text \<open>
  Insertion sort never needs more of the comparator than this: a step to the left is justified
  by the key, and so is stopping. Ties may be answered either way.
\<close>

lemma shift_tail_key:
  fixes key :: "'a \<Rightarrow> 'k :: linorder"
  assumes "\<And>a b. cmp a b = Less \<Longrightarrow> key a \<le> key b" and "\<And>a b. cmp a b \<noteq> Less \<Longrightarrow> key b \<le> key a"
  shows "sorted_wrt (\<lambda>a b. key b \<le> key a) ys \<Longrightarrow> sorted_wrt (\<lambda>a b. key b \<le> key a) (shift_tail cmp x ys)"
  by (induction ys) (auto dest: assms intro: order_trans)

lemma insertion_sort_by_key:
  fixes key :: "'a \<Rightarrow> 'k :: linorder"
  assumes "\<And>a b. cmp a b = Less \<Longrightarrow> key a \<le> key b" and "\<And>a b. cmp a b \<noteq> Less \<Longrightarrow> key b \<le> key a"
  shows "sorted_wrt (\<lambda>a b. key a \<le> key b) (insertion_sort_by cmp xs)"
proof -
  have "sorted_wrt (\<lambda>a b. key b \<le> key a) (fold (shift_tail cmp) xs acc)"
    if "sorted_wrt (\<lambda>a b. key b \<le> key a) acc" for acc
    using that
    by (induction xs arbitrary: acc) (auto intro: shift_tail_key assms)
  from this [of "[]"] show ?thesis by (simp add: insertion_sort_by_def sorted_wrt_rev)
qed

end
