(* ===== verification/Querier.thy ===== *)
theory Querier
  imports Cfg_Index Rust_Sort
begin

text \<open>
  \<open>src/cfg_center/querier.rs\<close>: the links whose rule holds for a client, ranked, and the values they
  give to the keys of a query. The order in which the hash map of rules is iterated (\<open>ord\<close>) and
  the sorting algorithm (\<open>sorter\<close>, of the locale \<open>slice_sort\<close>) are arguments.
\<close>

datatype view_mode = OverlaidView | AllLinkedResView

record cfg_result =
  cr_reason :: "idx_link_item option"
  cr_value :: key_value_pair

section \<open>The query\<close>

definition collect_links ::
  "string list \<Rightarrow> mem_storage \<Rightarrow> match_context \<Rightarrow> (idx_link_item list, query_error) res" where
  "collect_links ord mem_store whoami =
     iter_related_rules ord (rule_stor (ms_indices mem_store)) (\<lambda>rule act_links.
       and_then (cond_eval whoami (ir_rule rule)) (\<lambda>matched.
         Ok (if matched
             then (case get_link_by_rule_path (link_stor (ms_indices mem_store)) (ir_abs_path rule) of
                     Some links \<Rightarrow> act_links @ links | None \<Rightarrow> act_links)
             else act_links))) []"

text \<open>The comparator of \<open>sort_unstable_by\<close>.\<close>

definition overlaid_cmp :: "idx_link_item compare" where
  "overlaid_cmp a b =
     (if f32_gt (il_pri a) (il_pri b) then Less
      else if f32_eq (il_pri a) (il_pri b) then (if il_is_neg a then Less else Greater)
      else Greater)"

fun overlay_key :: "mem_storage \<Rightarrow> bool \<Rightarrow> string \<Rightarrow> idx_link_item list \<Rightarrow> cfg_result list" where
  "overlay_key mem_store need_explain key [] = []"
| "overlay_key mem_store need_explain key (link # links) =
     (case get_res_by_path (res_stor (ms_indices mem_store)) (il_abs_res_path link) of
        None \<Rightarrow> overlay_key mem_store need_explain key links
      | Some res \<Rightarrow>
          (case List.find (\<lambda>kv_item. kv_key kv_item = key) (r_data res) of
             None \<Rightarrow> overlay_key mem_store need_explain key links
           | Some kv_item \<Rightarrow>
               if \<not> il_is_neg link
               then [\<lparr>cr_reason = (if need_explain then Some link else None), cr_value = kv_item\<rparr>]
               else []))"

definition fetch_res_by_overlaid_view ::
  "(idx_link_item compare \<Rightarrow> idx_link_item list \<Rightarrow> idx_link_item list) \<Rightarrow> mem_storage \<Rightarrow> string list
    \<Rightarrow> idx_link_item list \<Rightarrow> bool \<Rightarrow> cfg_result list" where
  "fetch_res_by_overlaid_view sorter mem_store keys links need_explain =
     (let links = sorter overlaid_cmp links in
      concat (map (\<lambda>key. overlay_key mem_store need_explain key links) keys))"

definition fetch_res_by_all_linked_res_view ::
  "mem_storage \<Rightarrow> string list \<Rightarrow> idx_link_item list \<Rightarrow> bool \<Rightarrow> cfg_result list" where
  "fetch_res_by_all_linked_res_view mem_store keys links need_explain =
     concat (map (\<lambda>key. concat (map (\<lambda>link.
       (case get_res_by_path (res_stor (ms_indices mem_store)) (il_abs_res_path link) of
          None \<Rightarrow> []
        | Some res \<Rightarrow>
            map (\<lambda>kv_item. \<lparr>cr_reason = (if need_explain then Some link else None), cr_value = kv_item\<rparr>)
              (filter (\<lambda>kv_item. kv_key kv_item = key) (r_data res)))) links)) keys)"

definition querier_get ::
  "(idx_link_item compare \<Rightarrow> idx_link_item list \<Rightarrow> idx_link_item list) \<Rightarrow> string list \<Rightarrow> mem_storage
    \<Rightarrow> match_context \<Rightarrow> string list \<Rightarrow> view_mode \<Rightarrow> bool \<Rightarrow> (cfg_result list, query_error) res" where
  "querier_get sorter ord mem_store whoami keys view_mode need_explain =
     and_then (collect_links ord mem_store whoami) (\<lambda>act_links.
       if length act_links = 0 then Ok []
       else Ok (case view_mode of
           OverlaidView \<Rightarrow> fetch_res_by_overlaid_view sorter mem_store keys act_links need_explain
         | AllLinkedResView \<Rightarrow> fetch_res_by_all_linked_res_view mem_store keys act_links need_explain))"

section \<open>The active links\<close>

definition rule_links :: "mem_storage \<Rightarrow> match_context \<Rightarrow> idx_rule_item \<Rightarrow> idx_link_item list" where
  "rule_links mem whoami r =
     (if holds whoami (ir_rule r)
      then (case link_stor (ms_indices mem) (ir_abs_path r) of Some links \<Rightarrow> links | None \<Rightarrow> [])
      else [])"

definition active_links :: "string list \<Rightarrow> mem_storage \<Rightarrow> match_context \<Rightarrow> idx_link_item list" where
  "active_links ord mem whoami =
     concat (map (rule_links mem whoami) (hash_values (rule_stor (ms_indices mem)) ord))"

text \<open>A link is active for a client when the rule it is filed under holds.\<close>

definition active :: "mem_storage \<Rightarrow> match_context \<Rightarrow> idx_link_item \<Rightarrow> bool" where
  "active mem whoami l \<longleftrightarrow> (\<exists>k r ls. rule_stor (ms_indices mem) k = Some r \<and> holds whoami (ir_rule r) \<and>
     link_stor (ms_indices mem) (ir_abs_path r) = Some ls \<and> l \<in> set ls)"

lemma collect_links_eq:
  assumes "index_ok (ms_indices mem)"
  shows "collect_links ord mem whoami = Ok (active_links ord mem whoami)"
proof -
  let ?rules = "hash_values (rule_stor (ms_indices mem)) ord"
  have shape: "binary_only (ir_rule r)" if "r \<in> set ?rules" for r
    using that assms parsed_shape_binary
    by (auto simp: set_hash_values index_ok_def rules_ok_def)
  have "fold (\<lambda>r acc. and_then acc (\<lambda>c. and_then (cond_eval whoami (ir_rule r)) (\<lambda>matched.
      Ok (if matched then (case link_stor (ms_indices mem) (ir_abs_path r) of
            Some links \<Rightarrow> c @ links | None \<Rightarrow> c) else c)))) rs (Ok acc) =
      (Ok (acc @ concat (map (rule_links mem whoami) rs)) :: (_, query_error) res)"
    if "\<forall>r\<in>set rs. binary_only (ir_rule r)" for rs acc
    using that
  proof (induction rs arbitrary: acc)
    case (Cons r rs)
    then have "cond_eval whoami (ir_rule r) = (Ok (holds whoami (ir_rule r)) :: (bool, query_error) res)"
      by (simp add: cond_eval_binary)
    with Cons show ?case by (simp add: rule_links_def split: option.split)
  qed simp
  from this [of ?rules "[]"] shape show ?thesis
    unfolding collect_links_def iter_related_rules_def get_link_by_rule_path_def active_links_def
    by simp
qed

lemma rule_links_iff:
  "l \<in> set (rule_links mem whoami r) \<longleftrightarrow> holds whoami (ir_rule r) \<and>
     (\<exists>ls. link_stor (ms_indices mem) (ir_abs_path r) = Some ls \<and> l \<in> set ls)"
proof (cases "link_stor (ms_indices mem) (ir_abs_path r)")
  case None
  then have "rule_links mem whoami r = []" unfolding rule_links_def by simp
  with None show ?thesis by simp
next
  case (Some ls)
  then have "rule_links mem whoami r = (if holds whoami (ir_rule r) then ls else [])"
    unfolding rule_links_def by simp
  with Some show ?thesis by simp
qed

lemma set_active_links:
  assumes "hash_order (rule_stor (ms_indices mem)) ord"
  shows "l \<in> set (active_links ord mem whoami) \<longleftrightarrow> active mem whoami l"
proof -
  have "l \<in> set (active_links ord mem whoami) \<longleftrightarrow>
      (\<exists>r\<in>ran (rule_stor (ms_indices mem)). l \<in> set (rule_links mem whoami r))"
    by (simp add: active_links_def set_hash_values_order [OF assms])
  then show ?thesis by (force simp: rule_links_iff active_def ran_def)
qed

lemma mset_active_links:
  assumes "hash_order (rule_stor (ms_indices mem)) ord" and "hash_order (rule_stor (ms_indices mem)) ord'"
  shows "mset (active_links ord mem whoami) = mset (active_links ord' mem whoami)"
proof -
  have "mset ord = mset ord'" using assms by (metis hash_order_def set_eq_iff_mset_eq_distinct)
  moreover have "mset (concat (map f (hash_values m os))) =
      (\<Sum>k\<in>#mset os. case m k of None \<Rightarrow> {#} | Some r \<Rightarrow> mset (f r))" for f :: "idx_rule_item \<Rightarrow> idx_link_item list" and m os
    by (induction os) (auto split: option.splits)
  ultimately show ?thesis unfolding active_links_def by metis
qed

text \<open>On a loaded index a query returns, whatever the client, the keys and the view.\<close>

lemma querier_get_eq:
  assumes "index_ok (ms_indices mem)"
  shows "querier_get sorter ord mem whoami keys view need =
    Ok (let links = active_links ord mem whoami in
        if links = [] then []
        else (case view of
           OverlaidView \<Rightarrow> fetch_res_by_overlaid_view sorter mem keys links need
         | AllLinkedResView \<Rightarrow> fetch_res_by_all_linked_res_view mem keys links need))"
  by (simp add: querier_get_def collect_links_eq [OF assms] Let_def)

section \<open>Ranking\<close>

text \<open>
  A link ranks before another when its priority is higher, or they are equal and it is negative:
  the smaller \<open>rank\<close> first.
\<close>

definition rank :: "idx_link_item \<Rightarrow> int" where
  "rank l = (if il_is_neg l then 0 else 1) - 2 * f32_key (il_pri l)"

lemma overlaid_cmp_rank:
  assumes "f32_is_finite (il_pri a)" and "f32_is_finite (il_pri b)"
  shows "overlaid_cmp a b = Less \<longleftrightarrow> rank a < rank b \<or> (rank a = rank b \<and> il_is_neg a)"
    and "overlaid_cmp a b \<noteq> Equal"
  using assms
  by (auto simp: overlaid_cmp_def rank_def f32_gt_def f32_eq_def f32_finite_not_nan split: if_splits)

lemma overlaid_cmp_Greater: "overlaid_cmp a b \<noteq> Greater \<longleftrightarrow> overlaid_cmp a b = Less"
  by (simp add: overlaid_cmp_def)

text \<open>No two of the links (at different positions) have the same rank.\<close>

definition tie_free :: "idx_link_item list \<Rightarrow> bool" where
  "tie_free ls \<longleftrightarrow> distinct (map rank ls)"

lemma tie_free_pair: "\<lbrakk>tie_free ls; {#a, b#} \<subseteq># mset ls\<rbrakk> \<Longrightarrow> rank a \<noteq> rank b"
proof -
  assume "tie_free ls" and sub: "{#a, b#} \<subseteq># mset ls"
  then have "count (mset (map rank ls)) (rank a) \<le> 1"
    by (simp add: tie_free_def distinct_count_atmost_1)
  moreover have "{#rank a, rank b#} \<subseteq># mset (map rank ls)"
    using image_mset_subseteq_mono [OF sub, of rank] by simp
  ultimately show "rank a \<noteq> rank b"
    using mset_subset_eq_count [of "{#rank a, rank b#}" "mset (map rank ls)" "rank a"] by auto
qed

lemma pair_members: "{#a, b#} \<subseteq># mset ls \<Longrightarrow> a \<in> set ls \<and> b \<in> set ls"
  using mset_subset_eqD [of "{#a, b#}" "mset ls" a] mset_subset_eqD [of "{#a, b#}" "mset ls" b] by simp

lemma overlaid_cmp_total:
  assumes "tie_free ls" and "\<forall>l\<in>set ls. f32_is_finite (il_pri l)"
  shows "cmp_total_on overlaid_cmp (mset ls)"
  unfolding cmp_total_on_def
proof (intro conjI allI impI)
  fix a b assume ab: "{#a, b#} \<subseteq># mset ls"
  have fin: "f32_is_finite (il_pri a)" "f32_is_finite (il_pri b)" using pair_members [OF ab] assms(2) by auto
  from overlaid_cmp_rank [OF fin] overlaid_cmp_rank [OF fin(2,1)] tie_free_pair [OF assms(1) ab]
  show "overlaid_cmp b a = flip (overlaid_cmp a b)"
    by (cases "overlaid_cmp a b"; cases "overlaid_cmp b a") auto
next
  fix a b c assume abc: "{#a, b, c#} \<subseteq># mset ls"
    and le: "overlaid_cmp a b \<noteq> Greater" "overlaid_cmp b c \<noteq> Greater"
  have "{#a, b#} \<subseteq># {#a, b, c#}" "{#b, c#} \<subseteq># {#a, b, c#}" by simp_all
  then have sub: "{#a, b#} \<subseteq># mset ls" "{#b, c#} \<subseteq># mset ls"
    using abc by (blast intro: subset_mset.order_trans)+
  have fin: "f32_is_finite (il_pri a)" "f32_is_finite (il_pri b)" "f32_is_finite (il_pri c)"
    using pair_members [OF sub(1)] pair_members [OF sub(2)] assms(2) by auto
  show "overlaid_cmp a c \<noteq> Greater"
    using le overlaid_cmp_rank(1) [OF fin(1,2)] overlaid_cmp_rank(1) [OF fin(2,3)]
      overlaid_cmp_rank(1) [OF fin(1,3)] tie_free_pair [OF assms(1) sub(1)] tie_free_pair [OF assms(1) sub(2)]
    by (auto simp: overlaid_cmp_Greater)
qed


section \<open>The overlaid view\<close>

text \<open>What a link says about a key, if its resource has it.\<close>

definition link_value :: "mem_storage \<Rightarrow> string \<Rightarrow> idx_link_item \<Rightarrow> key_value_pair option" where
  "link_value mem key l =
     (case res_stor (ms_indices mem) (il_abs_res_path l) of
        None \<Rightarrow> None
      | Some res \<Rightarrow> List.find (\<lambda>kv. kv_key kv = key) (r_data res))"

text \<open>The first link that has the key decides, and a negative link decides for no value.\<close>

lemma overlay_key_eq:
  "overlay_key mem need key ls =
     (case List.find (\<lambda>l. link_value mem key l \<noteq> None) ls of
        None \<Rightarrow> []
      | Some l \<Rightarrow> if il_is_neg l then []
          else [\<lparr>cr_reason = (if need then Some l else None), cr_value = the (link_value mem key l)\<rparr>])"
  by (induction ls) (auto simp: link_value_def get_res_by_path_def split: option.splits)

lemma find_sorted_least:
  fixes key :: "'a \<Rightarrow> int"
  assumes "sorted_wrt (\<lambda>a b. key a \<le> key b) ls" and "List.find P ls = Some l"
  shows "P l \<and> l \<in> set ls \<and> (\<forall>l'\<in>set ls. P l' \<longrightarrow> key l \<le> key l')"
  using assms by (induction ls) (auto split: if_splits)

text \<open>The best links for a key: active, with the key, and of least rank.\<close>

definition best_for :: "mem_storage \<Rightarrow> match_context \<Rightarrow> string \<Rightarrow> idx_link_item \<Rightarrow> bool" where
  "best_for mem whoami key l \<longleftrightarrow> active mem whoami l \<and> link_value mem key l \<noteq> None \<and>
     (\<forall>l'. active mem whoami l' \<and> link_value mem key l' \<noteq> None \<longrightarrow> rank l \<le> rank l')"

text \<open>The answer for one key: nothing without a best link, else that of one of the best links.\<close>

definition overlay_answer :: "mem_storage \<Rightarrow> match_context \<Rightarrow> bool \<Rightarrow> string \<Rightarrow> cfg_result list \<Rightarrow> bool" where
  "overlay_answer mem whoami need key out \<longleftrightarrow>
     (if \<exists>l. best_for mem whoami key l
      then (\<exists>l. best_for mem whoami key l \<and>
              out = (if il_is_neg l then []
                     else [\<lparr>cr_reason = (if need then Some l else None), cr_value = the (link_value mem key l)\<rparr>]))
      else out = [])"

lemma overlay_key_ranked:
  assumes "sorted_wrt (\<lambda>a b. rank a \<le> rank b) ls" and "\<And>l. l \<in> set ls \<longleftrightarrow> active mem whoami l"
  shows "overlay_answer mem whoami need key (overlay_key mem need key ls)"
proof (cases "List.find (\<lambda>l. link_value mem key l \<noteq> None) ls")
  case None
  then have "link_value mem key l = None" if "active mem whoami l" for l
    using that assms(2) by (auto simp: find_None_iff)
  with None show ?thesis by (auto simp: overlay_key_eq overlay_answer_def best_for_def)
next
  case (Some l)
  from find_sorted_least [OF assms(1) Some] assms(2) have "best_for mem whoami key l"
    by (auto simp: best_for_def)
  with Some show ?thesis by (auto simp: overlay_key_eq overlay_answer_def)
qed

text \<open>Where the sorted list comes from: a strict ranking, or insertion sort.\<close>

lemma sorter_ranked:
  assumes "slice_sort sorter" and "tie_free ls" and "\<forall>l\<in>set ls. f32_is_finite (il_pri l)"
  shows "sorted_wrt (\<lambda>a b. rank a \<le> rank b) (sorter overlaid_cmp ls)"
proof -
  have "sorted_wrt (\<lambda>a b. overlaid_cmp a b \<noteq> Greater) (sorter overlaid_cmp ls)"
    using overlaid_cmp_total [OF assms(2,3)] by (rule slice_sort.sort_sorted [OF assms(1)])
  moreover have "rank a \<le> rank b" if "overlaid_cmp a b \<noteq> Greater"
    "a \<in> set (sorter overlaid_cmp ls)" "b \<in> set (sorter overlaid_cmp ls)" for a b
    using that assms(3) overlaid_cmp_rank(1) [of a b] slice_sort.sort_set [OF assms(1)]
    by (auto simp: overlaid_cmp_Greater)
  ultimately show ?thesis by (rule sorted_wrt_mono_rel [rotated]) auto
qed

lemma insertion_sort_cong:
  assumes "\<And>a b. a \<in> set xs \<Longrightarrow> b \<in> set xs \<Longrightarrow> cmp a b = cmp' a b"
  shows "insertion_sort_by cmp xs = insertion_sort_by cmp' xs"
proof -
  have tail: "shift_tail cmp x ys = shift_tail cmp' x ys" if "x \<in> set xs" "set ys \<subseteq> set xs" for x ys
    using that assms by (induction ys) auto
  have "fold (shift_tail cmp) us acc = fold (shift_tail cmp') us acc"
    if "set us \<subseteq> set xs" "set acc \<subseteq> set xs" for us acc
    using that by (induction us arbitrary: acc) (auto simp: tail)
  from this [of xs "[]"] show ?thesis by (simp add: insertion_sort_by_def)
qed

lemma insertion_ranked:
  assumes "\<forall>l\<in>set ls. f32_is_finite (il_pri l)"
  shows "sorted_wrt (\<lambda>a b. rank a \<le> rank b) (insertion_sort_by overlaid_cmp ls)"
proof -
  let ?cmp = "\<lambda>a b. if rank a < rank b \<or> (rank a = rank b \<and> il_is_neg a) then Less else Greater"
  have "insertion_sort_by overlaid_cmp ls = insertion_sort_by ?cmp ls"
  proof (rule insertion_sort_cong)
    fix a b assume "a \<in> set ls" "b \<in> set ls"
    with assms have fin: "f32_is_finite (il_pri a)" "f32_is_finite (il_pri b)" by auto
    show "overlaid_cmp a b = ?cmp a b"
      using overlaid_cmp_rank [OF fin] by (cases "overlaid_cmp a b") auto
  qed
  moreover have "sorted_wrt (\<lambda>a b. rank a \<le> rank b) (insertion_sort_by ?cmp ls)"
    by (rule insertion_sort_by_key) (auto split: if_splits)
  ultimately show ?thesis by simp
qed

lemma active_finite:
  assumes "index_ok (ms_indices mem)" and "active mem whoami l"
  shows "f32_is_finite (il_pri l)"
  using assms by (auto simp: active_def index_ok_def links_ok_def)

text \<open>The outcome of an overlaid query: the answers of its keys, in the order of the keys.\<close>

definition overlay_outcome ::
  "mem_storage \<Rightarrow> match_context \<Rightarrow> bool \<Rightarrow> string list \<Rightarrow> (cfg_result list, query_error) res \<Rightarrow> bool" where
  "overlay_outcome mem whoami need keys r \<longleftrightarrow>
     (\<exists>outs. r = Ok (concat outs) \<and> list_all2 (overlay_answer mem whoami need) keys outs)"

lemma overlay_outcome_ranked:
  assumes "index_ok (ms_indices mem)" and "hash_order (rule_stor (ms_indices mem)) ord"
    and "sorted_wrt (\<lambda>a b. rank a \<le> rank b) (sorter overlaid_cmp (active_links ord mem whoami))"
    and "set (sorter overlaid_cmp (active_links ord mem whoami)) = set (active_links ord mem whoami)"
  shows "overlay_outcome mem whoami need keys (querier_get sorter ord mem whoami keys OverlaidView need)"
proof -
  let ?ls = "sorter overlaid_cmp (active_links ord mem whoami)"
  let ?outs = "map (\<lambda>key. overlay_key mem need key ?ls) keys"
  have mem: "l \<in> set ?ls \<longleftrightarrow> active mem whoami l" for l
    using assms(4) set_active_links [OF assms(2)] by simp
  have "querier_get sorter ord mem whoami keys OverlaidView need = Ok (concat ?outs)"
  proof (cases "active_links ord mem whoami = []")
    case True
    with assms(4) have "?ls = []" by simp
    then have "concat ?outs = []" by simp
    with True show ?thesis by (simp add: querier_get_eq [OF assms(1)] Let_def del: concat_eq_Nil_conv)
  qed (simp add: querier_get_eq [OF assms(1)] Let_def fetch_res_by_overlaid_view_def)
  moreover have "list_all2 (overlay_answer mem whoami need) keys ?outs"
    using overlay_key_ranked [OF assms(3) mem] by (simp add: list_all2_conv_all_nth)
  ultimately show ?thesis unfolding overlay_outcome_def by blast
qed

end
