(* ===== verification/Namespace.thy ===== *)
theory Namespace
  imports Querier
begin

text \<open>
  \<open>src/cfg_center/differ.rs\<close> and \<open>namespace.rs\<close>: the view of a change that callbacks get, and the
  center of one namespace, which answers queries from its current store and replaces the store
  on an update. A callback is a client function on the differ; what it is called with is part of
  the result of an update.
\<close>

datatype update_notify_level =
    NoNotify
  | NotifyWithoutChangedKeysByGlobal
  | NotifyWithoutChangedKeysInNamespace
  | NotifyWithMaybeChangedKeys

section \<open>The differ\<close>

record differ =
  d_notify_level :: update_notify_level
  d_old_mem_store :: mem_storage
  d_new_mem_store :: mem_storage
  d_changed_files :: "string list"
  d_backend :: "cfg_index storage_backend"

definition differ_new ::
  "update_notify_level \<Rightarrow> mem_storage \<Rightarrow> mem_storage \<Rightarrow> string list \<Rightarrow> cfg_index storage_backend \<Rightarrow> differ" where
  "differ_new level old_mem new_mem changed backend =
     \<lparr>d_notify_level = level, d_old_mem_store = old_mem, d_new_mem_store = new_mem,
      d_changed_files = changed, d_backend = backend\<rparr>"

definition get_maybe_changed_keys :: "differ \<Rightarrow> string list" where
  "get_maybe_changed_keys d = []"

text \<open>The two queries of a differ, with the sorting algorithm and the iteration order of the querier.\<close>

type_synonym sorter = "idx_link_item compare \<Rightarrow> idx_link_item list \<Rightarrow> idx_link_item list"

definition differ_get_from_old ::
  "sorter \<Rightarrow> string list \<Rightarrow> differ \<Rightarrow> match_context \<Rightarrow> string list \<Rightarrow> view_mode \<Rightarrow> bool
    \<Rightarrow> (cfg_result list, differ_error) res" where
  "differ_get_from_old sorter ord d whoami keys view_mode need_explain =
     map_err DifferQueryError (querier_get sorter ord (d_old_mem_store d) whoami keys view_mode need_explain)"

definition differ_get_from_new ::
  "sorter \<Rightarrow> string list \<Rightarrow> differ \<Rightarrow> match_context \<Rightarrow> string list \<Rightarrow> view_mode \<Rightarrow> bool
    \<Rightarrow> (cfg_result list, differ_error) res" where
  "differ_get_from_new sorter ord d whoami keys view_mode need_explain =
     map_err DifferQueryError (querier_get sorter ord (d_new_mem_store d) whoami keys view_mode need_explain)"

section \<open>The center of a namespace\<close>

text \<open>How a call without a result ends: it returns, it unwinds (a panic), or it never returns.\<close>

datatype finish = Returns | Unwinds | Blocks

type_synonym callback = "differ \<Rightarrow> finish"

record namespace_center =
  nc_namespace :: string
  nc_memstore :: mem_storage
  nc_memstore_poisoned :: bool
  nc_notify_level :: update_notify_level
  nc_callback :: "callback option"

definition namespace_center_new ::
  "string \<Rightarrow> mem_storage \<Rightarrow> update_notify_level \<Rightarrow> callback option \<Rightarrow> namespace_center" where
  "namespace_center_new namespace mem_store level cb =
     \<lparr>nc_namespace = namespace, nc_memstore = mem_store, nc_memstore_poisoned = False,
      nc_notify_level = level, nc_callback = cb\<rparr>"

definition get_cfg ::
  "sorter \<Rightarrow> string list \<Rightarrow> namespace_center \<Rightarrow> match_context \<Rightarrow> string list \<Rightarrow> view_mode \<Rightarrow> bool
    \<Rightarrow> (cfg_result list, query_error) res" where
  "get_cfg sorter ord nc whoami keys view_mode need_explain =
     (if nc_memstore_poisoned nc then Err GetLockError
      else querier_get sorter ord (nc_memstore nc) whoami keys view_mode need_explain)"

text \<open>Storing the new index, after the callback: the write lock may be poisoned.\<close>

definition store_memstore :: "namespace_center \<Rightarrow> mem_storage \<Rightarrow> namespace_center" where
  "store_memstore nc new_mem_store =
     (if nc_memstore_poisoned nc then nc else nc\<lparr>nc_memstore := new_mem_store\<rparr>)"

text \<open>
  \<open>NamespaceScopedCFGCenter::update_callback\<close>: the center afterwards, the differs the client's
  callback was called with, and how the call ended. A callback that panics unwinds through it; the
  read lock it holds then is not poisoned.
\<close>

definition nc_update_callback ::
  "cfg_index storage_backend \<Rightarrow> namespace_center \<Rightarrow> mem_storage \<Rightarrow> string list
    \<Rightarrow> namespace_center \<times> differ list \<times> finish" where
  "nc_update_callback backend nc new_mem_store changes =
     (case nc_notify_level nc of
        NotifyWithoutChangedKeysByGlobal \<Rightarrow>
          (case nc_callback nc of
             None \<Rightarrow> (store_memstore nc new_mem_store, [], Returns)
           | Some cb \<Rightarrow>
               if nc_memstore_poisoned nc then (nc, [], Returns)
               else (let d = differ_new (nc_notify_level nc) (nc_memstore nc) new_mem_store changes backend in
                 (case cb d of
                    Returns \<Rightarrow> (store_memstore nc new_mem_store, [d], Returns)
                  | r \<Rightarrow> (nc, [d], r))))
      | NotifyWithoutChangedKeysInNamespace \<Rightarrow> (store_memstore nc new_mem_store, [], Returns)
      | NotifyWithMaybeChangedKeys \<Rightarrow> (store_memstore nc new_mem_store, [], Returns)
      | NoNotify \<Rightarrow> (nc, [], Returns))"

text \<open>A center whose index satisfies the invariant and whose lock is not poisoned.\<close>

definition nc_ok :: "namespace_center \<Rightarrow> bool" where
  "nc_ok nc \<longleftrightarrow> index_ok (ms_indices (nc_memstore nc)) \<and> \<not> nc_memstore_poisoned nc"

lemma store_memstore_ok: "\<lbrakk>nc_ok nc; index_ok (ms_indices m)\<rbrakk> \<Longrightarrow> nc_ok (store_memstore nc m)"
  by (simp add: nc_ok_def store_memstore_def)

lemma nc_update_callback_ok:
  "\<lbrakk>nc_ok nc; index_ok (ms_indices m)\<rbrakk> \<Longrightarrow> nc_ok (fst (nc_update_callback backend nc m changes))"
  by (auto simp: nc_update_callback_def store_memstore_ok Let_def
      split: update_notify_level.split option.split finish.split)

lemma nc_update_callback_frame:
  "nc_namespace (fst (nc_update_callback backend nc m changes)) = nc_namespace nc \<and>
   nc_notify_level (fst (nc_update_callback backend nc m changes)) = nc_notify_level nc \<and>
   nc_callback (fst (nc_update_callback backend nc m changes)) = nc_callback nc"
  by (auto simp: nc_update_callback_def store_memstore_def Let_def
      split: update_notify_level.split option.split finish.split)

text \<open>A client callback that always returns.\<close>

definition callback_returns :: "namespace_center \<Rightarrow> bool" where
  "callback_returns nc \<longleftrightarrow> (\<forall>cb d. nc_callback nc = Some cb \<longrightarrow> cb d = Returns)"

lemma nc_update_callback_returns:
  "callback_returns nc \<Longrightarrow> snd (snd (nc_update_callback backend nc m changes)) = Returns"
  by (cases "nc_callback nc"; cases "nc_notify_level nc")
    (simp_all add: nc_update_callback_def callback_returns_def Let_def)

end
