(* ===== verification/Cfg_Center.thy ===== *)
theory Cfg_Center
  imports Namespace
begin

text \<open>
  \<open>src/cfg_center/cfg_center.rs\<close>: the center of all namespaces. Its state holds the map from
  names to namespace centers, the current version, and whether either mutex is poisoned. A namespace
  center is shared (\<open>Arc\<close>) between the map and the clients that created or got it, so centers
  live in a store and the map and the clients hold handles into it. The backend \<open>B\<close> is passed to
  every operation, as it answers during the operation.
\<close>

type_synonym 'a cc_result = "('a, cclib_error) res"

type_synonym handle = nat

record cfg_center =
  cc_namespaces :: "(string, handle) hash_map"
  cc_namespaces_poisoned :: bool
  cc_current_version :: version_item
  cc_version_poisoned :: bool
  cc_store :: "namespace_center list"

section \<open>Operations\<close>

definition cfg_center_new :: "cfg_index storage_backend \<Rightarrow> cfg_center cc_result" where
  "cfg_center_new backend =
     and_then (or_err (get_current_version backend) (NamespaceError ''can not get newest config version'')) (\<lambda>version.
     and_then (map_err CCStorageError (set_update_cb backend)) (\<lambda>_.
       Ok \<lparr>cc_namespaces = Map.empty, cc_namespaces_poisoned = False, cc_current_version = version,
           cc_version_poisoned = False, cc_store = []\<rparr>))"

definition get_namespace_scoped_cfg_center :: "cfg_center \<Rightarrow> string \<Rightarrow> handle cc_result" where
  "get_namespace_scoped_cfg_center cc namespace =
     (if cc_namespaces_poisoned cc then Err (NamespaceError ''get lock error'')
      else (case cc_namespaces cc namespace of
              Some t \<Rightarrow> Ok t
            | None \<Rightarrow> Err (NamespaceError ''no namespace found'')))"

definition create_namespace_scoped_cfg_center ::
  "('j, 'e) crates \<Rightarrow> cfg_index storage_backend \<Rightarrow> cfg_center \<Rightarrow> string \<Rightarrow> update_notify_level \<Rightarrow> callback option
    \<Rightarrow> cfg_center \<times> handle cc_result" where
  "create_namespace_scoped_cfg_center X backend cc namespace level cb =
     (if \<not> starts_with namespace ''/'' \<or> \<not> ends_with namespace ''/''
      then (cc, Err (NamespaceError ''namespace must starts and end with `/`''))
      else if cc_version_poisoned cc then (cc, Err (NamespaceError ''get internal lock error''))
      else (case mem_storage_new X backend namespace (cc_current_version cc) of
          Err e \<Rightarrow> (cc, Err (CCIndexError e))
        | Panic \<Rightarrow> (cc\<lparr>cc_version_poisoned := True\<rparr>, Panic)
        | Hang \<Rightarrow> (cc, Hang)
        | Ok mem_store \<Rightarrow>
            if cc_namespaces_poisoned cc then (cc, Err (NamespaceError ''get lock error''))
            else (let v = length (cc_store cc) in
              (cc\<lparr>cc_store := cc_store cc @ [namespace_center_new namespace mem_store level cb],
                 cc_namespaces := (cc_namespaces cc)(namespace \<mapsto> v)\<rparr>, Ok v))))"

text \<open>
  The body of the loop of \<open>update_callback\<close> for one namespace: its center afterwards, the calls of
  its callback, and how the body ends.
\<close>

definition update_namespace ::
  "('j, 'e) crates \<Rightarrow> cfg_index storage_backend \<Rightarrow> version_item \<Rightarrow> version_item \<Rightarrow> string \<Rightarrow> namespace_center
    \<Rightarrow> namespace_center \<times> differ list \<times> finish" where
  "update_namespace X backend old_version new_version ns nc =
     (case nc_notify_level nc of
        NotifyWithoutChangedKeysByGlobal \<Rightarrow>
          (case mem_storage_new X backend ns new_version of
             Ok m \<Rightarrow> nc_update_callback backend nc m []
           | Err e \<Rightarrow> (nc, [], Returns)
           | Panic \<Rightarrow> (nc, [], Unwinds)
           | Hang \<Rightarrow> (nc, [], Blocks))
      | NotifyWithoutChangedKeysInNamespace \<Rightarrow>
          (case get_diff_list backend old_version new_version ns of
             Err e \<Rightarrow> (nc, [], Returns)
           | Panic \<Rightarrow> (nc, [], Unwinds)
           | Hang \<Rightarrow> (nc, [], Blocks)
           | Ok changed_files \<Rightarrow>
               if length changed_files = 0 then (nc, [], Returns)
               else (case mem_storage_new X backend ns new_version of
                   Ok m \<Rightarrow> nc_update_callback backend nc m changed_files
                 | Err e \<Rightarrow> (nc, [], Returns)
                 | Panic \<Rightarrow> (nc, [], Unwinds)
                 | Hang \<Rightarrow> (nc, [], Blocks)))
      | NotifyWithMaybeChangedKeys \<Rightarrow>
          (case get_diff_list backend old_version new_version ns of
             Err e \<Rightarrow> (nc, [], Returns)
           | Panic \<Rightarrow> (nc, [], Unwinds)
           | Hang \<Rightarrow> (nc, [], Blocks)
           | Ok changed_files \<Rightarrow>
               if length changed_files = 0 then (nc, [], Returns)
               else (case mem_storage_new X backend ns new_version of
                   Panic \<Rightarrow> (nc, [], Unwinds)
                 | Hang \<Rightarrow> (nc, [], Blocks)
                 | _ \<Rightarrow> (nc, [], Returns)))
      | NoNotify \<Rightarrow> (nc, [], Returns))"

text \<open>The loop over the map, in its order; \<open>calls\<close> are the callbacks made, by handle.\<close>

fun update_loop ::
  "('j, 'e) crates \<Rightarrow> cfg_index storage_backend \<Rightarrow> version_item \<Rightarrow> version_item \<Rightarrow> (string \<times> handle) list
    \<Rightarrow> namespace_center list \<Rightarrow> namespace_center list \<times> (handle \<times> differ) list \<times> finish" where
  "update_loop X backend old new [] store = (store, [], Returns)"
| "update_loop X backend old new ((ns, h) # rest) store =
     (case update_namespace X backend old new ns (store ! h) of
        (nc, calls, Returns) \<Rightarrow>
          (case update_loop X backend old new rest (store[h := nc]) of
             (store', calls', r) \<Rightarrow> (store', map (Pair h) calls @ calls', r))
      | (nc, calls, r) \<Rightarrow> (store[h := nc], map (Pair h) calls, r))"

text \<open>
  \<open>update_callback\<close>, on the thread of the watcher. A panic in the loop unwinds with both mutexes
  held, and poisons them; the version moves on only at the end of the loop.
\<close>

definition center_update_callback ::
  "('j, 'e) crates \<Rightarrow> cfg_index storage_backend \<Rightarrow> string list \<Rightarrow> cfg_center \<Rightarrow> storage_change_event
    \<Rightarrow> cfg_center \<times> (handle \<times> differ) list \<times> finish" where
  "center_update_callback X backend ord cc e =
     (if cc_namespaces_poisoned cc \<or> cc_version_poisoned cc then (cc, [], Returns)
      else (case update_loop X backend (cc_current_version cc) (ev_new_version e)
                   (List.map_filter (\<lambda>ns. map_option (Pair ns) (cc_namespaces cc ns)) ord) (cc_store cc) of
          (store, calls, Returns) \<Rightarrow>
            (cc\<lparr>cc_store := store, cc_current_version := ev_new_version e\<rparr>, calls, Returns)
        | (store, calls, Unwinds) \<Rightarrow>
            (cc\<lparr>cc_store := store, cc_namespaces_poisoned := True, cc_version_poisoned := True\<rparr>, calls, Unwinds)
        | (store, calls, r) \<Rightarrow> (cc\<lparr>cc_store := store\<rparr>, calls, r)))"

section \<open>Invariant\<close>

text \<open>
  Every handle of the map is one of the store, for a center of that name; names are registered
  once per handle; every center, registered or not, is in order.
\<close>

definition cc_ok :: "cfg_center \<Rightarrow> bool" where
  "cc_ok cc \<longleftrightarrow>
     (\<forall>ns h. cc_namespaces cc ns = Some h \<longrightarrow> h < length (cc_store cc) \<and> nc_namespace (cc_store cc ! h) = ns) \<and>
     (\<forall>nc\<in>set (cc_store cc). nc_ok nc)"

lemma cfg_center_new_ok: "cfg_center_new B = Ok cc \<Longrightarrow> cc_ok cc"
  by (auto simp: cfg_center_new_def cc_ok_def)

lemma mem_storage_new_ok:
  "\<lbrakk>walker (walk_dir B); nom (c_nom X); mem_storage_new X B ns v = Ok m\<rbrakk>
    \<Longrightarrow> index_ok (ms_indices m) \<and> ms_version m = v"
  by (auto simp: mem_storage_new_def dest: index_load_ok)

lemma create_ok:
  assumes "walker (walk_dir B)" and "nom (c_nom X)" and "cc_ok cc"
  shows "cc_ok (fst (create_namespace_scoped_cfg_center X B cc ns level cb))"
proof -
  have "nc_ok (namespace_center_new ns m level cb)" if "mem_storage_new X B ns v = Ok m" for m v
    using mem_storage_new_ok [OF assms(1,2) that] by (simp add: namespace_center_new_def nc_ok_def)
  with assms(3) show ?thesis
    by (auto simp: create_namespace_scoped_cfg_center_def Let_def cc_ok_def nth_append less_Suc_eq
        namespace_center_new_def split: res.split)
qed

lemma update_namespace_ok:
  assumes "walker (walk_dir B)" and "nom (c_nom X)" and "nc_ok nc"
  shows "nc_ok (fst (update_namespace X B old new ns nc))"
proof -
  have "index_ok (ms_indices m)" if "mem_storage_new X B ns v = Ok m" for m v
    using mem_storage_new_ok [OF assms(1,2) that] by simp
  then show ?thesis
    using assms(3) by (auto simp: update_namespace_def nc_update_callback_ok
        split: update_notify_level.split res.split)
qed

lemma update_namespace_frame:
  "nc_namespace (fst (update_namespace X B old new ns nc)) = nc_namespace nc"
  by (auto simp: update_namespace_def nc_update_callback_frame split: update_notify_level.split res.split)

lemma update_loop_frame:
  "length (fst (update_loop X B old new nhs store)) = length store \<and>
   map nc_namespace (fst (update_loop X B old new nhs store)) = map nc_namespace store"
proof (induction X B old new nhs store rule: update_loop.induct)
  case (2 X B old new ns h rest store)
  obtain nc calls r where u: "update_namespace X B old new ns (store ! h) = (nc, calls, r)"
    by (metis prod_cases3)
  have "nc_namespace nc = nc_namespace (store ! h)"
    using update_namespace_frame [of X B old new ns "store ! h"] u by simp
  then have "map nc_namespace (store[h := nc]) = map nc_namespace store"
    by (cases "h < length store") (simp_all add: map_update list_update_beyond list_update_same_conv)
  with u 2 [OF u [symmetric]] show ?case by (cases r) (auto split: prod.splits)
qed simp

lemma update_loop_ok:
  assumes "walker (walk_dir B)" and "nom (c_nom X)"
  shows "\<lbrakk>\<forall>nc\<in>set store. nc_ok nc; \<forall>(ns, h)\<in>set nhs. h < length store\<rbrakk>
    \<Longrightarrow> \<forall>nc\<in>set (fst (update_loop X B old new nhs store)). nc_ok nc"
  using assms
proof (induction X B old new nhs store rule: update_loop.induct)
  case (2 X B old new ns h rest store)
  obtain nc calls r where u: "update_namespace X B old new ns (store ! h) = (nc, calls, r)"
    by (metis prod_cases3)
  have "nc_ok nc"
    using update_namespace_ok [OF "2.prems"(3,4), of "store ! h" old new ns] u "2.prems"(1,2) by simp
  then have "\<forall>nc\<in>set (store[h := nc]). nc_ok nc"
    using "2.prems"(1) set_update_subset_insert by fastforce
  with u 2 show ?case by (cases r) (auto split: prod.splits)
qed simp


section \<open>What an update does\<close>

lemma update_loop_pointwise:
  assumes "distinct (map snd nhs)" and "\<forall>(ns, h)\<in>set nhs. h < length store"
    and "\<forall>(ns, h)\<in>set nhs. snd (snd (update_namespace X B old new ns (store ! h))) = Returns"
  shows "snd (snd (update_loop X B old new nhs store)) = Returns \<and>
    (\<forall>(ns, h)\<in>set nhs. fst (update_loop X B old new nhs store) ! h =
       fst (update_namespace X B old new ns (store ! h))) \<and>
    (\<forall>h. h \<notin> snd ` set nhs \<longrightarrow> fst (update_loop X B old new nhs store) ! h = store ! h) \<and>
    fst (snd (update_loop X B old new nhs store)) =
      concat (map (\<lambda>(ns, h). map (Pair h) (fst (snd (update_namespace X B old new ns (store ! h))))) nhs)"
  using assms
proof (induction X B old new nhs store rule: update_loop.induct)
  case (2 X B old new ns h rest store)
  obtain nc calls where u: "update_namespace X B old new ns (store ! h) = (nc, calls, Returns)"
    using "2.prems"(3) by (cases "update_namespace X B old new ns (store ! h)") auto
  have keep: "store[h := nc] ! h' = store ! h'" if "(ns', h') \<in> set rest" for ns' h'
  proof -
    from that have "h' \<in> snd ` set rest" by force
    with "2.prems"(1) have "h' \<noteq> h" by auto
    then show ?thesis by simp
  qed
  have IH: "snd (snd (update_loop X B old new rest (store[h := nc]))) = Returns \<and>
    (\<forall>(ns, h')\<in>set rest. fst (update_loop X B old new rest (store[h := nc])) ! h' =
       fst (update_namespace X B old new ns (store ! h'))) \<and>
    (\<forall>h'. h' \<notin> snd ` set rest \<longrightarrow> fst (update_loop X B old new rest (store[h := nc])) ! h' = store[h := nc] ! h') \<and>
    fst (snd (update_loop X B old new rest (store[h := nc]))) =
      concat (map (\<lambda>(ns, h'). map (Pair h') (fst (snd (update_namespace X B old new ns (store ! h'))))) rest)"
  proof -
    have same: "map (\<lambda>(ns, h'). map (Pair h') (fst (snd (update_namespace X B old new ns (store[h := nc] ! h'))))) rest =
        map (\<lambda>(ns, h'). map (Pair h') (fst (snd (update_namespace X B old new ns (store ! h'))))) rest"
      using keep by auto
    have "distinct (map snd rest)" "\<forall>(ns, h')\<in>set rest. h' < length (store[h := nc])"
      "\<forall>(ns, h')\<in>set rest. snd (snd (update_namespace X B old new ns (store[h := nc] ! h'))) = Returns"
      using "2.prems" keep by auto
    note ih = "2.IH" [OF u [symmetric] refl refl this]
    have "\<forall>(ns, h')\<in>set rest. fst (update_loop X B old new rest (store[h := nc])) ! h' =
        fst (update_namespace X B old new ns (store ! h'))"
    proof clarify
      fix ns' h' assume m: "(ns', h') \<in> set rest"
      with ih have "fst (update_loop X B old new rest (store[h := nc])) ! h' =
          fst (update_namespace X B old new ns' (store[h := nc] ! h'))" by blast
      with keep [OF m] show "fst (update_loop X B old new rest (store[h := nc])) ! h' =
          fst (update_namespace X B old new ns' (store ! h'))" by simp
    qed
    with ih show ?thesis unfolding same by blast
  qed
  have "fst (update_loop X B old new rest (store[h := nc])) ! h = nc"
    using IH "2.prems"(1,2) by (auto simp: image_iff)
  with IH u show ?case by (auto split: prod.splits)
qed simp

text \<open>The registered names and handles, in the order of the map.\<close>

definition registered :: "cfg_center \<Rightarrow> string list \<Rightarrow> (string \<times> handle) list" where
  "registered cc ord = List.map_filter (\<lambda>ns. map_option (Pair ns) (cc_namespaces cc ns)) ord"

lemma registered_iff:
  "hash_order (cc_namespaces cc) ord \<Longrightarrow> (ns, h) \<in> set (registered cc ord) \<longleftrightarrow> cc_namespaces cc ns = Some h"
  by (force simp: registered_def map_filter_def hash_order_def)

lemma registered_handles:
  assumes "cc_ok cc" and "hash_order (cc_namespaces cc) ord"
  shows "distinct (map snd (registered cc ord)) \<and> (\<forall>(ns, h)\<in>set (registered cc ord). h < length (cc_store cc))"
proof
  have "distinct ks \<Longrightarrow> distinct (map snd (List.map_filter (\<lambda>ns. map_option (Pair ns) (cc_namespaces cc ns)) ks))" for ks
  proof (induction ks)
    case (Cons k ks)
    show ?case
    proof (cases "cc_namespaces cc k")
      case (Some h)
      have "h \<noteq> h'" if "k' \<in> set ks" "cc_namespaces cc k' = Some h'" for k' h'
        using assms(1) Some that Cons.prems unfolding cc_ok_def by (metis distinct.simps(2))
      then have "h \<notin> snd ` set (List.map_filter (\<lambda>ns. map_option (Pair ns) (cc_namespaces cc ns)) ks)"
        by (force simp: map_filter_def)
      with Some Cons show ?thesis by (simp add: List.map_filter_simps)
    qed (use Cons in \<open>simp add: List.map_filter_simps\<close>)
  qed (simp add: List.map_filter_simps)
  then show "distinct (map snd (registered cc ord))"
    using assms(2) by (simp add: registered_def hash_order_def)
  show "\<forall>(ns, h)\<in>set (registered cc ord). h < length (cc_store cc)"
    using assms registered_iff by (auto simp: cc_ok_def)
qed

lemma center_update_callback_eq:
  "center_update_callback X B ord cc e =
    (if cc_namespaces_poisoned cc \<or> cc_version_poisoned cc then (cc, [], Returns)
     else (case update_loop X B (cc_current_version cc) (ev_new_version e) (registered cc ord) (cc_store cc) of
        (store, calls, Returns) \<Rightarrow>
          (cc\<lparr>cc_store := store, cc_current_version := ev_new_version e\<rparr>, calls, Returns)
      | (store, calls, Unwinds) \<Rightarrow>
          (cc\<lparr>cc_store := store, cc_namespaces_poisoned := True, cc_version_poisoned := True\<rparr>, calls, Unwinds)
      | (store, calls, r) \<Rightarrow> (cc\<lparr>cc_store := store\<rparr>, calls, r)))"
  by (simp add: center_update_callback_def registered_def)

lemma center_update_ok:
  assumes "walker (walk_dir B)" and "nom (c_nom X)" and "cc_ok cc" and "hash_order (cc_namespaces cc) ord"
  shows "cc_ok (fst (center_update_callback X B ord cc e))"
proof -
  let ?l = "update_loop X B (cc_current_version cc) (ev_new_version e) (registered cc ord) (cc_store cc)"
  obtain store calls r where l: "?l = (store, calls, r)" by (metis prod_cases3)
  have "\<forall>nc\<in>set store. nc_ok nc"
    using update_loop_ok [OF assms(1,2), of "cc_store cc" "registered cc ord"] registered_handles [OF assms(3,4)]
      assms(3) l by (metis cc_ok_def fst_conv)
  moreover have "length store = length (cc_store cc)" "map nc_namespace store = map nc_namespace (cc_store cc)"
    using update_loop_frame [of X B "cc_current_version cc" "ev_new_version e" "registered cc ord" "cc_store cc"] l
    by simp_all
  then have "length store = length (cc_store cc) \<and> (\<forall>h < length store. nc_namespace (store ! h) = nc_namespace (cc_store cc ! h))"
    by (metis nth_map)
  ultimately show ?thesis
    using assms(3) l by (cases r) (auto simp: center_update_callback_eq cc_ok_def)
qed

end
