(* ===== verification/Center_Locks.thy ===== *)
theory Center_Locks
  imports Cfg_Center
begin

text \<open>
  The two mutexes of \<open>src/cfg_center/cfg_center.rs\<close> and the threads that take them: clients in
  \<open>create_namespace_scoped_cfg_center\<close> and \<open>get_namespace_scoped_cfg_center\<close>, and the watcher in
  \<open>update_callback\<close>. A thread is where it is between two lock operations; the work in between is
  that of the operations of \<open>Cfg_Center\<close>. A poisoned mutex is locked and let go at once. A client's
  callback may itself look up or create a namespace; then it asks for a mutex that its thread holds,
  and \<open>lock\<close> does not return.
\<close>

datatype pc =
    Idle
  | CreateStart      \<comment> \<open>before \<open>self.current_version.lock()\<close>\<close>
  | CreateLoading    \<comment> \<open>holds the version, in \<open>MemStorage::new\<close>\<close>
  | CreateLocking    \<comment> \<open>holds the version, before \<open>self.namespaces.lock()\<close>\<close>
  | CreateInserting  \<comment> \<open>holds both\<close>
  | UpdateStart      \<comment> \<open>before \<open>self.namespaces.lock()\<close>\<close>
  | UpdateLocking    \<comment> \<open>holds the namespaces, before \<open>self.current_version.lock()\<close>\<close>
  | UpdateLooping    \<comment> \<open>holds both\<close>
  | GetStart         \<comment> \<open>before \<open>self.namespaces.lock()\<close>\<close>
  | GetReading       \<comment> \<open>holds the namespaces\<close>
  | CallbackGets     \<comment> \<open>holds both, in a callback, before \<open>self.namespaces.lock()\<close>\<close>
  | CallbackCreates  \<comment> \<open>holds both, in a callback, before \<open>self.current_version.lock()\<close>\<close>

type_synonym thread = nat

record lock_state =
  l_pc :: "thread \<Rightarrow> pc"
  l_namespaces :: "thread option"
  l_version :: "thread option"

definition lock_init :: lock_state where
  "lock_init = \<lparr>l_pc = (\<lambda>t. Idle), l_namespaces = None, l_version = None\<rparr>"

abbreviation goto :: "lock_state \<Rightarrow> thread \<Rightarrow> pc \<Rightarrow> lock_state" where
  "goto s t p \<equiv> s\<lparr>l_pc := (l_pc s)(t := p)\<rparr>"

inductive lock_step :: "lock_state \<Rightarrow> thread \<Rightarrow> lock_state \<Rightarrow> bool" where
  call_create: "l_pc s t = Idle \<Longrightarrow> lock_step s t (goto s t CreateStart)"
| create_lock_version: "\<lbrakk>l_pc s t = CreateStart; l_version s = None\<rbrakk>
    \<Longrightarrow> lock_step s t ((goto s t CreateLoading)\<lparr>l_version := Some t\<rparr>)"
| create_version_poisoned: "\<lbrakk>l_pc s t = CreateStart; l_version s = None\<rbrakk> \<Longrightarrow> lock_step s t (goto s t Idle)"
| create_load_fails: "l_pc s t = CreateLoading \<Longrightarrow> lock_step s t ((goto s t Idle)\<lparr>l_version := None\<rparr>)"
| create_load_done: "l_pc s t = CreateLoading \<Longrightarrow> lock_step s t (goto s t CreateLocking)"
| create_lock_namespaces: "\<lbrakk>l_pc s t = CreateLocking; l_namespaces s = None\<rbrakk>
    \<Longrightarrow> lock_step s t ((goto s t CreateInserting)\<lparr>l_namespaces := Some t\<rparr>)"
| create_namespaces_poisoned: "\<lbrakk>l_pc s t = CreateLocking; l_namespaces s = None\<rbrakk>
    \<Longrightarrow> lock_step s t ((goto s t Idle)\<lparr>l_version := None\<rparr>)"
| create_return: "l_pc s t = CreateInserting
    \<Longrightarrow> lock_step s t ((goto s t Idle)\<lparr>l_namespaces := None, l_version := None\<rparr>)"
| call_update: "l_pc s t = Idle \<Longrightarrow> lock_step s t (goto s t UpdateStart)"
| update_lock_namespaces: "\<lbrakk>l_pc s t = UpdateStart; l_namespaces s = None\<rbrakk>
    \<Longrightarrow> lock_step s t ((goto s t UpdateLocking)\<lparr>l_namespaces := Some t\<rparr>)"
| update_namespaces_poisoned: "\<lbrakk>l_pc s t = UpdateStart; l_namespaces s = None\<rbrakk> \<Longrightarrow> lock_step s t (goto s t Idle)"
| update_lock_version: "\<lbrakk>l_pc s t = UpdateLocking; l_version s = None\<rbrakk>
    \<Longrightarrow> lock_step s t ((goto s t UpdateLooping)\<lparr>l_version := Some t\<rparr>)"
| update_version_poisoned: "\<lbrakk>l_pc s t = UpdateLocking; l_version s = None\<rbrakk>
    \<Longrightarrow> lock_step s t ((goto s t Idle)\<lparr>l_namespaces := None\<rparr>)"
| update_next: "l_pc s t = UpdateLooping \<Longrightarrow> lock_step s t s"
| callback_gets: "l_pc s t = UpdateLooping \<Longrightarrow> lock_step s t (goto s t CallbackGets)"
| callback_got: "\<lbrakk>l_pc s t = CallbackGets; l_namespaces s = None\<rbrakk> \<Longrightarrow> lock_step s t (goto s t UpdateLooping)"
| callback_creates: "l_pc s t = UpdateLooping \<Longrightarrow> lock_step s t (goto s t CallbackCreates)"
| callback_created: "\<lbrakk>l_pc s t = CallbackCreates; l_version s = None\<rbrakk> \<Longrightarrow> lock_step s t (goto s t UpdateLooping)"
| update_return: "l_pc s t = UpdateLooping
    \<Longrightarrow> lock_step s t ((goto s t Idle)\<lparr>l_namespaces := None, l_version := None\<rparr>)"
| call_get: "l_pc s t = Idle \<Longrightarrow> lock_step s t (goto s t GetStart)"
| get_lock_namespaces: "\<lbrakk>l_pc s t = GetStart; l_namespaces s = None\<rbrakk>
    \<Longrightarrow> lock_step s t ((goto s t GetReading)\<lparr>l_namespaces := Some t\<rparr>)"
| get_namespaces_poisoned: "\<lbrakk>l_pc s t = GetStart; l_namespaces s = None\<rbrakk> \<Longrightarrow> lock_step s t (goto s t Idle)"
| get_return: "l_pc s t = GetReading \<Longrightarrow> lock_step s t ((goto s t Idle)\<lparr>l_namespaces := None\<rparr>)"

inductive_cases lock_stepE: "lock_step s t s'"

inductive lock_run :: "lock_state \<Rightarrow> lock_state \<Rightarrow> bool" where
  run_here: "lock_run s s"
| run_step: "\<lbrakk>lock_run s s'; lock_step s' t s''\<rbrakk> \<Longrightarrow> lock_run s s''"

definition lock_move :: "lock_state \<Rightarrow> lock_state \<Rightarrow> bool" where
  "lock_move l l' \<longleftrightarrow> (\<exists>t. lock_step l t l')"

lemma lock_moves_run: "lock_move\<^sup>*\<^sup>* l l' \<Longrightarrow> lock_run l l'"
  by (induction rule: rtranclp_induct) (auto simp: lock_move_def intro: lock_run.intros)

text \<open>Each lock is held by the thread that is where it holds it, and by no other.\<close>

definition holds_namespaces :: "pc \<Rightarrow> bool" where
  "holds_namespaces p \<longleftrightarrow> p \<in> {CreateInserting, UpdateLocking, UpdateLooping, GetReading,
     CallbackGets, CallbackCreates}"

definition holds_version :: "pc \<Rightarrow> bool" where
  "holds_version p \<longleftrightarrow> p \<in> {CreateLoading, CreateLocking, CreateInserting, UpdateLooping,
     CallbackGets, CallbackCreates}"

definition locks_ok :: "lock_state \<Rightarrow> bool" where
  "locks_ok s \<longleftrightarrow> (\<forall>t. (holds_namespaces (l_pc s t) \<longleftrightarrow> l_namespaces s = Some t) \<and>
     (holds_version (l_pc s t) \<longleftrightarrow> l_version s = Some t))"

lemma locks_ok_init: "locks_ok lock_init"
  by (simp add: locks_ok_def lock_init_def holds_namespaces_def holds_version_def)

lemma locks_ok_step:
  assumes "lock_step s t s'" and "locks_ok s"
  shows "locks_ok s'"
  unfolding locks_ok_def
proof
  fix u
  have at: "(holds_namespaces (l_pc s v) \<longleftrightarrow> l_namespaces s = Some v) \<and>
      (holds_version (l_pc s v) \<longleftrightarrow> l_version s = Some v)" for v
    using assms(2) by (simp add: locks_ok_def)
  show "(holds_namespaces (l_pc s' u) \<longleftrightarrow> l_namespaces s' = Some u) \<and>
      (holds_version (l_pc s' u) \<longleftrightarrow> l_version s' = Some u)"
    using assms(1) at [of t] at [of u]
    by (elim lock_stepE) (auto simp: holds_namespaces_def holds_version_def)
qed

lemma locks_ok_run: "\<lbrakk>lock_run s s'; locks_ok s\<rbrakk> \<Longrightarrow> locks_ok s'"
  by (induction rule: lock_run.induct) (auto intro: locks_ok_step)


section \<open>Deadlock\<close>

text \<open>
  A creating thread holds the version and waits for the namespaces, the watcher holds the
  namespaces and waits for the version.
\<close>

definition deadlocked :: "thread \<Rightarrow> thread \<Rightarrow> lock_state \<Rightarrow> bool" where
  "deadlocked t u s \<longleftrightarrow> l_pc s t = CreateLocking \<and> l_pc s u = UpdateLocking \<and>
     l_version s = Some t \<and> l_namespaces s = Some u"

lemma deadlock_reached:
  assumes "t \<noteq> u"
  shows "\<exists>s. lock_run lock_init s \<and> deadlocked t u s"
proof -
  let ?s1 = "goto lock_init t CreateStart"
  let ?s2 = "(goto ?s1 t CreateLoading)\<lparr>l_version := Some t\<rparr>"
  let ?s3 = "goto ?s2 t CreateLocking"
  let ?s4 = "goto ?s3 u UpdateStart"
  let ?s5 = "(goto ?s4 u UpdateLocking)\<lparr>l_namespaces := Some u\<rparr>"
  have "lock_step lock_init t ?s1" by (rule call_create) (simp add: lock_init_def)
  moreover have "lock_step ?s1 t ?s2" by (rule create_lock_version) (simp_all add: lock_init_def)
  moreover have "lock_step ?s2 t ?s3" by (rule create_load_done) simp
  moreover have "lock_step ?s3 u ?s4" by (rule call_update) (use assms in \<open>simp add: lock_init_def\<close>)
  moreover have "lock_step ?s4 u ?s5" by (rule update_lock_namespaces) (simp_all add: lock_init_def)
  ultimately have "lock_run lock_init ?s5" by (meson run_here run_step)
  moreover have "deadlocked t u ?s5" using assms by (simp add: deadlocked_def)
  ultimately show ?thesis by blast
qed

lemma deadlocked_step:
  assumes "lock_step s v s'" and "deadlocked t u s" and "locks_ok s"
  shows "deadlocked t u s' \<and> (l_pc s w = GetStart \<longrightarrow> l_pc s' w = GetStart) \<and> v \<noteq> t \<and> v \<noteq> u"
proof -
  have "\<not> holds_namespaces (l_pc s v) \<or> v = u" "\<not> holds_version (l_pc s v) \<or> v = t"
    using assms(2,3) by (auto simp: locks_ok_def deadlocked_def)
  with assms(1,2) show ?thesis
    by (elim lock_stepE) (auto simp: deadlocked_def holds_namespaces_def holds_version_def)
qed

lemma deadlocked_run:
  "\<lbrakk>lock_run s s'; deadlocked t u s; locks_ok s\<rbrakk>
    \<Longrightarrow> deadlocked t u s' \<and> (l_pc s w = GetStart \<longrightarrow> l_pc s' w = GetStart)"
proof (induction rule: lock_run.induct)
  case (run_step s s' v s'')
  then have "locks_ok s'" using locks_ok_run by blast
  with run_step deadlocked_step [of s' v s'' t u w] show ?case by blast
qed simp

text \<open>
  A callback that asks the center for a namespace: its thread holds both mutexes and waits for one.
\<close>

definition self_locked :: "thread \<Rightarrow> lock_state \<Rightarrow> bool" where
  "self_locked t s \<longleftrightarrow> l_pc s t \<in> {CallbackGets, CallbackCreates}"

lemma self_locked_step:
  assumes "lock_step s v s'" and "self_locked t s" and "locks_ok s"
  shows "self_locked t s' \<and> (l_pc s w \<in> {CreateStart, UpdateStart, GetStart} \<longrightarrow> l_pc s' w = l_pc s w)"
proof -
  have at: "(holds_namespaces (l_pc s u) \<longleftrightarrow> l_namespaces s = Some u) \<and>
      (holds_version (l_pc s u) \<longleftrightarrow> l_version s = Some u)" for u
    using assms(3) by (simp add: locks_ok_def)
  have "l_namespaces s = Some t" "l_version s = Some t"
    using at [of t] assms(2) by (auto simp: self_locked_def holds_namespaces_def holds_version_def)
  with assms(1,2) at [of v] show ?thesis
    by (elim lock_stepE) (auto simp: self_locked_def holds_namespaces_def holds_version_def)
qed

lemma self_locked_run:
  "\<lbrakk>lock_run s s'; self_locked t s; locks_ok s\<rbrakk>
    \<Longrightarrow> self_locked t s' \<and> (l_pc s w \<in> {CreateStart, UpdateStart, GetStart} \<longrightarrow> l_pc s' w = l_pc s w)"
proof (induction rule: lock_run.induct)
  case (run_step s s' v s'')
  then have "locks_ok s'" using locks_ok_run by blast
  with run_step self_locked_step [of s' v s'' t w] show ?case by auto
qed simp

lemma self_lock_reached: "\<exists>s. lock_run lock_init s \<and> l_pc s t = CallbackGets \<and> self_locked t s"
proof -
  let ?s1 = "goto lock_init t UpdateStart"
  let ?s2 = "(goto ?s1 t UpdateLocking)\<lparr>l_namespaces := Some t\<rparr>"
  let ?s3 = "(goto ?s2 t UpdateLooping)\<lparr>l_version := Some t\<rparr>"
  let ?s4 = "goto ?s3 t CallbackGets"
  have "lock_step lock_init t ?s1" by (rule call_update) (simp add: lock_init_def)
  moreover have "lock_step ?s1 t ?s2" by (rule update_lock_namespaces) (simp_all add: lock_init_def)
  moreover have "lock_step ?s2 t ?s3" by (rule update_lock_version) (simp_all add: lock_init_def)
  moreover have "lock_step ?s3 t ?s4" by (rule callback_gets) simp
  ultimately have "lock_run lock_init ?s4" by (meson run_here run_step)
  then show ?thesis by (intro exI [of _ ?s4]) (simp add: self_locked_def)
qed

end
