(* ===== verification/Lock_Properties.thy ===== *)
theory Lock_Properties
  imports Center_Locks
begin

text \<open>The properties of the two mutexes of the center, for any number of threads.\<close>

text \<open>The critical sections exclude each other: two threads never hold the same mutex, so a creation
  past its second lock, the loop of an update and a lookup never run at the same time, and no
  update runs its loop while a creation loads.\<close>

lemma center_locks_exclude:
  assumes "lock_run lock_init s" and "t \<noteq> u"
  shows "\<not> (holds_namespaces (l_pc s t) \<and> holds_namespaces (l_pc s u)) \<and>
    \<not> (holds_version (l_pc s t) \<and> holds_version (l_pc s u))"
proof -
  have "locks_ok s" using locks_ok_run [OF assms(1) locks_ok_init] .
  then have "holds_namespaces (l_pc s t) \<Longrightarrow> l_namespaces s = Some t" "holds_namespaces (l_pc s u) \<Longrightarrow> l_namespaces s = Some u"
    "holds_version (l_pc s t) \<Longrightarrow> l_version s = Some t" "holds_version (l_pc s u) \<Longrightarrow> l_version s = Some u"
    by (auto simp: locks_ok_def)
  with assms(2) show ?thesis by auto
qed

lemma creating_run: "\<exists>s. lock_run lock_init s \<and> l_pc s 0 = CreateLoading"
proof -
  let ?s1 = "goto lock_init 0 CreateStart"
  let ?s2 = "(goto ?s1 0 CreateLoading)\<lparr>l_version := Some 0\<rparr>"
  have "lock_step lock_init 0 ?s1" by (rule call_create) (simp add: lock_init_def)
  moreover have "lock_step ?s1 0 ?s2" by (rule create_lock_version) (simp_all add: lock_init_def)
  ultimately have "lock_run lock_init ?s2" by (meson run_here run_step)
  then show ?thesis by (intro exI [of _ ?s2]) simp
qed

lemma center_locks_exclude_witness:
  "\<exists>s. lock_run lock_init s \<and> l_pc s 0 = CreateLoading \<and> \<not> holds_version (l_pc s 1)"
proof -
  obtain s where s: "lock_run lock_init s" "l_pc s 0 = CreateLoading" using creating_run by blast
  with center_locks_exclude [OF s(1), of 0 1] show ?thesis by (auto simp: holds_version_def)
qed

text \<open>The two operations take the mutexes in opposite orders, so a creation and an update can lock each
  other out: the state is reachable, nothing ever leaves it, and a later lookup never gets
  beyond its start.\<close>

lemma create_update_deadlock:
  assumes "t \<noteq> u"
  shows "\<exists>s. lock_run lock_init s \<and> deadlocked t u s \<and>
    (\<forall>s' w. lock_run s s' \<longrightarrow> deadlocked t u s' \<and> (l_pc s w = GetStart \<longrightarrow> l_pc s' w = GetStart))"
proof -
  obtain s where s: "lock_run lock_init s" "deadlocked t u s" using deadlock_reached [OF assms] by blast
  with locks_ok_run [OF s(1) locks_ok_init] deadlocked_run show ?thesis by blast
qed

lemma create_update_deadlock_witness: "\<exists>s. lock_run lock_init s \<and> deadlocked 0 1 s"
  using create_update_deadlock [of 0 1] by auto

definition waiting :: "lock_state \<Rightarrow> thread \<Rightarrow> bool" where
  "waiting s t \<longleftrightarrow> (l_pc s t \<in> {CreateStart, UpdateLocking, CallbackCreates} \<and> l_version s \<noteq> None) \<or>
     (l_pc s t \<in> {CreateLocking, UpdateStart, GetStart, CallbackGets} \<and> l_namespaces s \<noteq> None)"

lemma busy_steps:
  assumes "l_pc s t \<noteq> Idle" and "\<not> waiting s t"
  shows "\<exists>s'. lock_step s t s'"
  using assms by (cases "l_pc s t") (auto simp: waiting_def intro: lock_step.intros)

text \<open>There is no other deadlock: in a reachable state with a thread inside an operation, some such
  thread can go on, unless a creation and an update have locked each other out or a callback has
  locked itself out. So without creations, and with loads that end and
  callbacks that leave the center alone, every operation that is not starved ends.\<close>

lemma only_deadlock:
  assumes "lock_run lock_init s" and "l_pc s w \<noteq> Idle"
  shows "(\<exists>t s'. l_pc s t \<noteq> Idle \<and> lock_step s t s') \<or> (\<exists>t u. deadlocked t u s) \<or> (\<exists>t. self_locked t s)"
proof (rule ccontr)
  assume stuck: "\<not> ?thesis"
  have ok: "locks_ok s" using locks_ok_run [OF assms(1) locks_ok_init] .
  have wait: "waiting s t" if "l_pc s t \<noteq> Idle" for t using busy_steps [OF that] stuck that by blast
  have ns: "l_pc s t = UpdateLocking" if "l_namespaces s = Some t" for t
  proof -
    from ok that have h: "holds_namespaces (l_pc s t)" by (simp add: locks_ok_def)
    then have "l_pc s t \<noteq> Idle" by (auto simp: holds_namespaces_def)
    with wait [OF this] h stuck show ?thesis by (auto simp: waiting_def holds_namespaces_def self_locked_def)
  qed
  have ver: "l_pc s t = CreateLocking" if "l_version s = Some t" for t
  proof -
    from ok that have h: "holds_version (l_pc s t)" by (simp add: locks_ok_def)
    then have "l_pc s t \<noteq> Idle" by (auto simp: holds_version_def)
    with wait [OF this] h stuck show ?thesis by (auto simp: waiting_def holds_version_def self_locked_def)
  qed
  have both: "l_namespaces s \<noteq> None \<and> l_version s \<noteq> None"
  proof -
    have "l_namespaces s \<noteq> None" if "l_version s = Some t" for t
      using wait [of t] ver [OF that] by (auto simp: waiting_def)
    moreover have "l_version s \<noteq> None" if "l_namespaces s = Some t" for t
      using wait [of t] ns [OF that] by (auto simp: waiting_def)
    ultimately show ?thesis using wait [OF assms(2)] by (cases "l_version s") (auto simp: waiting_def)
  qed
  then obtain t u where "l_version s = Some t" "l_namespaces s = Some u" by blast
  with ns ver have "deadlocked t u s" by (simp add: deadlocked_def)
  with stuck show False by blast
qed

lemma only_deadlock_witness: "\<exists>s t s'. lock_run lock_init s \<and> l_pc s t \<noteq> Idle \<and>
    (lock_step s t s' \<or> (\<exists>u v. deadlocked u v s) \<or> (\<exists>u. self_locked u s))"
proof -
  obtain s where s: "lock_run lock_init s" "l_pc s 0 = CreateLoading" using creating_run by blast
  then have "l_pc s 0 \<noteq> Idle" by simp
  from only_deadlock [OF s(1) this] s show ?thesis by (metis pc.distinct(3))
qed

text \<open>C28. A client's callback runs with both mutexes held. One that looks up or creates a namespace of the same
  center asks for a mutex of its own thread and never returns, and from then on every lookup,
  creation and update that comes to its first lock waits there for ever.\<close>

theorem reentrant_callback:
  assumes "lock_run lock_init s" and "self_locked t s" and "lock_run s s'"
  shows "self_locked t s' \<and> (\<forall>w. l_pc s w \<in> {CreateStart, UpdateStart, GetStart} \<longrightarrow> l_pc s' w = l_pc s w)"
  using self_locked_run [OF assms(3,2) locks_ok_run [OF assms(1) locks_ok_init]] by blast

theorem reentrant_callback_witness:
  "\<exists>s. lock_run lock_init s \<and> self_locked 0 s \<and> (\<forall>s'. lock_run s s' \<longrightarrow> self_locked 0 s')"
proof -
  obtain s where s: "lock_run lock_init s" "self_locked 0 s" using self_lock_reached by blast
  with reentrant_callback [OF s] show ?thesis by blast
qed

end
