(* ===== verification/Git_Locks.thy ===== *)
theory Git_Locks
  imports Prelude
begin

text \<open>
  The locks of \<open>src/storage_backends/git/mod.rs\<close>: \<open>backend_inner\<close>, a read-write lock of the crate parking_lot,
  and \<open>git_repo\<close>, a reentrant mutex. Threads that load a namespace walk a tree, and read each file from
  inside the walk's callback; the watcher's thread synchronises. The lock is fair, as its documentation
  says: a reader waits while a writer holds the lock or is queued for it. Locks are given back in
  the step that leaves their scope. \<open>get_current_version\<close> and \<open>set_update_cb\<close> take what a walk takes
  that meets no file.
\<close>

type_synonym git_thread = nat

datatype git_pc =
    Outside
  | WalkReads      \<comment> \<open>in \<open>walk_dir\<close>, before \<open>self.0.read()\<close>\<close>
  | WalkLocks      \<comment> \<open>holds a read guard, before \<open>git_repo.lock()\<close>\<close>
  | Walking        \<comment> \<open>holds both, in \<open>Tree::walk\<close>\<close>
  | FileReads      \<comment> \<open>in the callback, in \<open>get_obj_by_hash\<close>, before \<open>self.0.read()\<close>\<close>
  | FileLocks      \<comment> \<open>holds two read guards, before \<open>git_repo.lock()\<close>\<close>
  | FileReading    \<comment> \<open>holds both twice\<close>
  | ProbeReads     \<comment> \<open>in \<open>git_sync_local_branch\<close>, before \<open>backend_inner.read()\<close>\<close>
  | Probing        \<comment> \<open>holds a read guard\<close>
  | SyncWrites     \<comment> \<open>queued in \<open>backend_inner.write()\<close>\<close>
  | SyncLocks      \<comment> \<open>holds the write guard, before \<open>git_repo.lock()\<close>\<close>
  | Syncing        \<comment> \<open>holds both, fetches and moves the branch\<close>
  | VersionWrites  \<comment> \<open>in \<open>git_watcher\<close>, queued in \<open>backend_inner.write()\<close>\<close>
  | VersionWriting \<comment> \<open>holds the write guard\<close>

type_synonym git_threads = "git_thread \<Rightarrow> git_pc"

definition git_threads_init :: git_threads where
  "git_threads_init = (\<lambda>t. Outside)"

definition reads_inner :: "git_pc \<Rightarrow> bool" where
  "reads_inner p \<longleftrightarrow> p \<in> {WalkLocks, Walking, FileReads, FileLocks, FileReading, Probing}"

definition writes_inner :: "git_pc \<Rightarrow> bool" where
  "writes_inner p \<longleftrightarrow> p \<in> {SyncLocks, Syncing, VersionWriting}"

definition queued_writer :: "git_pc \<Rightarrow> bool" where
  "queued_writer p \<longleftrightarrow> p \<in> {SyncWrites, VersionWrites}"

definition holds_repo :: "git_pc \<Rightarrow> bool" where
  "holds_repo p \<longleftrightarrow> p \<in> {Walking, FileReads, FileLocks, FileReading, Syncing}"

text \<open>When \<open>read\<close>, \<open>write\<close> and \<open>lock\<close> return to a thread.\<close>

definition may_read :: "git_threads \<Rightarrow> bool" where
  "may_read s \<longleftrightarrow> (\<forall>u. \<not> writes_inner (s u) \<and> \<not> queued_writer (s u))"

definition may_write :: "git_threads \<Rightarrow> bool" where
  "may_write s \<longleftrightarrow> (\<forall>u. \<not> writes_inner (s u) \<and> \<not> reads_inner (s u))"

definition may_lock :: "git_threads \<Rightarrow> git_thread \<Rightarrow> bool" where
  "may_lock s t \<longleftrightarrow> (\<forall>u. u \<noteq> t \<longrightarrow> \<not> holds_repo (s u))"

text \<open>A load: \<open>walk_dir\<close>, and \<open>get_obj_by_hash\<close> from its callback.\<close>

inductive load_lock_step :: "git_threads \<Rightarrow> git_thread \<Rightarrow> git_threads \<Rightarrow> bool" where
  walk_call: "s t = Outside \<Longrightarrow> load_lock_step s t (s(t := WalkReads))"
| walk_read: "\<lbrakk>s t = WalkReads; may_read s\<rbrakk> \<Longrightarrow> load_lock_step s t (s(t := WalkLocks))"
| walk_lock: "\<lbrakk>s t = WalkLocks; may_lock s t\<rbrakk> \<Longrightarrow> load_lock_step s t (s(t := Walking))"
| walk_file: "s t = Walking \<Longrightarrow> load_lock_step s t (s(t := FileReads))"
| file_read: "\<lbrakk>s t = FileReads; may_read s\<rbrakk> \<Longrightarrow> load_lock_step s t (s(t := FileLocks))"
| file_lock: "\<lbrakk>s t = FileLocks; may_lock s t\<rbrakk> \<Longrightarrow> load_lock_step s t (s(t := FileReading))"
| file_return: "s t = FileReading \<Longrightarrow> load_lock_step s t (s(t := Walking))"
| walk_return: "s t = Walking \<Longrightarrow> load_lock_step s t (s(t := Outside))"

text \<open>The watcher: \<open>git_sync_local_branch\<close>, and the version that \<open>git_watcher\<close> keeps.\<close>

inductive sync_lock_step :: "git_threads \<Rightarrow> git_thread \<Rightarrow> git_threads \<Rightarrow> bool" where
  sync_call: "s t = Outside \<Longrightarrow> sync_lock_step s t (s(t := ProbeReads))"
| probe_read: "\<lbrakk>s t = ProbeReads; may_read s\<rbrakk> \<Longrightarrow> sync_lock_step s t (s(t := Probing))"
| probe_same: "s t = Probing \<Longrightarrow> sync_lock_step s t (s(t := Outside))"
| probe_moved: "s t = Probing \<Longrightarrow> sync_lock_step s t (s(t := SyncWrites))"
| sync_write: "\<lbrakk>s t = SyncWrites; may_write s\<rbrakk> \<Longrightarrow> sync_lock_step s t (s(t := SyncLocks))"
| sync_lock: "\<lbrakk>s t = SyncLocks; may_lock s t\<rbrakk> \<Longrightarrow> sync_lock_step s t (s(t := Syncing))"
| sync_return: "s t = Syncing \<Longrightarrow> sync_lock_step s t (s(t := Outside))"
| version_call: "s t = Outside \<Longrightarrow> sync_lock_step s t (s(t := VersionWrites))"
| version_write: "\<lbrakk>s t = VersionWrites; may_write s\<rbrakk> \<Longrightarrow> sync_lock_step s t (s(t := VersionWriting))"
| version_return: "s t = VersionWriting \<Longrightarrow> sync_lock_step s t (s(t := Outside))"

inductive git_lock_step :: "git_threads \<Rightarrow> git_thread \<Rightarrow> git_threads \<Rightarrow> bool" where
  git_loads: "load_lock_step s t s' \<Longrightarrow> git_lock_step s t s'"
| git_syncs: "sync_lock_step s t s' \<Longrightarrow> git_lock_step s t s'"

inductive_cases load_lock_stepE: "load_lock_step s t s'"
inductive_cases sync_lock_stepE: "sync_lock_step s t s'"
inductive_cases git_lock_stepE: "git_lock_step s t s'"

lemmas git_lock_cases = git_lock_stepE load_lock_stepE sync_lock_stepE
lemmas git_lock_intros = git_lock_step.intros load_lock_step.intros sync_lock_step.intros

inductive git_lock_run :: "git_threads \<Rightarrow> git_threads \<Rightarrow> bool" where
  git_run_here: "git_lock_run s s"
| git_run_step: "\<lbrakk>git_lock_run s s'; git_lock_step s' t s''\<rbrakk> \<Longrightarrow> git_lock_run s s''"

lemma git_step_frame: "git_lock_step s t s' \<Longrightarrow> u \<noteq> t \<Longrightarrow> s' u = s u"
  by (elim git_lock_cases) simp_all

section \<open>Exclusion\<close>

text \<open>A writer is alone, and the repository has one holder.\<close>

definition git_locks_ok :: "git_threads \<Rightarrow> bool" where
  "git_locks_ok s \<longleftrightarrow> (\<forall>t u. t \<noteq> u \<longrightarrow>
     \<not> (writes_inner (s t) \<and> (writes_inner (s u) \<or> reads_inner (s u))) \<and>
     \<not> (holds_repo (s t) \<and> holds_repo (s u)))"

lemmas git_pc_defs = reads_inner_def writes_inner_def queued_writer_def holds_repo_def

lemma git_locks_ok_init: "git_locks_ok git_threads_init"
  by (simp add: git_locks_ok_def git_threads_init_def git_pc_defs)

text \<open>A guard is taken only when it is free.\<close>

lemma git_step_acquires:
  assumes "git_lock_step s t s'"
  shows "(reads_inner (s' t) \<longrightarrow> reads_inner (s t) \<or> may_read s) \<and>
    (writes_inner (s' t) \<longrightarrow> writes_inner (s t) \<or> may_write s) \<and>
    (holds_repo (s' t) \<longrightarrow> holds_repo (s t) \<or> may_lock s t)"
  using assms by (elim git_lock_cases) (simp_all add: git_pc_defs)

lemma git_locks_ok_step:
  assumes "git_lock_step s t s'" and "git_locks_ok s"
  shows "git_locks_ok s'"
  unfolding git_locks_ok_def
proof (intro allI impI)
  fix u v :: git_thread assume uv: "u \<noteq> v"
  have ok: "\<not> (writes_inner (s x) \<and> (writes_inner (s y) \<or> reads_inner (s y)))" "\<not> (holds_repo (s x) \<and> holds_repo (s y))"
    if "x \<noteq> y" for x y
    using assms(2) that unfolding git_locks_ok_def by blast+
  note got = git_step_acquires [OF assms(1)]
  have other: "\<not> (writes_inner (s' t) \<and> (writes_inner (s x) \<or> reads_inner (s x)))"
      "\<not> (writes_inner (s x) \<and> (writes_inner (s' t) \<or> reads_inner (s' t)))" "\<not> (holds_repo (s' t) \<and> holds_repo (s x))"
    if "x \<noteq> t" for x
    using ok [of t x] ok [of x t] got that unfolding may_read_def may_write_def may_lock_def by blast+
  show "\<not> (writes_inner (s' u) \<and> (writes_inner (s' v) \<or> reads_inner (s' v))) \<and> \<not> (holds_repo (s' u) \<and> holds_repo (s' v))"
  proof (cases "u = t")
    case True
    with uv have "v \<noteq> t" by blast
    with other [OF this] git_step_frame [OF assms(1) this] True show ?thesis by simp
  next
    case False
    show ?thesis
    proof (cases "v = t")
      case True
      with other [OF False] git_step_frame [OF assms(1) False] show ?thesis by auto
    qed (use ok [OF uv] git_step_frame [OF assms(1)] False in simp)
  qed
qed

lemma git_locks_ok_run: "\<lbrakk>git_lock_run s s'; git_locks_ok s\<rbrakk> \<Longrightarrow> git_locks_ok s'"
  by (induction rule: git_lock_run.induct) (auto intro: git_locks_ok_step)

section \<open>Deadlock\<close>

text \<open>
  A walk that has come to a file wants its second read guard, behind a writer that is queued until the
  walk gives up its first.
\<close>

definition walk_stuck :: "git_thread \<Rightarrow> git_thread \<Rightarrow> git_threads \<Rightarrow> bool" where
  "walk_stuck t u s \<longleftrightarrow> s t = FileReads \<and> queued_writer (s u)"

lemma walk_stuck_reached:
  assumes "t \<noteq> u"
  shows "\<exists>s. git_lock_run git_threads_init s \<and> walk_stuck t u s"
proof -
  let ?s1 = "git_threads_init(t := WalkReads)"
  let ?s2 = "?s1(t := WalkLocks)"
  let ?s3 = "?s2(u := ProbeReads)"
  let ?s4 = "?s3(u := Probing)"
  let ?s5 = "?s4(u := SyncWrites)"
  let ?s6 = "?s5(t := Walking)"
  let ?s7 = "?s6(t := FileReads)"
  note [simp] = git_threads_init_def may_read_def may_lock_def git_pc_defs
  have "git_lock_step git_threads_init t ?s1" by (rule git_loads, rule walk_call) simp
  moreover have "git_lock_step ?s1 t ?s2" by (rule git_loads, rule walk_read) simp_all
  moreover have "git_lock_step ?s2 u ?s3" by (rule git_syncs, rule sync_call) (use assms in simp)
  moreover have "git_lock_step ?s3 u ?s4" by (rule git_syncs, rule probe_read) simp_all
  moreover have "git_lock_step ?s4 u ?s5" by (rule git_syncs, rule probe_moved) simp
  moreover have "git_lock_step ?s5 t ?s6" by (rule git_loads, rule walk_lock) (use assms in simp_all)
  moreover have "git_lock_step ?s6 t ?s7" by (rule git_loads, rule walk_file) simp
  ultimately have "git_lock_run git_threads_init ?s7" by (meson git_run_here git_run_step)
  moreover have "walk_stuck t u ?s7" using assms by (simp add: walk_stuck_def)
  ultimately show ?thesis by blast
qed

lemma walk_stuck_step:
  assumes "git_lock_step s v s'" and "walk_stuck t u s"
  shows "walk_stuck t u s' \<and> (s w \<in> {WalkReads, ProbeReads, FileReads} \<longrightarrow> s' w = s w)"
proof -
  have "\<not> may_read s" "\<not> may_write s"
    using assms(2) by (auto simp: walk_stuck_def may_read_def may_write_def git_pc_defs)
  with assms(1,2) show ?thesis by (elim git_lock_cases) (auto simp: walk_stuck_def git_pc_defs)
qed

lemma walk_stuck_run:
  "\<lbrakk>git_lock_run s s'; walk_stuck t u s\<rbrakk>
    \<Longrightarrow> walk_stuck t u s' \<and> (s w \<in> {WalkReads, ProbeReads, FileReads} \<longrightarrow> s' w = s w)"
proof (induction rule: git_lock_run.induct)
  case (git_run_step s s' v s'')
  with walk_stuck_step [of s' v s'' t u w] show ?case by auto
qed simp

lemma git_steps:
  "s t \<in> {Walking, FileReading, Probing, Syncing, VersionWriting} \<Longrightarrow> \<exists>s'. git_lock_step s t s'"
  "\<lbrakk>may_lock s t; s t \<in> {WalkLocks, FileLocks, SyncLocks}\<rbrakk> \<Longrightarrow> \<exists>s'. git_lock_step s t s'"
  "\<lbrakk>may_read s; s t \<in> {WalkReads, FileReads, ProbeReads}\<rbrakk> \<Longrightarrow> \<exists>s'. git_lock_step s t s'"
  "\<lbrakk>may_write s; s t \<in> {SyncWrites, VersionWrites}\<rbrakk> \<Longrightarrow> \<exists>s'. git_lock_step s t s'"
  by (elim insertE emptyE; blast intro: git_lock_intros)+

text \<open>There is no other: without it, some thread that is inside goes on.\<close>

lemma git_only_stuck:
  assumes "git_lock_run git_threads_init s" and "s w \<noteq> Outside"
  shows "(\<exists>t s'. s t \<noteq> Outside \<and> git_lock_step s t s') \<or> (\<exists>t u. walk_stuck t u s)"
proof (rule ccontr)
  assume stuck: "\<not> ?thesis"
  have ok: "git_locks_ok s" by (rule git_locks_ok_run [OF assms(1) git_locks_ok_init])
  have no: "\<not> git_lock_step s t s'" if "s t \<noteq> Outside" for t s' using stuck that by blast
  have out: "s t \<notin> {Walking, FileReading, Probing, Syncing, VersionWriting}" for t
    using git_steps(1) [of s t] no by fastforce
  have "may_lock s t" if "s t = FileLocks" for t
    using ok that unfolding may_lock_def git_locks_ok_def by (auto simp: git_pc_defs)
  then have file_locks: "s t \<noteq> FileLocks" for t using git_steps(2) [of s t] no by fastforce
  have "may_read s" if t: "s t = FileReads" for t
  proof -
    have "\<not> queued_writer (s u)" for u using stuck t unfolding walk_stuck_def by blast
    moreover have "\<not> writes_inner (s u)" for u
    proof (cases "u = t")
      case False
      with ok t show ?thesis unfolding git_locks_ok_def by (auto simp: reads_inner_def)
    qed (use t in \<open>simp add: writes_inner_def\<close>)
    ultimately show ?thesis by (simp add: may_read_def)
  qed
  then have file_reads: "s t \<noteq> FileReads" for t using git_steps(3) [of s t] no by fastforce
  have repo: "\<not> holds_repo (s t)" for t
    using out [of t] file_locks [of t] file_reads [of t] by (auto simp: holds_repo_def)
  then have "may_lock s t" for t by (simp add: may_lock_def)
  then have locks: "s t \<notin> {WalkLocks, SyncLocks}" for t using git_steps(2) [of s t] no by fastforce
  have free: "\<not> writes_inner (s t)" "\<not> reads_inner (s t)" for t
    using out [of t] locks [of t] file_locks [of t] file_reads [of t] by (auto simp: git_pc_defs)
  then have "may_write s" by (simp add: may_write_def)
  then have writes: "s t \<notin> {SyncWrites, VersionWrites}" for t using git_steps(4) [of s t] no by fastforce
  then have queue: "\<not> queued_writer (s t)" for t by (simp add: queued_writer_def)
  with free have "may_read s" by (simp add: may_read_def)
  then have "s t \<notin> {WalkReads, ProbeReads}" for t using git_steps(3) [of s t] no by fastforce
  with out [of w] locks [of w] writes [of w] file_locks [of w] file_reads [of w] assms(2) show False
    by (cases "s w") auto
qed

text \<open>A namespace that is loaded over the git backend while its watcher has found a new commit can hang for
  ever: the walk takes a second read guard for each file, and the fair lock puts it behind the writer
  that waits for the first. Such a state is reachable, nothing leaves it, and every later load waits too.\<close>

lemma git_walk_deadlock:
  assumes "t \<noteq> u"
  shows "\<exists>s. git_lock_run git_threads_init s \<and> walk_stuck t u s \<and>
    (\<forall>s'. git_lock_run s s' \<longrightarrow> walk_stuck t u s' \<and>
      (\<forall>s'' w. git_lock_run s' s'' \<and> s' w = WalkReads \<longrightarrow> s'' w = WalkReads))"
proof -
  obtain s where s: "git_lock_run git_threads_init s" "walk_stuck t u s" using walk_stuck_reached [OF assms] by blast
  have "walk_stuck t u s' \<and> (\<forall>s'' w. git_lock_run s' s'' \<and> s' w = WalkReads \<longrightarrow> s'' w = WalkReads)"
    if "git_lock_run s s'" for s'
  proof -
    have "walk_stuck t u s'" using walk_stuck_run [OF that s(2)] by blast
    with walk_stuck_run [of s' _ t u] show ?thesis by fastforce
  qed
  with s show ?thesis by blast
qed

lemma git_walk_deadlock_witness: "\<exists>s. git_lock_run git_threads_init s \<and> walk_stuck 0 1 s"
  using git_walk_deadlock [of 0 1] by auto

end
