(* ===== verification/System_Locks.thy ===== *)
theory System_Locks
  imports Lock_Properties Git_Locks
begin

text \<open>
  The locks of the center and of the git backend together: a thread that creates a namespace walks the
  repository with the version locked, and the watcher's thread walks it in the loop of an update, with
  both mutexes locked; between updates it synchronises with the remote.
\<close>

record system_state =
  sys_center :: lock_state
  sys_git :: git_threads

definition system_init :: system_state where
  "system_init = \<lparr>sys_center = lock_init, sys_git = git_threads_init\<rparr>"

text \<open>
  A thread inside the backend does nothing in the center until it has come back; it enters the
  backend to load, or, in the case of the watcher \<open>w\<close>, to synchronise. Only the watcher updates.
\<close>

inductive system_step :: "thread \<Rightarrow> system_state \<Rightarrow> thread \<Rightarrow> system_state \<Rightarrow> bool" for w where
  center_moves: "\<lbrakk>lock_step (sys_center s) t l; sys_git s t = Outside; l_pc l t = UpdateStart \<longrightarrow> t = w\<rbrakk>
    \<Longrightarrow> system_step w s t (s\<lparr>sys_center := l\<rparr>)"
| backend_loads: "\<lbrakk>load_lock_step (sys_git s) t g; l_pc (sys_center s) t \<in> {CreateLoading, UpdateLooping}\<rbrakk>
    \<Longrightarrow> system_step w s t (s\<lparr>sys_git := g\<rparr>)"
| backend_syncs: "\<lbrakk>sync_lock_step (sys_git s) w g; l_pc (sys_center s) w = Idle\<rbrakk>
    \<Longrightarrow> system_step w s w (s\<lparr>sys_git := g\<rparr>)"

inductive_cases system_stepE: "system_step w s t s'"

definition system_move :: "thread \<Rightarrow> system_state \<Rightarrow> system_state \<Rightarrow> bool" where
  "system_move w s s' \<longleftrightarrow> (\<exists>t. system_step w s t s')"

lemma system_moves:
  "\<lbrakk>(system_move w)\<^sup>*\<^sup>* s s'; system_step w s' t s''\<rbrakk> \<Longrightarrow> (system_move w)\<^sup>*\<^sup>* s s''"
  by (rule rtranclp.rtrancl_into_rtrancl) (auto simp: system_move_def)

section \<open>The parts\<close>

definition git_moves :: "git_threads \<Rightarrow> git_threads \<Rightarrow> bool" where
  "git_moves g g' \<longleftrightarrow> (\<exists>t. git_lock_step g t g')"

interpretation system_center: forward_simulation "system_move w" lock_move "\<lambda>l s. l = sys_center s"
proof
  fix s s' l assume "system_move w s s'" and l: "l = sys_center s"
  then obtain t where "system_step w s t s'" by (auto simp: system_move_def)
  then have "lock_move (sys_center s) (sys_center s') \<or> sys_center s' = sys_center s"
    by cases (auto simp: lock_move_def)
  with l show "\<exists>l'. lock_move\<^sup>*\<^sup>* l l' \<and> l' = sys_center s'" by auto
qed

interpretation system_git: forward_simulation "system_move w" git_moves "\<lambda>g s. g = sys_git s"
proof
  fix s s' g assume "system_move w s s'" and g: "g = sys_git s"
  then obtain t where "system_step w s t s'" by (auto simp: system_move_def)
  then have "git_moves (sys_git s) (sys_git s') \<or> sys_git s' = sys_git s"
    by cases (auto simp: git_moves_def intro: git_lock_step.intros)
  with g show "\<exists>g'. git_moves\<^sup>*\<^sup>* g g' \<and> g' = sys_git s'" by auto
qed

lemma git_moves_run: "git_moves\<^sup>*\<^sup>* g g' \<Longrightarrow> git_lock_run g g'"
  by (induction rule: rtranclp_induct) (auto simp: git_moves_def intro: git_lock_run.intros)

lemma system_runs:
  assumes "(system_move w)\<^sup>*\<^sup>* s s'"
  shows "lock_run (sys_center s) (sys_center s')" and "git_lock_run (sys_git s) (sys_git s')"
  using system_center.simulates [OF assms refl] system_git.simulates [OF assms refl] lock_moves_run git_moves_run
  by blast+

section \<open>Where a thread can be\<close>

definition loads_pc :: "git_pc \<Rightarrow> bool" where
  "loads_pc p \<longleftrightarrow> p \<in> {WalkReads, WalkLocks, Walking, FileReads, FileLocks, FileReading}"

definition syncs_pc :: "git_pc \<Rightarrow> bool" where
  "syncs_pc p \<longleftrightarrow> p \<in> {ProbeReads, Probing, SyncWrites, SyncLocks, Syncing, VersionWrites, VersionWriting}"

lemma load_step_pcs:
  "load_lock_step g t g' \<Longrightarrow> (g t = Outside \<or> loads_pc (g t)) \<and> (g' t = Outside \<or> loads_pc (g' t)) \<and> (\<forall>u. u \<noteq> t \<longrightarrow> g' u = g u)"
  by (elim load_lock_stepE) (simp_all add: loads_pc_def)

lemma sync_step_pcs:
  "sync_lock_step g t g' \<Longrightarrow> (g t = Outside \<or> syncs_pc (g t)) \<and> (g' t = Outside \<or> syncs_pc (g' t)) \<and> (\<forall>u. u \<noteq> t \<longrightarrow> g' u = g u)"
  by (elim sync_lock_stepE) (simp_all add: syncs_pc_def)

lemma lock_step_frame: "lock_step l t l' \<Longrightarrow> u \<noteq> t \<Longrightarrow> l_pc l' u = l_pc l u"
  by (erule lock_stepE) simp_all

text \<open>A thread inside the backend is there for a load or, the watcher, between two updates.\<close>

definition system_ok :: "thread \<Rightarrow> system_state \<Rightarrow> bool" where
  "system_ok w s \<longleftrightarrow> (\<forall>t. (loads_pc (sys_git s t) \<longrightarrow> l_pc (sys_center s) t \<in> {CreateLoading, UpdateLooping}) \<and>
     (syncs_pc (sys_git s t) \<longrightarrow> t = w \<and> l_pc (sys_center s) t = Idle))"

lemma system_ok_init: "system_ok w system_init"
  by (simp add: system_ok_def system_init_def git_threads_init_def loads_pc_def syncs_pc_def)

lemma pcs_apart: "\<not> (loads_pc p \<and> syncs_pc p)" "\<not> loads_pc Outside" "\<not> syncs_pc Outside"
  by (auto simp: loads_pc_def syncs_pc_def)

lemma system_ok_step:
  assumes "system_step w s t s'" and "system_ok w s"
  shows "system_ok w s'"
  unfolding system_ok_def
proof
  fix u
  have ok: "(loads_pc (sys_git s u) \<longrightarrow> l_pc (sys_center s) u \<in> {CreateLoading, UpdateLooping}) \<and>
      (syncs_pc (sys_git s u) \<longrightarrow> u = w \<and> l_pc (sys_center s) u = Idle)"
    using assms(2) by (simp add: system_ok_def)
  from assms(1) show "(loads_pc (sys_git s' u) \<longrightarrow> l_pc (sys_center s') u \<in> {CreateLoading, UpdateLooping}) \<and>
      (syncs_pc (sys_git s' u) \<longrightarrow> u = w \<and> l_pc (sys_center s') u = Idle)"
  proof cases
    case (center_moves l)
    with ok lock_step_frame [of "sys_center s" t l u] pcs_apart show ?thesis by (cases "u = t") auto
  next
    case (backend_loads g)
    with ok load_step_pcs [of "sys_git s" t g] pcs_apart show ?thesis by (cases "u = t") auto
  next
    case (backend_syncs g)
    with ok sync_step_pcs [of "sys_git s" w g] pcs_apart show ?thesis by (cases "u = w") auto
  qed
qed

lemma system_ok_run: "\<lbrakk>(system_move w)\<^sup>*\<^sup>* s s'; system_ok w s\<rbrakk> \<Longrightarrow> system_ok w s'"
  by (induction rule: rtranclp_induct) (auto simp: system_move_def intro: system_ok_step)

section \<open>Progress\<close>

definition inside :: "system_state \<Rightarrow> thread \<Rightarrow> bool" where
  "inside s t \<longleftrightarrow> l_pc (sys_center s) t \<noteq> Idle \<or> sys_git s t \<noteq> Outside"

lemma begins_idle: "\<lbrakk>lock_step l t l'; l_pc l t \<noteq> Idle\<rbrakk> \<Longrightarrow> l_pc l' t \<noteq> UpdateStart"
  by (elim lock_stepE) auto

lemma backend_goes_on:
  assumes "system_ok w s" and "git_lock_step (sys_git s) t g" and "sys_git s t \<noteq> Outside"
  shows "\<exists>s'. system_step w s t s'"
  using assms(2)
proof cases
  case git_loads
  with load_step_pcs assms(1,3) have "l_pc (sys_center s) t \<in> {CreateLoading, UpdateLooping}"
    unfolding system_ok_def by blast
  with git_loads show ?thesis by (blast intro: backend_loads)
next
  case git_syncs
  with sync_step_pcs assms(1,3) have "t = w \<and> l_pc (sys_center s) t = Idle" unfolding system_ok_def by blast
  with git_syncs show ?thesis by (blast intro: backend_syncs)
qed

text \<open>C24. The center over the git backend: in every reachable state with a thread inside an operation, some
  such thread can go on, but for three deadlocks: a creation and an update have taken the mutexes
  in opposite orders, a callback has called its own center, or a walk has met a writer.\<close>

theorem system_progress:
  assumes "(system_move w)\<^sup>*\<^sup>* system_init s" and "inside s v"
  shows "(\<exists>t s'. inside s t \<and> system_step w s t s') \<or> (\<exists>t u. deadlocked t u (sys_center s)) \<or>
    (\<exists>t. self_locked t (sys_center s)) \<or> (\<exists>t u. walk_stuck t u (sys_git s))"
proof (cases "\<exists>t. sys_git s t \<noteq> Outside")
  case True
  have git: "git_lock_run git_threads_init (sys_git s)" using system_runs(2) [OF assms(1)] by (simp add: system_init_def)
  from True obtain t where "sys_git s t \<noteq> Outside" by blast
  from git_only_stuck [OF git this] show ?thesis
  proof (elim disjE exE conjE)
    fix u g assume u: "sys_git s u \<noteq> Outside" "git_lock_step (sys_git s) u g"
    from backend_goes_on [OF system_ok_run [OF assms(1) system_ok_init] u(2,1)] u(1)
    show ?thesis by (auto simp: inside_def)
  qed blast
next
  case False
  have "lock_run lock_init (sys_center s)" using system_runs(1) [OF assms(1)] by (simp add: system_init_def)
  moreover have "l_pc (sys_center s) v \<noteq> Idle" using assms(2) False by (simp add: inside_def)
  ultimately consider (step) t l where "l_pc (sys_center s) t \<noteq> Idle" "lock_step (sys_center s) t l"
    | (stuck) "(\<exists>t u. deadlocked t u (sys_center s)) \<or> (\<exists>t. self_locked t (sys_center s))"
    using only_deadlock by blast
  then show ?thesis
  proof cases
    case step
    with False begins_idle have "system_step w s t (s\<lparr>sys_center := l\<rparr>)" by (blast intro: center_moves)
    with step show ?thesis by (auto simp: inside_def)
  qed blast
qed

section \<open>A creation that meets the watcher\<close>

text \<open>The state in which it has happened.\<close>

definition hung :: "thread \<Rightarrow> thread \<Rightarrow> system_state \<Rightarrow> bool" where
  "hung t w s \<longleftrightarrow> l_pc (sys_center s) t = CreateLoading \<and> l_version (sys_center s) = Some t \<and>
     walk_stuck t w (sys_git s)"

lemma hang_reached:
  assumes "t \<noteq> w"
  shows "\<exists>s. (system_move w)\<^sup>*\<^sup>* system_init s \<and> hung t w s"
proof -
  let ?l1 = "goto lock_init t CreateStart"
  let ?l2 = "(goto ?l1 t CreateLoading)\<lparr>l_version := Some t\<rparr>"
  let ?at = "\<lambda>g. \<lparr>sys_center = ?l2, sys_git = g\<rparr>"
  let ?g1 = "git_threads_init(t := WalkReads)"
  let ?g2 = "?g1(t := WalkLocks)"
  let ?g3 = "?g2(w := ProbeReads)"
  let ?g4 = "?g3(w := Probing)"
  let ?g5 = "?g4(w := SyncWrites)"
  let ?g6 = "?g5(t := Walking)"
  let ?g7 = "?g6(t := FileReads)"
  note [simp] = system_init_def lock_init_def git_threads_init_def may_read_def may_lock_def git_pc_defs
  have loads: "system_step w (?at g) t (?at g')" if "load_lock_step g t g'" for g g'
    using backend_loads [of "?at g" t g' w] that by simp
  have syncs: "system_step w (?at g) w (?at g')" if "sync_lock_step g w g'" for g g'
    using backend_syncs [of "?at g" w g'] that assms by simp
  have "lock_step lock_init t ?l1" by (rule call_create) simp
  from center_moves [of system_init t ?l1 w] this
  have "system_step w system_init t (system_init\<lparr>sys_center := ?l1\<rparr>)" by simp
  moreover have "lock_step ?l1 t ?l2" by (rule create_lock_version) simp_all
  from center_moves [of "system_init\<lparr>sys_center := ?l1\<rparr>" t ?l2 w] this
  have "system_step w (system_init\<lparr>sys_center := ?l1\<rparr>) t (?at git_threads_init)" by simp
  ultimately have "(system_move w)\<^sup>*\<^sup>* system_init (?at git_threads_init)"
    by (meson rtranclp.rtrancl_refl system_moves)
  moreover have "system_step w (?at git_threads_init) t (?at ?g1)" by (intro loads walk_call) simp
  moreover have "system_step w (?at ?g1) t (?at ?g2)" by (intro loads walk_read) simp_all
  moreover have "system_step w (?at ?g2) w (?at ?g3)" by (intro syncs sync_call) (use assms in simp)
  moreover have "system_step w (?at ?g3) w (?at ?g4)" by (intro syncs probe_read) simp_all
  moreover have "system_step w (?at ?g4) w (?at ?g5)" by (intro syncs probe_moved) simp
  moreover have "system_step w (?at ?g5) t (?at ?g6)" by (intro loads walk_lock) (use assms in simp_all)
  moreover have "system_step w (?at ?g6) t (?at ?g7)" by (intro loads walk_file) simp
  ultimately have "(system_move w)\<^sup>*\<^sup>* system_init (?at ?g7)" by (meson system_moves)
  moreover have "hung t w (?at ?g7)" using assms by (simp add: hung_def walk_stuck_def)
  ultimately show ?thesis by blast
qed

lemma hung_step:
  assumes "system_step w s v s'" and "hung t w s" and "locks_ok (sys_center s)"
  shows "hung t w s'"
proof -
  have stuck: "walk_stuck t w (sys_git s)" and at: "sys_git s t = FileReads" "l_pc (sys_center s) t = CreateLoading"
    using assms(2) by (auto simp: hung_def walk_stuck_def)
  from assms(1) show ?thesis
  proof cases
    case (center_moves l)
    then have "v \<noteq> t" using at by auto
    with lock_step_frame [OF center_moves(2)] at have pc: "l_pc l t = CreateLoading" by simp
    moreover have "l_version l = Some t"
      using locks_ok_step [OF center_moves(2) assms(3)] pc by (auto simp: locks_ok_def holds_version_def)
    ultimately show ?thesis using stuck center_moves(1) by (simp add: hung_def)
  next
    case (backend_loads g)
    with walk_stuck_step [OF git_lock_step.git_loads stuck] assms(2) show ?thesis by (simp add: hung_def)
  next
    case (backend_syncs g)
    with walk_stuck_step [OF git_lock_step.git_syncs stuck] assms(2) show ?thesis by (simp add: hung_def)
  qed
qed

lemma hung_run:
  assumes "(system_move w)\<^sup>*\<^sup>* s s'" and "hung t w s" and "locks_ok (sys_center s)"
  shows "hung t w s' \<and> locks_ok (sys_center s')"
  using assms(1)
proof (induction rule: rtranclp_induct)
  case (step s' s'')
  then obtain v where v: "system_step w s' v s''" by (auto simp: system_move_def)
  then have "system_move w s' s''" by (auto simp: system_move_def)
  then have "(system_move w)\<^sup>*\<^sup>* s' s''" by (rule r_into_rtranclp)
  then have "lock_run (sys_center s') (sys_center s'')" by (rule system_runs(1))
  with hung_step [OF v] step.IH locks_ok_run show ?case by blast
qed (use assms in simp)

text \<open>C27. A namespace that is created over the git backend while the watcher has found a new commit can stop
  the center for good: the walk takes a second read guard for a file, the fair lock puts it behind
  the writer that waits for the first, and the version stays locked. No other creation passes its first
  lock, no update enters its loop, and the watcher never reports again.\<close>

theorem system_hang:
  assumes "t \<noteq> w"
  shows "\<exists>s. (system_move w)\<^sup>*\<^sup>* system_init s \<and> hung t w s \<and>
    (\<forall>s'. (system_move w)\<^sup>*\<^sup>* s s' \<longrightarrow> hung t w s' \<and> queued_writer (sys_git s' w) \<and>
      (\<forall>u. u \<noteq> t \<longrightarrow> \<not> holds_version (l_pc (sys_center s') u)))"
proof -
  obtain s where s: "(system_move w)\<^sup>*\<^sup>* system_init s" "hung t w s" using hang_reached [OF assms] by blast
  have "lock_run lock_init (sys_center s)" using system_runs(1) [OF s(1)] by (simp add: system_init_def)
  then have ok: "locks_ok (sys_center s)" using locks_ok_init by (rule locks_ok_run)
  have "hung t w s' \<and> queued_writer (sys_git s' w) \<and> (\<forall>u. u \<noteq> t \<longrightarrow> \<not> holds_version (l_pc (sys_center s') u))"
    if "(system_move w)\<^sup>*\<^sup>* s s'" for s'
    using hung_run [OF that s(2) ok] by (auto simp: hung_def walk_stuck_def locks_ok_def)
  with s show ?thesis by blast
qed

theorem system_hang_witness: "\<exists>s. (system_move 1)\<^sup>*\<^sup>* system_init s \<and> hung 0 1 s"
  using system_hang [of 0 1] by auto

theorem system_progress_witness:
  "\<exists>s. (system_move 1)\<^sup>*\<^sup>* system_init s \<and> inside s 0 \<and>
    ((\<exists>t s'. inside s t \<and> system_step 1 s t s') \<or> (\<exists>t u. deadlocked t u (sys_center s)) \<or>
     (\<exists>t. self_locked t (sys_center s)) \<or> (\<exists>t u. walk_stuck t u (sys_git s)))"
proof -
  obtain s where s: "(system_move 1)\<^sup>*\<^sup>* system_init s" "hung 0 1 s" using hang_reached [of 0 1] by auto
  then have "inside s 0" by (simp add: hung_def inside_def)
  with system_progress [OF s(1) this] s(1) show ?thesis by blast
qed

end
