(* ===== verification/Backend_Equivalence.thy ===== *)
theory Backend_Equivalence
  imports Git_Properties "HOL-Library.Multiset"
begin

text \<open>
  The two backends on the same content: a commit of the git backend and a version directory of the
  filesystem backend that hold the same files give the same index, although they walk the files in
  different orders. Only the order of the items of a rule may differ.
\<close>

section \<open>Trees in pre-order\<close>

fun pre_entries :: "string list \<Rightarrow> node \<Rightarrow> (string list \<times> node) list" where
  "pre_entries ns (File b) = []"
| "pre_entries ns (Dir es) = concat (map (\<lambda>(n, t). (ns @ [n], t) # pre_entries (ns @ [n]) t) es)"

lemma mset_concat_map_split:
  "mset (concat (map (\<lambda>x. f x # g x) xs)) = mset (map f xs) + mset (concat (map g xs))"
  by (induction xs) simp_all

lemma mset_concat_rev: "mset (concat (rev xss)) = mset (concat xss)"
  by (induction xss) simp_all

lemma mset_pre_entries: "mset (pre_entries ns t) = mset (entries ns t)"
proof (induction ns t rule: pre_entries.induct)
  case (2 ns es)
  have "mset (concat (map (\<lambda>(n, t). pre_entries (ns @ [n]) t) us)) = mset (concat (map (\<lambda>(n, t). entries (ns @ [n]) t) us))"
    if "set us \<subseteq> set es" for us
    using that 2 by (induction us) auto
  from this [of es] have "mset (pre_entries ns (Dir es)) =
      mset (map (\<lambda>(n, t). (ns @ [n], t)) es) + mset (concat (map (\<lambda>(n, t). entries (ns @ [n]) t) es))"
    using mset_concat_map_split [of "\<lambda>(n, t). (ns @ [n], t)" "\<lambda>(n, t). pre_entries (ns @ [n]) t" es]
    by (simp add: case_prod_unfold)
  also have "\<dots> = mset (entries ns (Dir es))"
    using mset_concat_rev [of "map (\<lambda>(n, t). entries (ns @ [n]) t) es"] by (simp add: rev_map)
  finally show ?case .
qed simp

definition only_files :: "(string list \<times> node) list \<Rightarrow> (string list \<times> string) list" where
  "only_files = List.map_filter (\<lambda>(ns, u). case u of File raw \<Rightarrow> Some (ns, raw) | Dir es \<Rightarrow> None)"

lemma mset_map_filter: "mset xs = mset ys \<Longrightarrow> mset (List.map_filter f xs) = mset (List.map_filter f ys)"
  unfolding List.map_filter_def by (metis mset_filter mset_map)

lemma mset_pre_files: "mset (only_files (pre_entries [] t)) = mset (files t)"
  unfolding only_files_def files_def by (rule mset_map_filter) (rule mset_pre_entries)

section \<open>What a repository holds\<close>

definition dir_text :: "string list \<Rightarrow> string" where
  "dir_text ns = concat (map (\<lambda>n. n @ ''/'') ns)"

text \<open>The entry that \<open>libgit2\<close> reports for a node, and its blob.\<close>

definition entry_for :: "('r, 'c) git2 \<Rightarrow> 'r git_backend \<Rightarrow> string \<times> git_entry \<Rightarrow> string list \<times> node \<Rightarrow> bool" where
  "entry_for G gb re nu \<longleftrightarrow>
     (case (re, nu) of ((root, e), (ns, u)) \<Rightarrow>
        root = dir_text (butlast ns) \<and> ge_name e = Some (last ns) \<and> ge_is_tree e = is_dir_node u \<and>
        (\<forall>raw. u = File raw \<longrightarrow> git_get_obj_by_hash G gb (ge_id e) = Ok raw))"

text \<open>At a version and path, the repository holds a tree.\<close>

definition git_holds ::
  "('r, 'c) git2 \<Rightarrow> ('r \<Rightarrow> string \<Rightarrow> (string \<times> git_entry) list option) \<Rightarrow> 'r git_backend \<Rightarrow> version_item
    \<Rightarrow> path \<Rightarrow> node \<Rightarrow> bool" where
  "git_holds G preorder gb v path t \<longleftrightarrow>
     (\<exists>oid es. git_walk_start G (gb_git_repo gb) v path = Ok (Some oid) \<and>
        preorder (gb_git_repo gb) oid = Some es \<and> list_all2 (entry_for G gb) es (pre_entries [] t))"

lemma dir_text_join:
  assumes "\<forall>n\<in>set (us @ ms). good_name n" and "us \<noteq> []"
  shows "abs_of us @ ''/'' @ dir_text ms @ n = abs_of (us @ ms @ [n])"
  using assms
proof (induction ms arbitrary: us)
  case Nil
  then show ?case by (simp add: dir_text_def abs_of_snoc)
next
  case (Cons m ms)
  have "abs_of us @ ''/'' @ dir_text (m # ms) @ n = abs_of (us @ [m]) @ ''/'' @ dir_text ms @ n"
    using Cons.prems by (simp add: dir_text_def abs_of_snoc)
  also have "\<dots> = abs_of ((us @ [m]) @ ms @ [n])"
    by (rule Cons.IH) (use Cons.prems in auto)
  finally show ?case by simp
qed

lemma dir_text_relative: "\<forall>m\<in>set ms. good_name m \<Longrightarrow> \<not> has_root (dir_text ms)"
proof (cases ms)
  case (Cons m ms')
  assume "\<forall>m\<in>set ms. good_name m"
  with Cons have "m \<noteq> []" "slash \<notin> set m" by (auto simp: good_name_def)
  with Cons show ?thesis by (cases m) (auto simp: dir_text_def has_root_def)
qed (simp add: dir_text_def has_root_def)

lemma entry_path:
  assumes "\<forall>k\<in>set (d # ks @ ns). good_name k" and "ns \<noteq> []" and "entry_for G gb (root, e) (ns, u)"
  shows "abs_path (entry_item (abs_of (d # ks) @ ''/'') root e (last ns)) = abs_of (d # ks @ ns)"
proof -
  let ?p = "abs_of (d # ks) @ ''/''"
  obtain ms n where ns: "ns = ms @ [n]" using assms(2) by (cases ns rule: rev_cases) auto
  have root: "root = dir_text ms" using assms(3) ns by (simp add: entry_for_def)
  have "path_join ?p root = ?p @ dir_text ms"
    using dir_text_relative [of ms] assms(1) ns by (simp add: root path_join_def)
  moreover have "last (?p @ dir_text ms) = slash"
    by (cases ms rule: rev_cases) (simp_all add: dir_text_def)
  moreover have "good_name n" using assms(1) ns by simp
  then have "\<not> has_root n" by (cases n) (auto simp: good_name_def has_root_def)
  ultimately have "path_join (path_join ?p root) n = ?p @ dir_text ms @ n"
    by (simp add: path_join_def)
  also have "\<dots> = abs_of ((d # ks) @ ms @ [n])"
    using dir_text_join [of "d # ks" ms n] assms(1) ns by simp
  finally show ?thesis by (simp add: entry_item_def ns)
qed

section \<open>Loading over git\<close>

text \<open>One step of the walk: a directory is passed over, and a file that parses is added under its key.\<close>

lemma git_dir_step:
  assumes "entry_for G gb (root, e) (ns, Dir us)"
  shows "git_walk_step p (file_cb add) c root e = (c, Code 0)"
  using assms by (simp add: entry_for_def git_walk_step_def file_cb_def)

lemma git_file_step:
  fixes gb :: "'r git_backend" and G :: "('r, 'c) git2"
  assumes "\<forall>k\<in>set (d # ks). good_name k \<and> utf8_valid k"
    and "entry_for G gb (root, e) (ns, File raw)" and "ns \<noteq> []" and "\<forall>n\<in>set ns. good_name n \<and> utf8_valid n"
    and add: "\<And>cur k. git_get_obj_by_hash G gb (hash cur) = Ok raw \<Longrightarrow>
      internal_path (abs_of [d]) cur = (Ok k :: (string, walk_dir_error) res) \<Longrightarrow>
      add c cur = and_then (map_err WalkLoaderError (load raw)) (\<lambda>obj. Ok (put c k obj))"
    and "load raw = Ok obj"
  shows "git_walk_step (abs_of (d # ks) @ ''/'') (file_cb add) c root e =
    (put c (join_on slash (ks @ ns)) obj, Code 0)"
proof -
  let ?p = "abs_of (d # ks) @ ''/''"
  let ?i = "entry_item ?p root e (last ns)"
  have e: "ge_name e = Some (last ns)" "\<not> ge_is_tree e"
    using assms(2) by (simp_all add: entry_for_def)
  have "abs_path ?i = abs_of (d # ks @ ns)"
    by (rule entry_path [where G = G and gb = gb and u = "File raw"]) (use assms in auto)
  also have "\<dots> = foldl path_join ?p ns"
    by (rule trans [OF _ path_below_namespace [symmetric]]) (use assms(1,3,4) in auto)
  finally have "internal_path (abs_of [d]) ?i = (Ok (join_on slash (ks @ ns)) :: (string, walk_dir_error) res)"
    using assms(1,3,4) by (intro internal_path_item) auto
  moreover have "git_get_obj_by_hash G gb (hash ?i) = Ok raw"
    using assms(2) by (simp add: entry_for_def entry_item_def)
  ultimately have "add c ?i = Ok (put c (join_on slash (ks @ ns)) obj)"
    using add [of ?i "join_on slash (ks @ ns)"] assms(6) by simp
  with e show ?thesis by (simp add: git_walk_step_def entry_item_def file_cb_def)
qed

text \<open>The visit of the entries of a tree whose files all parse, one after the other.\<close>

lemma git_visit_parse:
  fixes gb :: "'r git_backend" and G :: "('r, 'c) git2"
  assumes "\<forall>k\<in>set (d # ks). good_name k \<and> utf8_valid k"
    and "list_all2 (entry_for G gb) es nus"
    and "\<forall>(ns, u)\<in>set nus. ns \<noteq> [] \<and> (\<forall>n\<in>set ns. good_name n \<and> utf8_valid n)"
    and add: "\<And>c cur raw k. git_get_obj_by_hash G gb (hash cur) = Ok raw \<Longrightarrow>
      internal_path (abs_of [d]) cur = (Ok k :: (string, walk_dir_error) res) \<Longrightarrow>
      add c cur = and_then (map_err WalkLoaderError (load raw)) (\<lambda>obj. Ok (put c k obj))"
    and "parse_all load (map (\<lambda>(ns, raw). (join_on slash (ks @ ns), raw)) (only_files nus)) = Ok kos"
  shows "git_visit (git_walk_step (abs_of (d # ks) @ ''/'') (file_cb add)) es c =
    (fold (\<lambda>(k, obj) c. put c k obj) kos c, Ok ())"
  using assms(2,3,5)
proof (induction es nus arbitrary: kos c rule: list_all2_induct)
  case Nil
  then show ?case by (simp add: only_files_def parse_all_def List.map_filter_simps)
next
  case (Cons re es nu nus)
  obtain root e where re: "re = (root, e)" by force
  obtain ns u where nu: "nu = (ns, u)" by force
  have rest: "\<forall>(ns, u)\<in>set nus. ns \<noteq> [] \<and> (\<forall>n\<in>set ns. good_name n \<and> utf8_valid n)"
    using Cons.prems(1) by simp
  show ?case
  proof (cases u)
    case (Dir us)
    with Cons.prems(2) have "parse_all load (map (\<lambda>(ns, raw). (join_on slash (ks @ ns), raw)) (only_files nus)) = Ok kos"
      by (simp add: only_files_def nu List.map_filter_simps)
    note IH = Cons.IH [OF rest this]
    from Cons.hyps(1) Dir IH show ?thesis by (simp add: re nu git_dir_step)
  next
    case (File raw)
    from Cons.prems(2) File obtain obj kos' where kos: "kos = (join_on slash (ks @ ns), obj) # kos'" "load raw = Ok obj"
      and tail: "parse_all load (map (\<lambda>(ns, raw). (join_on slash (ks @ ns), raw)) (only_files nus)) = Ok kos'"
      by (auto simp: only_files_def nu List.map_filter_simps parse_all_def)
    note IH = Cons.IH [OF rest tail]
    have "git_walk_step (abs_of (d # ks) @ ''/'') (file_cb add) c root e =
        (put c (join_on slash (ks @ ns)) obj, Code 0)"
      by (rule git_file_step [OF assms(1), where load = load and raw = raw])
        (use Cons.hyps(1) Cons.prems(1) File re nu kos(2) add in auto)
    with IH kos(1) show ?thesis by (simp add: re)
  qed
qed

lemma parse_all_perm:
  assumes "parse_all load xs = Ok kos" and "mset ys = mset xs"
  shows "\<exists>kos'. parse_all load ys = Ok kos' \<and> mset kos' = mset kos"
  using assms list_all2_reorder_left_invariance [of _ xs kos ys]
  unfolding parse_all_def try_map_Ok_iff by metis

lemma pre_entries_names:
  assumes "well_named t" and "(ns, u) \<in> set (pre_entries [] t)"
  shows "ns \<noteq> [] \<and> (\<forall>n\<in>set ns. good_name n \<and> utf8_valid n)"
proof -
  have "(ns, u) \<in> set (entries [] t)" using assms(2) mset_pre_entries [of "[]" t] by (metis set_mset_mset)
  then have "ns \<noteq> []" "node_at t ns = Some u" using entries_at [OF assms(1), of ns u "[]"] by auto
  with node_at_names [OF this(2) assms(1)] show ?thesis by auto
qed

lemma git_dir_walk:
  fixes G :: "('r, 'c) git2"
  assumes "git_crate G preorder" and "\<forall>k\<in>set (d # ks). good_name k \<and> utf8_valid k"
    and "git_holds G preorder gb gv (abs_of (d # ks) @ ''/'') t" and "well_named t"
    and add: "\<And>c cur raw k. git_get_obj_by_hash G gb (hash cur) = Ok raw \<Longrightarrow>
      internal_path (abs_of [d]) cur = (Ok k :: (string, walk_dir_error) res) \<Longrightarrow>
      add c cur = and_then (map_err WalkLoaderError (load raw)) (\<lambda>obj. Ok (put c k obj))"
    and "parse_all load (keyed ks t) = Ok kos"
  shows "\<exists>kos'. mset kos' = mset kos \<and>
    (\<forall>c. walked (walk_dir (git_storage G gb) gv (abs_of (d # ks) @ ''/'') (file_cb add) c) =
       Ok (fold (\<lambda>(k, obj) c. put c k obj) kos' c))"
proof -
  let ?p = "abs_of (d # ks) @ ''/''"
  obtain oid es where start: "git_walk_start G (gb_git_repo gb) gv ?p = Ok (Some oid)"
    and pre: "preorder (gb_git_repo gb) oid = Some es" and all: "list_all2 (entry_for G gb) es (pre_entries [] t)"
    using assms(3) by (auto simp: git_holds_def)
  obtain kos' where kos': "parse_all load (map (\<lambda>(ns, raw). (join_on slash (ks @ ns), raw)) (only_files (pre_entries [] t))) = Ok kos'"
    "mset kos' = mset kos"
  proof -
    have "mset (map (\<lambda>(ns, raw). (join_on slash (ks @ ns), raw)) (only_files (pre_entries [] t))) = mset (keyed ks t)"
      by (simp add: keyed_def mset_pre_files)
    with parse_all_perm [OF assms(6)] that show ?thesis by blast
  qed
  have names: "\<forall>(ns, u)\<in>set (pre_entries [] t). ns \<noteq> [] \<and> (\<forall>n\<in>set ns. good_name n \<and> utf8_valid n)"
    using pre_entries_names [OF assms(4)] by blast
  have "tree_walk G (gb_git_repo gb) oid (git_walk_step ?p (file_cb add)) c =
      (fold (\<lambda>(k, obj) c. put c k obj) kos' c, Ok ())" for c
  proof -
    have "tree_walk G (gb_git_repo gb) oid (git_walk_step ?p (file_cb add)) c =
        git_visit (git_walk_step ?p (file_cb add)) es c"
      by (rule git_crate.walk_all [OF assms(1) pre git_crate.git_walk_steady [OF assms(1) steady_file_cb]])
    also have "\<dots> = (fold (\<lambda>(k, obj) c. put c k obj) kos' c, Ok ())"
      by (rule git_visit_parse [OF assms(2) all names _ kos'(1)]) (rule add)
    finally show ?thesis .
  qed
  then have "walked (walk_dir (git_storage G gb) gv ?p (file_cb add) c) = Ok (fold (\<lambda>(k, obj) c. put c k obj) kos' c)" for c
    by (simp add: git_storage_def git_walk_dir_def start)
  with kos'(2) show ?thesis by blast
qed

section \<open>Indexes built in different orders\<close>

lemma only_files_fst: "distinct (map fst xs) \<Longrightarrow> distinct (map fst (only_files xs))"
proof (induction xs)
  case (Cons x xs)
  obtain ns u where x: "x = (ns, u)" by force
  have "ns \<notin> fst ` set (only_files xs)" if "ns \<notin> fst ` set xs"
    using that by (force simp: only_files_def List.map_filter_def split: node.splits)
  with Cons x show ?case by (cases u) (auto simp: only_files_def List.map_filter_simps)
qed (simp add: only_files_def List.map_filter_simps)

lemma keyed_distinct:
  assumes "well_named t" and "\<forall>k\<in>set ks. good_name k"
  shows "distinct (map fst (keyed ks t))"
proof -
  have "distinct (map fst (files t))"
    using only_files_fst [OF entries_distinct [OF assms(1), of "[]"]] by (simp add: files_def only_files_def)
  moreover have "inj_on (\<lambda>ns. join_on slash (ks @ ns)) (set (map fst (files t)))"
  proof (rule inj_onI)
    fix ns ms assume mem: "ns \<in> set (map fst (files t))" "ms \<in> set (map fst (files t))"
      and eq: "join_on slash (ks @ ns) = join_on slash (ks @ ms)"
    have names: "us \<noteq> [] \<and> (\<forall>n\<in>set us. slash \<notin> set n)" if us: "us \<in> set (map fst (files t))" for us
    proof -
      from us obtain raw where "(us, raw) \<in> set (files t)" by auto
      with files_at [OF assms(1)] have "us \<noteq> []" "node_at t us = Some (File raw)" by auto
      with node_at_names [OF this(2) assms(1)] show ?thesis by auto
    qed
    have ks: "\<forall>k\<in>set ks. slash \<notin> set k" using assms(2) by (simp add: good_name_def)
    have split: "split_on slash (join_on slash (ks @ us)) = ks @ us" if us: "us \<in> set (map fst (files t))" for us
    proof (rule split_join)
      show "ks @ us \<noteq> []" using names [OF us] by blast
      show "\<forall>w\<in>set (ks @ us). slash \<notin> set w" using names [OF us] ks by (metis Un_iff set_append)
    qed
    have "ks @ ns = ks @ ms" using split [OF mem(1)] split [OF mem(2)] eq by metis
    then show "ns = ms" by (rule same_append_eq [THEN iffD1])
  qed
  ultimately have "distinct (map (\<lambda>ns. join_on slash (ks @ ns)) (map fst (files t)))"
    by (simp only: distinct_map)
  then show ?thesis by (simp add: keyed_def comp_def case_prod_unfold)
qed

lemma parse_keys: "parse_all load xs = Ok kos \<Longrightarrow> map fst kos = map fst xs"
  by (induction xs arbitrary: kos) (auto simp: parse_all_def)

lemma map_of_perm: "\<lbrakk>mset xs = mset ys; distinct (map fst xs)\<rbrakk> \<Longrightarrow> map_of (rev xs) = map_of (rev ys)"
proof -
  assume m: "mset xs = mset ys" and d: "distinct (map fst xs)"
  from m have "mset (map fst xs) = mset (map fst ys)" by simp
  with d have "distinct (map fst ys)" by (metis mset_eq_imp_distinct_iff)
  with d have "distinct (map fst (rev xs))" "distinct (map fst (rev ys))"
    by (metis distinct_rev rev_map)+
  moreover have "set (rev xs) = set (rev ys)" using m by (metis mset_rev mset_eq_setD)
  ultimately show ?thesis by (metis map_of_inject_set)
qed

text \<open>The same objects in another order give the same rules and resources, and the same items per rule.\<close>

lemma build_index_perm:
  assumes "mset rs' = mset rs" and "mset ls' = mset ls" and "mset ss' = mset ss"
    and "distinct (map fst rs)" and "distinct (map fst ss)"
  shows "rule_stor (build_index rs' ls' ss') = rule_stor (build_index rs ls ss)"
    and "res_stor (build_index rs' ls' ss') = res_stor (build_index rs ls ss)"
    and "map_option mset (link_stor (build_index rs' ls' ss') k) = map_option mset (link_stor (build_index rs ls ss) k)"
proof -
  have "distinct (map fst rs')" "distinct (map fst ss')"
    using assms by (metis mset_eq_imp_distinct_iff mset_map)+
  then have "map_of (rev rs') = map_of (rev rs)" "map_of (rev ss') = map_of (rev ss)"
    using map_of_perm assms(1,3) by blast+
  then show "rule_stor (build_index rs' ls' ss') = rule_stor (build_index rs ls ss)"
    "res_stor (build_index rs' ls' ss') = res_stor (build_index rs ls ss)"
    by (intro ext, simp only: build_rule_stor build_res_stor)+
  have m: "mset (filter (\<lambda>(p, l). link_target l = k) ls') = mset (filter (\<lambda>(p, l). link_target l = k) ls)"
    using assms(2) by (metis mset_filter)
  have "mset (concat (map f xs)) = mset (concat (map f ys))" if "mset xs = mset ys" for f :: "string \<times> link_obj \<Rightarrow> idx_link_item list" and xs ys
  proof -
    have "mset (concat (map f zs)) = (\<Sum>z\<in>#mset zs. mset (f z))" for zs by (induction zs) auto
    with that show ?thesis by metis
  qed
  from this [OF m] have items: "mset (concat (map (\<lambda>(p, l). link_items p l) (filter (\<lambda>(p, l). link_target l = k) ls'))) =
      mset (concat (map (\<lambda>(p, l). link_items p l) (filter (\<lambda>(p, l). link_target l = k) ls)))" .
  have "filter (\<lambda>(p, l). link_target l = k) ls' = [] \<longleftrightarrow> filter (\<lambda>(p, l). link_target l = k) ls = []"
    using m by (metis mset_zero_iff)
  then show "map_option mset (link_stor (build_index rs' ls' ss') k) = map_option mset (link_stor (build_index rs ls ss) k)"
    unfolding build_link_stor Let_def using items by (simp del: filter_empty_conv concat_eq_Nil_conv mset_concat)
qed

text \<open>The three directories, one after the other.\<close>

lemma store_dirs:
  assumes "\<forall>k\<in>set ks. good_name k \<and> utf8_valid k" and "d \<in> {''rules'', ''links'', ''reses''}"
  shows "\<forall>k\<in>set (d # ks). good_name k \<and> utf8_valid k"
    and "abs_of [d] = CHR ''/'' # d"
    and "ns_path (CHR ''/'' # d) (ns_name ks) = (Ok (abs_of (d # ks) @ ''/'') :: path index_result)"
proof -
  have "good_name d \<and> utf8_valid d" using assms(2) by (auto simp: good_name_def ascii_valid)
  with assms(1) show names: "\<forall>k\<in>set (d # ks). good_name k \<and> utf8_valid k" by simp
  show d: "abs_of [d] = CHR ''/'' # d" by (simp add: abs_of_def)
  show "ns_path (CHR ''/'' # d) (ns_name ks) = (Ok (abs_of (d # ks) @ ''/'') :: path index_result)"
    unfolding d [symmetric] by (rule ns_path_name) (use names in auto)
qed

lemma git_load_rule:
  fixes G :: "('r, cfg_index) git2"
  assumes "git_crate G preorder" and "\<forall>k\<in>set ks. good_name k \<and> utf8_valid k" and "well_named t"
    and "git_holds G preorder gb gv (abs_of (''rules'' # ks) @ ''/'') t"
    and "parse_all (rule_load_from_slice X) (keyed ks t) = Ok rs"
  shows "\<exists>rs'. mset rs' = mset rs \<and> (\<forall>i. load_rule X (git_storage G gb) (ns_name ks) i gv =
    Ok (i\<lparr>rule_stor := fold (\<lambda>(k, r) m. add_rule m k r) rs' (rule_stor i)\<rparr>))"
proof -
  let ?B = "git_storage G gb :: cfg_index storage_backend"
  note d = store_dirs [OF assms(2), of "''rules''", simplified]
  have "\<exists>rs'. mset rs' = mset rs \<and>
      (\<forall>i. walked (walk_dir ?B gv (abs_of (''rules'' # ks) @ ''/'') (file_cb (rule_file X ?B)) i) =
        Ok (fold (\<lambda>(k, r) c. (\<lambda>c k r. c\<lparr>rule_stor := add_rule (rule_stor c) k r\<rparr>) c k r) rs' i))"
    by (rule git_dir_walk [where load = "rule_load_from_slice X" and put = "\<lambda>c k r. c\<lparr>rule_stor := add_rule (rule_stor c) k r\<rparr>",
          OF assms(1) _ assms(4,3) _ assms(5)]) (use d in \<open>simp_all add: rule_file_def\<close>)
  then show ?thesis by (simp add: load_rule_def d(3) fold_rule_stor)
qed

lemma git_load_link:
  fixes G :: "('r, cfg_index) git2"
  assumes "git_crate G preorder" and "\<forall>k\<in>set ks. good_name k \<and> utf8_valid k" and "well_named t"
    and "git_holds G preorder gb gv (abs_of (''links'' # ks) @ ''/'') t"
    and "parse_all (link_checked X) (keyed ks t) = Ok ls"
  shows "\<exists>ls'. mset ls' = mset ls \<and> (\<forall>i. load_link X (git_storage G gb) (ns_name ks) i gv =
    Ok (i\<lparr>link_stor := fold (\<lambda>(k, l) m. file_links m k l) ls' (link_stor i)\<rparr>))"
proof -
  let ?B = "git_storage G gb :: cfg_index storage_backend"
  note d = store_dirs [OF assms(2), of "''links''", simplified]
  have link: "link_file X ?B c cur = and_then (map_err WalkLoaderError (link_checked X raw))
      (\<lambda>l. Ok (c\<lparr>link_stor := file_links (link_stor c) k l\<rparr>))"
    if "git_get_obj_by_hash G gb (hash cur) = Ok raw"
      "internal_path (abs_of [''links'']) cur = (Ok k :: (string, walk_dir_error) res)" for c cur raw k
    using that d(2) by (cases "link_load_from_slice X raw")
      (simp_all add: link_file_def link_checked_def add_link_eq file_links_def)
  have "\<exists>ls'. mset ls' = mset ls \<and>
      (\<forall>i. walked (walk_dir ?B gv (abs_of (''links'' # ks) @ ''/'') (file_cb (link_file X ?B)) i) =
        Ok (fold (\<lambda>(k, l) c. (\<lambda>c k l. c\<lparr>link_stor := file_links (link_stor c) k l\<rparr>) c k l) ls' i))"
    by (rule git_dir_walk [where load = "link_checked X" and put = "\<lambda>c k l. c\<lparr>link_stor := file_links (link_stor c) k l\<rparr>",
          OF assms(1) _ assms(4,3) link assms(5)]) (use d in simp)
  then show ?thesis by (simp add: load_link_def d(3) fold_link_stor)
qed

lemma git_load_res:
  fixes G :: "('r, cfg_index) git2"
  assumes "git_crate G preorder" and "\<forall>k\<in>set ks. good_name k \<and> utf8_valid k" and "well_named t"
    and "git_holds G preorder gb gv (abs_of (''reses'' # ks) @ ''/'') t"
    and "parse_all (res_load_from_slice X) (keyed ks t) = Ok ss"
  shows "\<exists>ss'. mset ss' = mset ss \<and> (\<forall>i. load_res X (git_storage G gb) (ns_name ks) i gv =
    Ok (i\<lparr>res_stor := fold (\<lambda>(k, r) m. add_res m k r) ss' (res_stor i)\<rparr>))"
proof -
  let ?B = "git_storage G gb :: cfg_index storage_backend"
  note d = store_dirs [OF assms(2), of "''reses''", simplified]
  have "\<exists>ss'. mset ss' = mset ss \<and>
      (\<forall>i. walked (walk_dir ?B gv (abs_of (''reses'' # ks) @ ''/'') (file_cb (res_file X ?B)) i) =
        Ok (fold (\<lambda>(k, r) c. (\<lambda>c k r. c\<lparr>res_stor := add_res (res_stor c) k r\<rparr>) c k r) ss' i))"
    by (rule git_dir_walk [where load = "res_load_from_slice X" and put = "\<lambda>c k r. c\<lparr>res_stor := add_res (res_stor c) k r\<rparr>",
          OF assms(1) _ assms(4,3) _ assms(5)]) (use d in \<open>simp_all add: res_file_def\<close>)
  then show ?thesis by (simp add: load_res_def d(3) fold_res_stor)
qed

text \<open>The files of a namespace in a commit, parsed.\<close>

definition commit_files ::
  "('j, 'e) crates \<Rightarrow> ('r, 'c) git2 \<Rightarrow> ('r \<Rightarrow> string \<Rightarrow> (string \<times> git_entry) list option) \<Rightarrow> 'r git_backend
    \<Rightarrow> version_item \<Rightarrow> string list \<Rightarrow> (string \<times> rule_obj) list \<Rightarrow> (string \<times> link_obj) list \<Rightarrow> (string \<times> 'j res_obj) list
    \<Rightarrow> bool" where
  "commit_files X G preorder gb gv ks rs ls ss \<longleftrightarrow>
     (\<forall>k\<in>set ks. good_name k \<and> utf8_valid k) \<and>
     (\<exists>tr tl ts. well_named tr \<and> well_named tl \<and> well_named ts \<and>
        git_holds G preorder gb gv (abs_of (''rules'' # ks) @ ''/'') tr \<and>
        git_holds G preorder gb gv (abs_of (''links'' # ks) @ ''/'') tl \<and>
        git_holds G preorder gb gv (abs_of (''reses'' # ks) @ ''/'') ts \<and>
        parse_all (rule_load_from_slice X) (keyed ks tr) = Ok rs \<and>
        parse_all (link_checked X) (keyed ks tl) = Ok ls \<and>
        parse_all (res_load_from_slice X) (keyed ks ts) = Ok ss)"

lemma commit_files_distinct:
  assumes "commit_files X G preorder gb gv ks rs ls ss"
  shows "distinct (map fst rs)" and "distinct (map fst ss)"
proof -
  obtain tr ts where t: "well_named tr" "well_named ts" "parse_all (rule_load_from_slice X) (keyed ks tr) = Ok rs"
    "parse_all (res_load_from_slice X) (keyed ks ts) = Ok ss"
    using assms by (auto simp: commit_files_def)
  have "\<forall>k\<in>set ks. good_name k" using assms unfolding commit_files_def by blast
  with t show "distinct (map fst rs)" "distinct (map fst ss)" by (metis keyed_distinct parse_keys)+
qed

lemma git_index_load:
  fixes G :: "('r, cfg_index) git2"
  assumes "git_crate G preorder" and "commit_files X G preorder gb gv ks rs ls ss"
  shows "\<exists>j. index_load X (git_storage G gb) (ns_name ks) gv = Ok j \<and>
    rule_stor j = rule_stor (build_index rs ls ss) \<and> res_stor j = res_stor (build_index rs ls ss) \<and>
    (\<forall>k. map_option mset (link_stor j k) = map_option mset (link_stor (build_index rs ls ss) k))"
proof -
  note files = assms(2) [unfolded commit_files_def]
  have names: "\<forall>k\<in>set ks. good_name k \<and> utf8_valid k" using files by blast
  obtain tr tl ts where wn: "well_named tr" "well_named tl" "well_named ts"
    and holds: "git_holds G preorder gb gv (abs_of (''rules'' # ks) @ ''/'') tr"
      "git_holds G preorder gb gv (abs_of (''links'' # ks) @ ''/'') tl"
      "git_holds G preorder gb gv (abs_of (''reses'' # ks) @ ''/'') ts"
    and parsed: "parse_all (rule_load_from_slice X) (keyed ks tr) = Ok rs"
      "parse_all (link_checked X) (keyed ks tl) = Ok ls" "parse_all (res_load_from_slice X) (keyed ks ts) = Ok ss"
    using files by blast
  obtain rs' where rs': "mset rs' = mset rs" "\<And>i. load_rule X (git_storage G gb) (ns_name ks) i gv =
      Ok (i\<lparr>rule_stor := fold (\<lambda>(k, r) m. add_rule m k r) rs' (rule_stor i)\<rparr>)"
    using git_load_rule [OF assms(1) names wn(1) holds(1) parsed(1)] by blast
  obtain ls' where ls': "mset ls' = mset ls" "\<And>i. load_link X (git_storage G gb) (ns_name ks) i gv =
      Ok (i\<lparr>link_stor := fold (\<lambda>(k, l) m. file_links m k l) ls' (link_stor i)\<rparr>)"
    using git_load_link [OF assms(1) names wn(2) holds(2) parsed(2)] by blast
  obtain ss' where ss': "mset ss' = mset ss" "\<And>i. load_res X (git_storage G gb) (ns_name ks) i gv =
      Ok (i\<lparr>res_stor := fold (\<lambda>(k, r) m. add_res m k r) ss' (res_stor i)\<rparr>)"
    using git_load_res [OF assms(1) names wn(3) holds(3) parsed(3)] by blast
  have "index_load X (git_storage G gb) (ns_name ks) gv = Ok (build_index rs' ls' ss')"
    by (simp add: index_load_def rs'(2) ls'(2) ss'(2) build_index_def empty_index_def)
  moreover note build_index_perm [OF rs'(1) ls'(1) ss'(1) commit_files_distinct [OF assms(2)]]
  ultimately show ?thesis by blast
qed

section \<open>One content, two backends\<close>

text \<open>C14. The two backends agree: when the commit of a version holds the same three directories of a
  namespace as the version directory of a filesystem backend, and all their files parse, both
  backends load an index, with the same rules and resources, and the same items for every rule up
  to their order, although one backend walks depth first and the other level by level.\<close>

theorem backends_agree:
  fixes G :: "('r, cfg_index) git2"
  assumes "git_crate G preorder" and "namespace_files X root b v ks rs ls ss"
    and "\<forall>d\<in>{''rules'', ''links'', ''reses''}.
      git_holds G preorder gb gv (abs_of (d # ks) @ ''/'') (fs_dir_of root b v d ks)"
  shows "\<exists>i j. index_load X (fs_storage (tree_os root) nt b) (ns_name ks) v = Ok i \<and>
    index_load X (git_storage G gb) (ns_name ks) gv = Ok j \<and>
    rule_stor j = rule_stor i \<and> res_stor j = res_stor i \<and>
    (\<forall>k. map_option mset (link_stor j k) = map_option mset (link_stor i k))"
proof -
  note files = assms(2) [unfolded namespace_files_def]
  have wn: "well_named (fs_dir_of root b v d ks)" for d unfolding fs_dir_of_def by (rule fs_walk.named)
  have "commit_files X G preorder gb gv ks rs ls ss"
    unfolding commit_files_def
  proof (intro conjI exI)
    show "well_named (fs_dir_of root b v ''rules'' ks)" "well_named (fs_dir_of root b v ''links'' ks)"
      "well_named (fs_dir_of root b v ''reses'' ks)" by (rule wn)+
  qed (use assms(3) files in blast)+
  from git_index_load [OF assms(1) this] obtain j where "index_load X (git_storage G gb) (ns_name ks) gv = Ok j"
    "rule_stor j = rule_stor (build_index rs ls ss)" "res_stor j = res_stor (build_index rs ls ss)"
    "\<forall>k. map_option mset (link_stor j k) = map_option mset (link_stor (build_index rs ls ss) k)" by blast
  moreover have "index_load X (fs_storage (tree_os root) nt b) (ns_name ks) v = Ok (build_index rs ls ss)"
    using files by (simp add: index_load_fs)
  ultimately show ?thesis by blast
qed

text \<open>The sample version directory, committed.\<close>

definition sample_commit :: node where
  "sample_commit = Dir
     [(''rules'', Dir [(''r'', File ''R'')]), (''links'', Dir [(''l'', File ''L'')]),
      (''reses'', Dir [(''s'', File ''S'')])]"

definition sample_repo :: ref_repo where
  "sample_repo = \<lparr>rr_commits = [(''c1'', ''one'', sample_commit)], rr_branches = [(''main'', ''c1'')]\<rparr>"

definition sample_git_backend :: "ref_repo git_backend" where
  "sample_git_backend = bad_backend\<lparr>gb_git_repo := sample_repo\<rparr>"

abbreviation sample_git :: "(ref_repo, cfg_index) git2" where
  "sample_git \<equiv> git_ref (\<lambda>_. Inr sample_repo) sample_repo"

lemma sample_repo_holds:
  "git_holds sample_git ref_entries sample_git_backend \<lparr>v_name = ''one'', v_id = ''c1''\<rparr> ''/rules/''
     (Dir [(''r'', File ''R'')])"
  "git_holds sample_git ref_entries sample_git_backend \<lparr>v_name = ''one'', v_id = ''c1''\<rparr> ''/links/''
     (Dir [(''l'', File ''L'')])"
  "git_holds sample_git ref_entries sample_git_backend \<lparr>v_name = ''one'', v_id = ''c1''\<rparr> ''/reses/''
     (Dir [(''s'', File ''S'')])"
  by (simp_all add: git_holds_def git_walk_start_def git_ref_def ref_commit_def sample_git_backend_def
      sample_repo_def path_eval path_strip_prefix_def ref_object_def sample_commit_def ref_entries_def
      ref_entry_def entry_for_def dir_text_def git_get_obj_by_hash_def)

theorem backends_agree_witness:
  "\<exists>i j. index_load (doc_crates sample_docs) (fs_storage (tree_os sample_tree) sample_notify sample_backend) ''/''
      sample_version = Ok i \<and>
    index_load (doc_crates sample_docs) (git_storage sample_git sample_git_backend) ''/''
      \<lparr>v_name = ''one'', v_id = ''c1''\<rparr> = Ok j \<and>
    rule_stor j = rule_stor i \<and> res_stor j = res_stor i \<and>
    (\<forall>k. map_option mset (link_stor j k) = map_option mset (link_stor i k))"
proof -
  have files: "namespace_files (doc_crates sample_docs) sample_tree sample_backend sample_version []
      [(''r'', sample_rule)] [(''l'', sample_link)] [(''s'', sample_res)]"
    by (simp add: namespace_files_def sample_dirs sample_parsed)
  have holds: "\<forall>d\<in>{''rules'', ''links'', ''reses''}. git_holds sample_git ref_entries sample_git_backend
      \<lparr>v_name = ''one'', v_id = ''c1''\<rparr> (abs_of [d] @ ''/'') (fs_dir_of sample_tree sample_backend sample_version d [])"
    using sample_repo_holds by (simp add: sample_dirs abs_of_def)
  have ns: "ns_name [] = ''/''" by (simp add: ns_name_def)
  show ?thesis
    using backends_agree [OF ref_git.git_crate_axioms files holds, of sample_notify] unfolding ns .
qed

end
