(* ===== verification/Center_Runs.thy ===== *)
theory Center_Runs
  imports Cfg_Center Filesystem Git_Backend
begin

text \<open>
  What happens to a center over time. A run is any sequence of creations and updates, each over
  a backend of its own (the stored content changes in between). A call that never returns keeps
  its locks, so no step of the center follows it. The abstract view of a center is its version
  and the map from names to namespace centers, without handles and locks.
\<close>

section \<open>Runs\<close>

inductive center_step ::
  "('j, 'e) crates \<Rightarrow> (cfg_index storage_backend \<Rightarrow> bool) \<Rightarrow> cfg_center \<Rightarrow> cfg_center \<Rightarrow> bool" for X good where
  step_create: "\<lbrakk>good B; snd (create_namespace_scoped_cfg_center X B cc ns level cb) \<noteq> Hang\<rbrakk>
    \<Longrightarrow> center_step X good cc (fst (create_namespace_scoped_cfg_center X B cc ns level cb))"
| step_update: "\<lbrakk>good B; hash_order (cc_namespaces cc) ord;
      snd (snd (center_update_callback X B ord cc e)) \<noteq> Blocks\<rbrakk>
    \<Longrightarrow> center_step X good cc (fst (center_update_callback X B ord cc e))"

inductive_cases center_stepE: "center_step X good cc cc'"

inductive center_run ::
  "('j, 'e) crates \<Rightarrow> (cfg_index storage_backend \<Rightarrow> bool) \<Rightarrow> cfg_center \<Rightarrow> cfg_center \<Rightarrow> bool" for X good where
  crun_refl: "center_run X good cc cc"
| crun_step: "\<lbrakk>center_run X good cc cc'; center_step X good cc' cc''\<rbrakk> \<Longrightarrow> center_run X good cc cc''"

text \<open>An invariant of the steps is one of the runs.\<close>

lemma center_run_inv:
  assumes "center_run X good cc cc'" and "I cc" and "\<And>c c'. center_step X good c c' \<Longrightarrow> I c \<Longrightarrow> I c'"
  shows "I cc'"
  using assms by (induction rule: center_run.induct) blast+

text \<open>All backends have a walk that changes its state through the callback only.\<close>

abbreviation walking :: "cfg_index storage_backend \<Rightarrow> bool" where
  "walking B \<equiv> walker (walk_dir B)"

lemma center_step_ok: "\<lbrakk>center_step X walking cc cc'; nom (c_nom X); cc_ok cc\<rbrakk> \<Longrightarrow> cc_ok cc'"
  by (erule center_stepE) (auto intro: create_ok center_update_ok)

lemma center_run_ok: "\<lbrakk>center_run X walking cc cc'; nom (c_nom X); cc_ok cc\<rbrakk> \<Longrightarrow> cc_ok cc'"
  by (erule center_run_inv) (auto intro: center_step_ok)

section \<open>Creation\<close>

text \<open>A creation that succeeds, in full.\<close>

lemma create_Ok_iff:
  "create_namespace_scoped_cfg_center X B cc ns level cb = (cc', Ok h) \<longleftrightarrow>
    (\<exists>m. starts_with ns ''/'' \<and> ends_with ns ''/'' \<and> \<not> cc_version_poisoned cc \<and> \<not> cc_namespaces_poisoned cc \<and>
       mem_storage_new X B ns (cc_current_version cc) = Ok m \<and> h = length (cc_store cc) \<and>
       cc' = cc\<lparr>cc_store := cc_store cc @ [namespace_center_new ns m level cb],
                cc_namespaces := (cc_namespaces cc)(ns \<mapsto> h)\<rparr>)"
  by (auto simp: create_namespace_scoped_cfg_center_def Let_def split: res.split)

text \<open>Any other creation leaves everything but the poison of the version as it is.\<close>

lemma create_not_Ok:
  assumes "create_namespace_scoped_cfg_center X B cc ns level cb = (cc', r)" and "\<forall>h. r \<noteq> Ok h"
  shows "cc' = cc \<or> (r = Panic \<and> cc' = cc\<lparr>cc_version_poisoned := True\<rparr>)"
  using assms
  by (auto simp: create_namespace_scoped_cfg_center_def Let_def split: res.splits if_splits)

section \<open>Handles that are no longer registered\<close>

lemma update_loop_others:
  "h \<notin> snd ` set nhs \<Longrightarrow> fst (update_loop X B old new nhs store) ! h = store ! h"
proof (induction X B old new nhs store rule: update_loop.induct)
  case (2 X B old new ns h' rest store)
  obtain nc calls r where u: "update_namespace X B old new ns (store ! h') = (nc, calls, r)"
    by (metis prod_cases3)
  from "2.prems" have "h \<noteq> h'" "h \<notin> snd ` set rest" by auto
  with u 2 show ?case by (cases r) (auto split: prod.splits)
qed simp

definition unregistered :: "handle \<Rightarrow> cfg_center \<Rightarrow> bool" where
  "unregistered h cc \<longleftrightarrow> h < length (cc_store cc) \<and> (\<forall>ns. cc_namespaces cc ns \<noteq> Some h)"

lemma update_store_length:
  "length (cc_store (fst (center_update_callback X B ord cc e))) = length (cc_store cc)"
  using update_loop_frame [of X B "cc_current_version cc" "ev_new_version e" "registered cc ord" "cc_store cc"]
  by (auto simp: center_update_callback_eq split: prod.splits finish.splits)

lemma update_names:
  "cc_namespaces (fst (center_update_callback X B ord cc e)) = cc_namespaces cc"
  by (auto simp: center_update_callback_eq split: prod.splits finish.splits)

lemma update_unregistered:
  assumes "unregistered h cc" and "hash_order (cc_namespaces cc) ord"
  shows "cc_store (fst (center_update_callback X B ord cc e)) ! h = cc_store cc ! h"
proof -
  have "h \<notin> snd ` set (registered cc ord)"
    using assms by (auto simp: unregistered_def registered_iff)
  from update_loop_others [OF this, of X B "cc_current_version cc" "ev_new_version e" "cc_store cc"]
  show ?thesis by (auto simp: center_update_callback_eq split: prod.splits finish.splits)
qed

lemma unregistered_step:
  assumes "center_step X good cc cc'" and "unregistered h cc \<and> cc_store cc ! h = nc"
  shows "unregistered h cc' \<and> cc_store cc' ! h = nc"
  using assms(1)
proof cases
  case (step_create B ns level cb)
  obtain r where c: "create_namespace_scoped_cfg_center X B cc ns level cb = (cc', r)"
    using step_create(1) by (metis prod.collapse)
  show ?thesis
  proof (cases "\<exists>h. r = Ok h")
    case True
    with c assms(2) show ?thesis by (auto simp: create_Ok_iff unregistered_def nth_append split: if_splits)
  next
    case False
    with create_not_Ok [OF c] assms(2) show ?thesis by (auto simp: unregistered_def)
  qed
next
  case (step_update B ord e)
  then show ?thesis
    using assms(2) update_unregistered [of h cc ord X B e]
    by (simp add: unregistered_def update_store_length update_names)
qed

lemma unregistered_run:
  assumes "center_run X good cc cc'" and "unregistered h cc"
  shows "unregistered h cc' \<and> cc_store cc' ! h = cc_store cc ! h"
  using assms(1)
proof (rule center_run_inv)
  show "unregistered h c' \<and> cc_store c' ! h = cc_store cc ! h"
    if "center_step X good c c'" "unregistered h c \<and> cc_store c ! h = cc_store cc ! h" for c c'
    by (rule unregistered_step [OF that])
qed (use assms(2) in simp)

section \<open>Poisoned mutexes\<close>

lemma poisoned_step:
  assumes "center_step X good cc cc'" and "cc_namespaces_poisoned cc" and "cc_version_poisoned cc"
  shows "cc' = cc"
  using assms
  by (elim center_stepE) (auto simp: center_update_callback_def create_namespace_scoped_cfg_center_def)

lemma poisoned_run:
  assumes "center_run X good cc cc'" and "cc_namespaces_poisoned cc" and "cc_version_poisoned cc"
  shows "cc' = cc"
  using assms(1) by (rule center_run_inv [where I = "\<lambda>c. c = cc"]) (use assms poisoned_step in auto)

section \<open>Backends without differences\<close>

text \<open>Both backends answer every request for differences with the empty list.\<close>

locale quiet_backend = walker "walk_dir B" for B :: "cfg_index storage_backend" +
  assumes no_diff: "get_diff_list B old new ns = Ok []"
begin

lemma update_other_levels:
  assumes "nc_notify_level nc \<noteq> NotifyWithoutChangedKeysByGlobal"
  shows "update_namespace X B old new ns nc = (nc, [], Returns)"
  using assms by (cases "nc_notify_level nc") (simp_all add: update_namespace_def no_diff)

end

interpretation fs_quiet: quiet_backend "fs_storage os nt b"
proof (rule quiet_backend.intro)
  show "walker (walk_dir (fs_storage os nt b :: cfg_index storage_backend))"
    using default_walk.walker_axioms by (simp add: fs_storage_def)
  show "quiet_backend_axioms (fs_storage os nt b)"
    by unfold_locales (simp add: fs_storage_def fs_get_diff_list_def)
qed

context git_crate
begin

lemma git_walker: "walker (git_walk_dir G b)"
  by (rule git_walk.walker_axioms)

end

lemma git_quiet: "git_crate G trees \<Longrightarrow> quiet_backend (git_storage G b)"
  for G :: "('r, cfg_index) git2"
proof (rule quiet_backend.intro)
  assume "git_crate G trees"
  then show "walker (walk_dir (git_storage G b))"
    by (simp add: git_storage_def git_crate.git_walker)
  show "quiet_backend_axioms (git_storage G b)"
    by unfold_locales (simp add: git_storage_def git_get_diff_list_def)
qed

interpretation ref_git_quiet: quiet_backend "git_storage (git_ref local_repo remote) b"
  by (rule git_quiet [OF ref_git.git_crate_axioms])

section \<open>The abstract center\<close>

record center_view =
  cv_version :: version_item
  cv_namespaces :: "string \<Rightarrow> namespace_center option"

definition view_of :: "cfg_center \<Rightarrow> center_view" where
  "view_of cc = \<lparr>cv_version = cc_current_version cc,
     cv_namespaces = (\<lambda>ns. map_option ((!) (cc_store cc)) (cc_namespaces cc ns))\<rparr>"

text \<open>Loading a namespace at a version; a failed load is no store.\<close>

definition loaded :: "('j, 'e) crates \<Rightarrow> cfg_index storage_backend \<Rightarrow> string \<Rightarrow> version_item \<Rightarrow> mem_storage option" where
  "loaded X B ns v = (case mem_storage_new X B ns v of Ok m \<Rightarrow> Some m | _ \<Rightarrow> None)"

definition view_create ::
  "string \<Rightarrow> mem_storage \<Rightarrow> update_notify_level \<Rightarrow> callback option \<Rightarrow> center_view \<Rightarrow> center_view" where
  "view_create ns m level cb v =
     v\<lparr>cv_namespaces := (cv_namespaces v)(ns \<mapsto> namespace_center_new ns m level cb)\<rparr>"

text \<open>An update moves the version, and loads every namespace of the global level afresh.\<close>

definition refreshed ::
  "('j, 'e) crates \<Rightarrow> cfg_index storage_backend \<Rightarrow> version_item \<Rightarrow> string \<Rightarrow> namespace_center \<Rightarrow> namespace_center" where
  "refreshed X B v ns nc =
     (if nc_notify_level nc = NotifyWithoutChangedKeysByGlobal
      then (case loaded X B ns v of Some m \<Rightarrow> nc\<lparr>nc_memstore := m\<rparr> | None \<Rightarrow> nc) else nc)"

definition view_update ::
  "('j, 'e) crates \<Rightarrow> cfg_index storage_backend \<Rightarrow> version_item \<Rightarrow> center_view \<Rightarrow> center_view" where
  "view_update X B v w =
     \<lparr>cv_version = v, cv_namespaces = (\<lambda>ns. map_option (refreshed X B v ns) (cv_namespaces w ns))\<rparr>"

text \<open>What the callback of a namespace is called with.\<close>

definition announced ::
  "('j, 'e) crates \<Rightarrow> cfg_index storage_backend \<Rightarrow> version_item \<Rightarrow> string \<Rightarrow> namespace_center \<Rightarrow> differ list" where
  "announced X B v ns nc =
     (if nc_notify_level nc = NotifyWithoutChangedKeysByGlobal \<and> nc_callback nc \<noteq> None
      then (case loaded X B ns v of
              Some m \<Rightarrow> [differ_new NotifyWithoutChangedKeysByGlobal (nc_memstore nc) m [] B]
            | None \<Rightarrow> [])
      else [])"

text \<open>A namespace whose load ends and whose callback returns.\<close>

definition tame :: "('j, 'e) crates \<Rightarrow> cfg_index storage_backend \<Rightarrow> version_item \<Rightarrow> string \<Rightarrow> namespace_center \<Rightarrow> bool" where
  "tame X B v ns nc \<longleftrightarrow> callback_returns nc \<and> mem_storage_new X B ns v \<noteq> Panic \<and> mem_storage_new X B ns v \<noteq> Hang"

context quiet_backend
begin

lemma update_tame:
  assumes "tame X B new ns nc" and "\<not> nc_memstore_poisoned nc"
  shows "update_namespace X B old new ns nc = (refreshed X B new ns nc, announced X B new ns nc, Returns)"
proof (cases "nc_notify_level nc = NotifyWithoutChangedKeysByGlobal")
  case True
  show ?thesis
  proof (cases "mem_storage_new X B ns new")
    case (Ok m)
    with True assms show ?thesis
      by (cases "nc_callback nc") (simp_all add: update_namespace_def nc_update_callback_def store_memstore_def
          refreshed_def announced_def loaded_def tame_def callback_returns_def Let_def)
  qed (use True assms in \<open>simp_all add: update_namespace_def refreshed_def announced_def loaded_def tame_def\<close>)
next
  case False
  with update_other_levels show ?thesis by (simp add: refreshed_def announced_def)
qed

lemma update_refines:
  assumes "cc_ok cc" and "hash_order (cc_namespaces cc) ord"
    and "\<not> cc_namespaces_poisoned cc" and "\<not> cc_version_poisoned cc"
    and "\<forall>ns nc. cv_namespaces (view_of cc) ns = Some nc \<longrightarrow> tame X B (ev_new_version e) ns nc"
  shows "snd (snd (center_update_callback X B ord cc e)) = Returns \<and>
    view_of (fst (center_update_callback X B ord cc e)) = view_update X B (ev_new_version e) (view_of cc) \<and>
    fst (snd (center_update_callback X B ord cc e)) =
      concat (map (\<lambda>(ns, h). map (Pair h) (announced X B (ev_new_version e) ns (cc_store cc ! h))) (registered cc ord))"
proof -
  let ?v = "ev_new_version e" and ?old = "cc_current_version cc" and ?nhs = "registered cc ord"
  note reg = registered_handles [OF assms(1,2)]
  have one: "update_namespace X B ?old ?v ns (cc_store cc ! h) =
      (refreshed X B ?v ns (cc_store cc ! h), announced X B ?v ns (cc_store cc ! h), Returns)"
    if "(ns, h) \<in> set ?nhs" for ns h
  proof (rule update_tame)
    from that registered_iff [OF assms(2)] have "cc_namespaces cc ns = Some h" by blast
    with assms(5) show "tame X B ?v ns (cc_store cc ! h)" by (simp add: view_of_def)
    from that reg have "h < length (cc_store cc)" by blast
    with assms(1) show "\<not> nc_memstore_poisoned (cc_store cc ! h)" by (simp add: cc_ok_def nc_ok_def)
  qed
  have "\<forall>(ns, h)\<in>set ?nhs. snd (snd (update_namespace X B ?old ?v ns (cc_store cc ! h))) = Returns"
    using one by auto
  from update_loop_pointwise [OF reg [THEN conjunct1] reg [THEN conjunct2] this]
  obtain store calls where l: "update_loop X B ?old ?v ?nhs (cc_store cc) = (store, calls, Returns)"
    and at: "\<forall>(ns, h)\<in>set ?nhs. store ! h = fst (update_namespace X B ?old ?v ns (cc_store cc ! h))"
    and calls: "calls = concat (map (\<lambda>(ns, h). map (Pair h) (fst (snd (update_namespace X B ?old ?v ns (cc_store cc ! h))))) ?nhs)"
    by (cases "update_loop X B ?old ?v ?nhs (cc_store cc)") auto
  have "store ! h = refreshed X B ?v ns (cc_store cc ! h)" if "cc_namespaces cc ns = Some h" for ns h
    using at that one registered_iff [OF assms(2), of ns h] by fastforce
  then have "map_option ((!) store) (cc_namespaces cc ns) =
      map_option (refreshed X B ?v ns) (map_option ((!) (cc_store cc)) (cc_namespaces cc ns))" for ns
    by (cases "cc_namespaces cc ns") simp_all
  moreover have "calls = concat (map (\<lambda>(ns, h). map (Pair h) (announced X B ?v ns (cc_store cc ! h))) ?nhs)"
    unfolding calls by (rule arg_cong [where f = concat], rule map_cong [OF refl]) (use one in auto)
  ultimately show ?thesis
    using assms(3,4) l by (simp add: center_update_callback_eq view_of_def view_update_def)
qed

text \<open>A namespace of the global level that loads at the new version answers from what was loaded.\<close>

lemma update_served:
  assumes "cc_ok cc" and "hash_order (cc_namespaces cc) ord"
    and "\<not> cc_namespaces_poisoned cc" and "\<not> cc_version_poisoned cc"
    and "\<forall>ns nc. cv_namespaces (view_of cc) ns = Some nc \<longrightarrow> tame X B v ns nc"
    and "cc_namespaces cc ns = Some h" and "nc_notify_level (cc_store cc ! h) = NotifyWithoutChangedKeysByGlobal"
    and "mem_storage_new X B ns v = Ok m"
    and "center_update_callback X B ord cc \<lparr>ev_new_version = v\<rparr> = (cc', calls, r)"
  shows "cc_current_version cc' = v"
    and "get_cfg sorter rord (cc_store cc' ! h) whoami keys mode need = querier_get sorter rord m whoami keys mode need"
proof -
  let ?nc = "cc_store cc ! h" and ?e = "\<lparr>ev_new_version = v\<rparr>"
  have view: "view_of cc' = view_update X B v (view_of cc)"
    using update_refines [OF assms(1-4), of X ?e] assms(5,9) by simp
  have names: "cc_namespaces cc' = cc_namespaces cc"
    using update_names [of X B ord cc ?e] assms(9) by simp
  have "cv_namespaces (view_of cc') ns = Some (refreshed X B v ns ?nc)"
    unfolding view using assms(6) by (simp add: view_update_def view_of_def)
  then have "cc_store cc' ! h = refreshed X B v ns ?nc"
    unfolding view_of_def center_view.select_convs names assms(6) by simp
  then have "cc_store cc' ! h = ?nc\<lparr>nc_memstore := m\<rparr>"
    using assms(7,8) by (simp add: refreshed_def loaded_def)
  moreover have "\<not> nc_memstore_poisoned ?nc"
    using assms(1,6) by (simp add: cc_ok_def nc_ok_def)
  ultimately show "get_cfg sorter rord (cc_store cc' ! h) whoami keys mode need =
      querier_get sorter rord m whoami keys mode need"
    by (simp add: get_cfg_def)
  show "cc_current_version cc' = v"
    using arg_cong [OF view, of cv_version] by (simp add: view_update_def view_of_def)
qed

end

lemma create_refines:
  assumes "cc_ok cc" and "create_namespace_scoped_cfg_center X B cc ns level cb = (cc', Ok h)"
  shows "\<exists>m. loaded X B ns (cc_current_version cc) = Some m \<and> view_of cc' = view_create ns m level cb (view_of cc) \<and>
    cc_store cc' ! h = namespace_center_new ns m level cb"
proof -
  from assms(2) obtain m where m: "mem_storage_new X B ns (cc_current_version cc) = Ok m"
    and h: "h = length (cc_store cc)"
    and cc': "cc' = cc\<lparr>cc_store := cc_store cc @ [namespace_center_new ns m level cb],
                cc_namespaces := (cc_namespaces cc)(ns \<mapsto> h)\<rparr>"
    by (auto simp: create_Ok_iff)
  have "map_option ((!) (cc_store cc')) (cc_namespaces cc' k) =
      ((\<lambda>ns. map_option ((!) (cc_store cc)) (cc_namespaces cc ns))(ns \<mapsto> namespace_center_new ns m level cb)) k" for k
    using assms(1) by (cases "cc_namespaces cc k") (auto simp: cc' h cc_ok_def nth_append)
  with m h cc' show ?thesis
    by (intro exI [of _ m]) (auto simp: loaded_def view_of_def view_create_def)
qed

end
