(* ===== verification/Query_Properties.thy ===== *)
theory Query_Properties
  imports Querier Index_Properties "HOL-Library.Sublist"
begin

text \<open>
  The properties of queries: what the overlaid and the complete view return, when the answer does
  not depend on the order of the hash map and the sorting algorithm, and when it does.
\<close>

definition sample_mem :: mem_storage where
  "sample_mem = \<lparr>ms_version = sample_version, ms_indices = sample_index\<rparr>"

definition mac_user :: match_context where
  "mac_user = Map.empty(''os'' \<mapsto> Str ''mac'')"

definition sample_item :: idx_link_item where
  "sample_item = \<lparr>il_pri = 0x3F800000, il_is_neg = False, il_rule_path = ''path:/r'', il_abs_res_path = ''s'',
     il_link_path = ''l''\<rparr>"

definition sample_kv :: key_value_pair where
  "sample_kv = \<lparr>kv_content_type = ''text'', kv_key = ''k'', kv_value = ''v''\<rparr>"

lemma sample_stores:
  "rule_stor sample_index = [''r'' \<mapsto> \<lparr>ir_rule = CLeaf ''os'' OpEq (Some (Str ''mac'')), ir_abs_path = ''r''\<rparr>]"
  "link_stor sample_index = [''r'' \<mapsto> [sample_item]]"
  "res_stor sample_index = [''s'' \<mapsto> \<lparr>r_data = [sample_kv], r_res_path = ''s''\<rparr>]"
  by (simp_all add: sample_index_def build_index_def add_rule_def add_res_def file_links_def link_items_def
      link_target_def sample_rule_def sample_link_def sample_res_def sample_item_def sample_kv_def)

lemma sample_order: "hash_order (rule_stor (ms_indices sample_mem)) [''r'']"
  by (simp add: sample_mem_def sample_stores hash_order_def)

lemma sample_index_ok: "index_ok (ms_indices sample_mem)"
  by (simp add: sample_mem_def sample_stores index_ok_def rules_ok_def links_ok_def reses_ok_def is_ident_def
      ident_start_def ident_char_def is_alpha_def sample_item_def f32_is_finite_def f32_mag_def
      remove_path_type_prefix_eq typed_path_def utf8_cont_def)

lemma sample_active: "active_links [''r''] sample_mem mac_user = [sample_item]"
  by (simp add: active_links_def sample_mem_def sample_stores rule_links_def mac_user_def)

section \<open>The overlaid view\<close>

text \<open>C4. With pairwise different ranks (priority, then negative before positive) among the active
  links, and any sorting algorithm that meets the contract of the standard library, a query of the
  overlaid view returns, for each key in turn: nothing when no active link has the key, or the
  best such link is negative, and else the value of the best link.\<close>

theorem overlay_best:
  assumes "index_ok (ms_indices mem)" and "hash_order (rule_stor (ms_indices mem)) ord"
    and "slice_sort sorter" and "tie_free (active_links ord mem whoami)"
  shows "overlay_outcome mem whoami need keys (querier_get sorter ord mem whoami keys OverlaidView need)"
proof (rule overlay_outcome_ranked [OF assms(1,2)])
  have "\<forall>l\<in>set (active_links ord mem whoami). f32_is_finite (il_pri l)"
    using active_finite [OF assms(1)] set_active_links [OF assms(2)] by blast
  then show "sorted_wrt (\<lambda>a b. rank a \<le> rank b) (sorter overlaid_cmp (active_links ord mem whoami))"
    by (rule sorter_ranked [OF assms(3,4)])
qed (rule slice_sort.sort_set [OF assms(3)])

theorem overlay_best_witness:
  "overlay_outcome sample_mem mac_user False [''k'']
     (querier_get insertion_sort_by [''r''] sample_mem mac_user [''k''] OverlaidView False)"
  by (rule overlay_best [OF sample_index_ok sample_order ins_sort.slice_sort_axioms])
    (simp add: sample_active tie_free_def)

text \<open>C15. The insertion sort that the standard library uses for small slices needs no such hypothesis:
  with ties the query still answers with one of the best links, and a negative link beats the
  positive links of its priority.\<close>

theorem overlay_insertion:
  assumes "index_ok (ms_indices mem)" and "hash_order (rule_stor (ms_indices mem)) ord"
  shows "overlay_outcome mem whoami need keys (querier_get insertion_sort_by ord mem whoami keys OverlaidView need)"
proof (rule overlay_outcome_ranked [OF assms])
  have "\<forall>l\<in>set (active_links ord mem whoami). f32_is_finite (il_pri l)"
    using active_finite [OF assms(1)] set_active_links [OF assms(2)] by blast
  then show "sorted_wrt (\<lambda>a b. rank a \<le> rank b) (insertion_sort_by overlaid_cmp (active_links ord mem whoami))"
    by (rule insertion_ranked)
qed (rule ins_sort.sort_set)

lemma sample_best: "best_for sample_mem mac_user ''k'' sample_item"
proof -
  have only: "active sample_mem mac_user l \<longleftrightarrow> l = sample_item" for l
    using set_active_links [OF sample_order, of l mac_user] sample_active by simp
  have "link_value sample_mem ''k'' sample_item = Some sample_kv"
    by (simp add: link_value_def sample_mem_def sample_stores sample_item_def sample_kv_def)
  then show ?thesis unfolding best_for_def only by simp
qed

theorem overlay_insertion_witness:
  "querier_get insertion_sort_by [''r''] sample_mem mac_user [''k''] OverlaidView False =
     Ok [\<lparr>cr_reason = None, cr_value = sample_kv\<rparr>]"
proof -
  have only: "best_for sample_mem mac_user ''k'' l \<Longrightarrow> l = sample_item" for l
    using set_active_links [OF sample_order, of l mac_user] sample_active by (simp add: best_for_def)
  obtain outs where get: "querier_get insertion_sort_by [''r''] sample_mem mac_user [''k''] OverlaidView False =
      Ok (concat outs)" and "list_all2 (overlay_answer sample_mem mac_user False) [''k''] outs"
    using overlay_insertion [OF sample_index_ok sample_order, of mac_user False "[''k'']"]
    unfolding overlay_outcome_def by blast
  then obtain out where out: "outs = [out]" "overlay_answer sample_mem mac_user False ''k'' out"
    by (auto simp: list_all2_Cons1)
  have "link_value sample_mem ''k'' sample_item = Some sample_kv"
    by (simp add: link_value_def sample_mem_def sample_stores sample_item_def sample_kv_def)
  moreover have "\<not> il_is_neg sample_item" by (simp add: sample_item_def)
  ultimately have "out = [\<lparr>cr_reason = None, cr_value = sample_kv\<rparr>]"
    using out(2) only sample_best unfolding overlay_answer_def by (metis option.sel)
  with get out(1) show ?thesis by simp
qed

text \<open>C16. Without ties an overlaid query depends neither on the iteration order of the hash map nor on
  the sorting algorithm.\<close>

theorem overlay_deterministic:
  assumes "index_ok (ms_indices mem)" and "slice_sort sorter" and "slice_sort sorter'"
    and "hash_order (rule_stor (ms_indices mem)) ord" and "hash_order (rule_stor (ms_indices mem)) ord'"
    and "tie_free (active_links ord mem whoami)"
  shows "querier_get sorter ord mem whoami keys OverlaidView need =
    querier_get sorter' ord' mem whoami keys OverlaidView need"
proof -
  let ?ls = "active_links ord mem whoami" and ?ls' = "active_links ord' mem whoami"
  have m: "mset ?ls = mset ?ls'" by (rule mset_active_links [OF assms(4,5)])
  have fin: "\<forall>l\<in>set ?ls. f32_is_finite (il_pri l)"
    using active_finite [OF assms(1)] set_active_links [OF assms(4)] by blast
  have "sorter overlaid_cmp ?ls = sorter' overlaid_cmp ?ls'"
    by (rule slice_sort.sort_unique [OF assms(2,3) m overlaid_cmp_total [OF assms(6) fin]])
      (simp add: overlaid_cmp_def)
  moreover have "?ls = [] \<longleftrightarrow> ?ls' = []" using m by (metis mset_zero_iff)
  ultimately show ?thesis
    by (simp add: querier_get_eq [OF assms(1)] Let_def fetch_res_by_overlaid_view_def)
qed

text \<open>Another algorithm that meets the contract: sort the reversed slice.\<close>

lemma rev_slice_sort:
  "slice_sort (\<lambda>(cmp :: idx_link_item compare) xs. insertion_sort_by cmp (rev xs))"
proof
  fix cmp :: "idx_link_item compare" and xs :: "idx_link_item list"
  show "mset (insertion_sort_by cmp (rev xs)) = mset xs" by (simp add: mset_insertion_sort_by)
  assume "cmp_total_on cmp (mset xs)"
  then show "sorted_wrt (\<lambda>a b. cmp a b \<noteq> Greater) (insertion_sort_by cmp (rev xs))"
    by (intro ins_sort.sort_sorted) simp
qed

theorem overlay_deterministic_witness:
  "querier_get insertion_sort_by [''r''] sample_mem mac_user [''k''] OverlaidView False =
   querier_get (\<lambda>cmp xs. insertion_sort_by cmp (rev xs)) [''r''] sample_mem mac_user [''k''] OverlaidView False"
  by (rule overlay_deterministic [OF sample_index_ok ins_sort.slice_sort_axioms rev_slice_sort sample_order
        sample_order]) (simp add: sample_active tie_free_def)

section \<open>Ties\<close>

text \<open>C40. A link with two or more resources has ties: the comparator of the overlaid view is not a
  total order on the items it adds, so the result of \<open>sort_unstable_by\<close> on them is unspecified.\<close>

theorem comparator_not_total:
  assumes "add_link m p l = Ok m'" and "2 \<le> length (ls_reses (link_spec_of l))"
  shows "\<exists>items. m' (link_target l) = Some items \<and> \<not> cmp_total_on overlaid_cmp (mset items)"
proof -
  let ?old = "case m (link_target l) of None \<Rightarrow> [] | Some items \<Rightarrow> items"
  from assms(1) have m': "m' (link_target l) = Some (?old @ link_items p l)"
    by (auto simp: add_link_eq split: if_split_asm)
  obtain r1 r2 rs where rs: "ls_reses (link_spec_of l) = r1 # r2 # rs"
    using assms(2) by (cases "ls_reses (link_spec_of l)"; cases "tl (ls_reses (link_spec_of l))") auto
  obtain a b us where items: "link_items p l = a # b # us"
    "il_pri a = ls_pri (link_spec_of l)" "il_pri b = ls_pri (link_spec_of l)" "il_is_neg a = il_is_neg b"
    by (simp add: link_items_def rs)
  have "overlaid_cmp a b = overlaid_cmp b a" "overlaid_cmp a b \<noteq> Equal"
    unfolding overlaid_cmp_def items(2-4) by simp_all
  then have "overlaid_cmp b a \<noteq> flip (overlaid_cmp a b)" by (cases "overlaid_cmp a b") auto
  moreover have "{#a, b#} \<subseteq># mset (?old @ link_items p l)" by (simp add: items)
  ultimately have "\<not> cmp_total_on overlaid_cmp (mset (?old @ link_items p l))"
    using cmp_total_flip [of overlaid_cmp "mset (?old @ link_items p l)" a b] by blast
  with m' show ?thesis by blast
qed

theorem comparator_not_total_witness:
  "\<exists>items. ([''r'' \<mapsto> link_items ''l'' (sample_link\<lparr>link_spec_of := (link_spec_of sample_link)
        \<lparr>ls_reses := [''path:/s'', ''path:/t'']\<rparr>\<rparr>)] :: link_index) ''r'' = Some items \<and>
      \<not> cmp_total_on overlaid_cmp (mset items)"
  using comparator_not_total [of Map.empty "''l''" "sample_link\<lparr>link_spec_of := (link_spec_of sample_link)
        \<lparr>ls_reses := [''path:/s'', ''path:/t'']\<rparr>\<rparr>" "[''r'' \<mapsto> link_items ''l'' (sample_link\<lparr>link_spec_of :=
        (link_spec_of sample_link)\<lparr>ls_reses := [''path:/s'', ''path:/t'']\<rparr>\<rparr>)]"]
  by (simp add: add_link_eq sample_link_def link_paths_ok_def typed_path_def utf8_cont_def link_target_def)

text \<open>An index with two rules that hold for everyone with the tag, each with a link of the same
  priority, and the key \<open>k\<close> in both resources.\<close>

definition tied_item :: "string \<Rightarrow> idx_link_item" where
  "tied_item s = \<lparr>il_pri = 0, il_is_neg = False, il_rule_path = ''path:/'' @ s, il_abs_res_path = s,
     il_link_path = s\<rparr>"

definition tied_mem :: mem_storage where
  "tied_mem = \<lparr>ms_version = sample_version, ms_indices =
     \<lparr>rule_stor = [''a'' \<mapsto> \<lparr>ir_rule = CLeaf ''os'' OpEq (Some (Str ''mac'')), ir_abs_path = ''a''\<rparr>,
                   ''b'' \<mapsto> \<lparr>ir_rule = CLeaf ''os'' OpEq (Some (Str ''mac'')), ir_abs_path = ''b''\<rparr>],
      res_stor = [''a'' \<mapsto> \<lparr>r_data = [sample_kv\<lparr>kv_value := ''1''\<rparr>], r_res_path = ''a''\<rparr>,
                  ''b'' \<mapsto> \<lparr>r_data = [sample_kv\<lparr>kv_value := ''2''\<rparr>], r_res_path = ''b''\<rparr>],
      link_stor = [''a'' \<mapsto> [tied_item ''a''], ''b'' \<mapsto> [tied_item ''b'']]\<rparr>\<rparr>"

text \<open>With ties the answer depends on the iteration order of the hash map, which differs between
  two loads of the same files: two orders of the same index give different values of a key.\<close>

lemma tie_depends_on_order:
  "index_ok (ms_indices tied_mem) \<and>
   hash_order (rule_stor (ms_indices tied_mem)) [''a'', ''b''] \<and>
   hash_order (rule_stor (ms_indices tied_mem)) [''b'', ''a''] \<and>
   querier_get insertion_sort_by [''a'', ''b''] tied_mem mac_user [''k''] OverlaidView False =
     Ok [\<lparr>cr_reason = None, cr_value = sample_kv\<lparr>kv_value := ''1''\<rparr>\<rparr>] \<and>
   querier_get insertion_sort_by [''b'', ''a''] tied_mem mac_user [''k''] OverlaidView False =
     Ok [\<lparr>cr_reason = None, cr_value = sample_kv\<lparr>kv_value := ''2''\<rparr>\<rparr>]"
proof -
  have ok: "index_ok (ms_indices tied_mem)"
    by (simp add: tied_mem_def index_ok_def rules_ok_def links_ok_def reses_ok_def is_ident_def ident_start_def
        ident_char_def is_alpha_def tied_item_def f32_is_finite_def f32_mag_def remove_path_type_prefix_eq
        typed_path_def utf8_cont_def)
  have ties: "overlaid_cmp (tied_item x) (tied_item y) = Greater" for x y
    by (simp add: overlaid_cmp_def tied_item_def f32_gt_def f32_eq_def f32_is_nan_def f32_mag_def)
  have links: "active_links [''a'', ''b''] tied_mem mac_user = [tied_item ''a'', tied_item ''b'']"
    "active_links [''b'', ''a''] tied_mem mac_user = [tied_item ''b'', tied_item ''a'']"
    by (simp_all add: active_links_def tied_mem_def rule_links_def mac_user_def)
  have "overlay_key tied_mem False ''k'' [tied_item ''a'', tied_item ''b''] =
      [\<lparr>cr_reason = None, cr_value = sample_kv\<lparr>kv_value := ''1''\<rparr>\<rparr>]"
    "overlay_key tied_mem False ''k'' [tied_item ''b'', tied_item ''a''] =
      [\<lparr>cr_reason = None, cr_value = sample_kv\<lparr>kv_value := ''2''\<rparr>\<rparr>]"
    by (simp_all add: tied_mem_def tied_item_def get_res_by_path_def sample_kv_def)
  moreover have "hash_order (rule_stor (ms_indices tied_mem)) [''a'', ''b'']"
    "hash_order (rule_stor (ms_indices tied_mem)) [''b'', ''a'']"
    by (auto simp: hash_order_def tied_mem_def)
  ultimately show ?thesis
    using ok by (simp add: querier_get_eq [OF ok] links fetch_res_by_overlaid_view_def insertion_sort_by_def ties)
qed

section \<open>The view of all linked resources\<close>

lemma key_link_swap:
  "(\<exists>k. k \<in> K \<and> (\<exists>l. A l \<and> (\<exists>s v. B l s \<and> C v s \<and> h v = k \<and> r = M l v))) \<longleftrightarrow>
    (\<exists>l s v. A l \<and> B l s \<and> C v s \<and> h v \<in> K \<and> r = M l v)"
  by blast

text \<open>C17. The view of all linked resources returns, for the keys of the query, every value of every
  active link, and nothing else; a negative link gives its values like any other.\<close>

theorem all_linked_view:
  assumes "index_ok (ms_indices mem)" and "hash_order (rule_stor (ms_indices mem)) ord"
  shows "\<exists>out. querier_get sorter ord mem whoami keys AllLinkedResView need = Ok out \<and>
    (\<forall>r. r \<in> set out \<longleftrightarrow> (\<exists>l res kv. active mem whoami l \<and>
       res_stor (ms_indices mem) (il_abs_res_path l) = Some res \<and> kv \<in> set (r_data res) \<and>
       kv_key kv \<in> set keys \<and> r = \<lparr>cr_reason = (if need then Some l else None), cr_value = kv\<rparr>))"
proof (intro exI conjI allI)
  let ?ls = "active_links ord mem whoami"
  let ?out = "fetch_res_by_all_linked_res_view mem keys ?ls need"
  show "querier_get sorter ord mem whoami keys AllLinkedResView need = Ok ?out"
    by (simp add: querier_get_eq [OF assms(1)] Let_def fetch_res_by_all_linked_res_view_def)
  have one: "r \<in> set (case get_res_by_path (res_stor (ms_indices mem)) (il_abs_res_path l) of
        None \<Rightarrow> [] | Some res \<Rightarrow> map (\<lambda>kv. \<lparr>cr_reason = (if need then Some l else None), cr_value = kv\<rparr>)
          (filter (\<lambda>kv. kv_key kv = key) (r_data res))) \<longleftrightarrow>
      (\<exists>res kv. res_stor (ms_indices mem) (il_abs_res_path l) = Some res \<and> kv \<in> set (r_data res) \<and>
        kv_key kv = key \<and> r = \<lparr>cr_reason = (if need then Some l else None), cr_value = kv\<rparr>)" for r l key
    by (cases "res_stor (ms_indices mem) (il_abs_res_path l)") (auto simp: get_res_by_path_def)
  show "r \<in> set ?out \<longleftrightarrow> (\<exists>l res kv. active mem whoami l \<and>
       res_stor (ms_indices mem) (il_abs_res_path l) = Some res \<and> kv \<in> set (r_data res) \<and>
       kv_key kv \<in> set keys \<and> r = \<lparr>cr_reason = (if need then Some l else None), cr_value = kv\<rparr>)" for r
    unfolding fetch_res_by_all_linked_res_view_def set_concat set_map image_image UN_iff one Bex_def
      set_active_links [OF assms(2)]
    by (rule key_link_swap)
qed

theorem all_linked_view_witness:
  "\<exists>out. querier_get insertion_sort_by [''r''] sample_mem mac_user [''k''] AllLinkedResView True = Ok out \<and>
    \<lparr>cr_reason = Some sample_item, cr_value = sample_kv\<rparr> \<in> set out"
proof -
  have "active sample_mem mac_user sample_item"
    using set_active_links [OF sample_order, of sample_item mac_user] sample_active by simp
  moreover have "res_stor (ms_indices sample_mem) (il_abs_res_path sample_item) =
      Some \<lparr>r_data = [sample_kv], r_res_path = ''s''\<rparr>"
    by (simp add: sample_mem_def sample_stores sample_item_def)
  ultimately show ?thesis
    using all_linked_view [OF sample_index_ok sample_order, of insertion_sort_by mac_user "[''k'']" True]
    by (force simp: sample_kv_def)
qed

section \<open>The shape of an overlaid answer\<close>

lemma overlay_key_shape:
  "overlay_key mem need key ls = [] \<or> (\<exists>r. overlay_key mem need key ls = [r] \<and> kv_key (cr_value r) = key)"
  by (induction ls) (auto simp: find_Some_iff split: option.split)

lemma overlay_keys_subseq:
  "subseq (map (\<lambda>r. kv_key (cr_value r)) (concat (map (\<lambda>key. overlay_key mem need key ls) keys))) keys"
proof (induction keys)
  case (Cons key keys)
  then show ?case using overlay_key_shape [of mem need key ls] by auto
qed simp

text \<open>An overlaid answer has at most one value per key asked for, in the order of the keys, whatever the
  index, the sorting algorithm and the order of the hash map; so it is never longer than the query.\<close>

lemma overlaid_one_per_key:
  assumes "querier_get sorter ord mem whoami keys OverlaidView need = Ok out"
  shows "subseq (map (\<lambda>r. kv_key (cr_value r)) out) keys \<and> length out \<le> length keys"
proof -
  from assms obtain links where "out = [] \<or> out = fetch_res_by_overlaid_view sorter mem keys links need"
    by (auto simp: querier_get_def split: if_splits)
  then have "subseq (map (\<lambda>r. kv_key (cr_value r)) out) keys"
    by (auto simp: fetch_res_by_overlaid_view_def Let_def overlay_keys_subseq simp del: map_concat)
  then show ?thesis by (auto dest: list_emb_length)
qed

lemma overlaid_one_per_key_witness:
  "\<exists>out. querier_get insertion_sort_by [''r''] sample_mem mac_user [''k'', ''k''] OverlaidView False = Ok out \<and>
    length out \<le> 2"
proof -
  obtain out where "querier_get insertion_sort_by [''r''] sample_mem mac_user [''k'', ''k''] OverlaidView False = Ok out"
    using querier_get_eq [OF sample_index_ok] by blast
  with overlaid_one_per_key [OF this] show ?thesis by simp
qed

end
