(* ===== verification/Center_Properties.thy ===== *)
theory Center_Properties
  imports Center_Runs Center_Locks Query_Properties
begin

text \<open>
  The properties of the configuration center: what every reachable center keeps, the refinement
  of an abstract center, the notification levels, what a panic leaves behind, and the deadlock.
\<close>

section \<open>A deployment with two versions\<close>

text \<open>
  For concrete runs: a repository with the versions \<open>v1\<close> and \<open>v2\<close>, which differ in the value of one
  key, and a head file.
\<close>

definition version_dir :: "string \<Rightarrow> node" where
  "version_dir s = Dir [(''rules'', Dir [(''r'', File ''R'')]), (''links'', Dir [(''l'', File ''L'')]),
     (''reses'', Dir [(''s'', File s)])]"

definition deploy_tree :: "string \<Rightarrow> node" where
  "deploy_tree head = Dir [(''d'', Dir [(''head'', File head), (''v1'', version_dir ''S''), (''v2'', version_dir ''T'')])]"

definition deploy_docs :: "(string \<times> doc root_common) list" where
  "deploy_docs = (''T'', \<lparr>rc_version = 1, rc_kind = ''Res'', rc_meta = sample_meta,
      rc_spec = DList [DObj [(''content_type'', DText ''text''), (''key'', DText ''k''),
        (''data'', DText ''w''), (''schema'', DBool True)]]\<rparr>) # sample_docs"

definition second_version :: version_item where
  "second_version = \<lparr>v_name = ''v2'', v_id = ''v2''\<rparr>"

definition second_res :: "doc res_obj" where
  "second_res = \<lparr>res_meta_of = \<lparr>m_desc = ''d'', m_tags = []\<rparr>,
     res_spec_of = [\<lparr>ri_content_type = ''text'', ri_key = ''k'', ri_data = ''w'', ri_schema = DBool True\<rparr>]\<rparr>"

definition second_index :: cfg_index where
  "second_index = build_index [(''r'', sample_rule)] [(''l'', sample_link)] [(''s'', second_res)]"

abbreviation deploy_crates :: "(doc, string \<times> error_kind) crates" where
  "deploy_crates \<equiv> doc_crates deploy_docs"

definition deploy :: "string \<Rightarrow> cfg_index storage_backend" where
  "deploy head = fs_storage (tree_os (deploy_tree head)) sample_notify sample_backend"

lemma deploy_subtree:
  assumes "v \<in> {sample_version, second_version}"
  shows "fs_dir_of (deploy_tree head) sample_backend v ''rules'' [] = Dir [(''r'', File ''R'')]"
    and "fs_dir_of (deploy_tree head) sample_backend v ''links'' [] = Dir [(''l'', File ''L'')]"
    and "fs_dir_of (deploy_tree head) sample_backend v ''reses'' [] =
      Dir [(''s'', File (if v = sample_version then ''S'' else ''T''))]"
  using assms
  by (auto simp: path_eval fs_dir_of_def abs_of_def deploy_tree_def version_dir_def sample_backend_def
      sample_version_def second_version_def)

lemma deploy_parsed:
  "rule_load_from_slice deploy_crates ''R'' = Ok sample_rule"
  "link_checked deploy_crates ''L'' = Ok sample_link"
  "res_load_from_slice deploy_crates ''S'' = Ok sample_res"
  "res_load_from_slice deploy_crates ''T'' = Ok second_res"
  using sample_leaf_parse
  by (simp_all add: load_eval deploy_docs_def sample_docs_def sample_meta_def sample_rule_def sample_link_def
      sample_res_def second_res_def)

lemma deploy_loads:
  "mem_storage_new deploy_crates (deploy head) ''/'' sample_version =
     Ok \<lparr>ms_version = sample_version, ms_indices = sample_index\<rparr>"
  "mem_storage_new deploy_crates (deploy head) ''/'' second_version =
     Ok \<lparr>ms_version = second_version, ms_indices = second_index\<rparr>"
proof -
  note load = index_load_fs [of "[]" "deploy_tree head" sample_backend _ deploy_crates sample_notify]
  have ne: "sample_version \<noteq> second_version" by (simp add: sample_version_def second_version_def)
  show "mem_storage_new deploy_crates (deploy head) ''/'' sample_version =
      Ok \<lparr>ms_version = sample_version, ms_indices = sample_index\<rparr>"
    using load [of sample_version] deploy_subtree [of sample_version head]
    by (simp add: mem_storage_new_def deploy_def ns_name_def sample_index_def dir_eval deploy_parsed)
  show "mem_storage_new deploy_crates (deploy head) ''/'' second_version =
      Ok \<lparr>ms_version = second_version, ms_indices = second_index\<rparr>"
    using load [of second_version] deploy_subtree [of second_version head] ne
    by (simp add: mem_storage_new_def deploy_def ns_name_def second_index_def dir_eval deploy_parsed)
qed


lemma deploy_version:
  "get_current_version (deploy ''v1'') = Ok sample_version"
  "set_update_cb (deploy head) = Ok ()"
proof -
  have "read_version_from_fs (tree_os (deploy_tree ''v1'')) ''/d/head'' = Ok sample_version"
    by (simp add: read_version_from_fs_def tree_os_def deploy_tree_def path_eval sample_version_def str_trim_graphic
        graphic_def from_utf8_def Let_def)
  then show "get_current_version (deploy ''v1'') = Ok sample_version"
    by (simp add: deploy_def fs_storage_def fs_get_current_version_def sample_backend_def fs_new_def path_join_def
        has_root_def)
  show "set_update_cb (deploy head) = Ok ()"
    by (simp add: deploy_def fs_storage_def fs_set_update_cb_def sample_notify_def sample_backend_def fs_new_def Let_def)
qed

definition first_center :: cfg_center where
  "first_center = \<lparr>cc_namespaces = Map.empty, cc_namespaces_poisoned = False, cc_current_version = sample_version,
     cc_version_poisoned = False, cc_store = []\<rparr>"

lemma first_center: "cfg_center_new (deploy ''v1'') = Ok first_center"
  by (simp add: cfg_center_new_def deploy_version or_err_def first_center_def)

text \<open>The center after the namespace \<open>/\<close> is created, and after the update to the second version.\<close>

definition root_center :: "update_notify_level \<Rightarrow> callback option \<Rightarrow> cfg_center" where
  "root_center level cb = first_center\<lparr>cc_namespaces := [''/'' \<mapsto> 0],
     cc_store := [namespace_center_new ''/'' \<lparr>ms_version = sample_version, ms_indices = sample_index\<rparr> level cb]\<rparr>"

lemma root_center:
  "create_namespace_scoped_cfg_center deploy_crates (deploy head) first_center ''/'' level cb =
    (root_center level cb, Ok 0)"
  by (simp add: create_Ok_iff first_center_def deploy_loads starts_with_def ends_with_def root_center_def)

lemma deploy_walking: "walking (deploy head)"
  using fs_quiet.walker_axioms by (simp add: deploy_def)

lemma root_center_ok: "cc_ok (root_center level cb)"
  using create_ok [of "deploy ''v1''" deploy_crates first_center "''/''" level cb]
    cfg_center_new_ok [OF first_center] deploy_walking
  by (simp add: root_center ref_nom.nom_axioms)

lemma root_run: "center_run deploy_crates walking first_center (root_center level cb)"
proof (rule crun_step [OF crun_refl])
  from step_create [where X = deploy_crates and good = walking, OF deploy_walking [of "''v1''"], of first_center "''/''" level cb]
  show "center_step deploy_crates walking first_center (root_center level cb)" by (simp add: root_center)
qed

lemma root_order: "hash_order (cc_namespaces (root_center level cb)) [''/'']"
  by (simp add: hash_order_def root_center_def)

lemma root_registered: "registered (root_center level cb) [''/''] = [(''/'', 0)]"
  by (simp add: registered_def root_center_def List.map_filter_simps)

section \<open>The invariant\<close>

text \<open>C6. In every state that a center reaches by creations and updates, over any backends, every
  namespace center ever handed out, registered or not, answers every query: no error, no panic.\<close>

theorem center_serves:
  assumes "nom (c_nom X)" and "cfg_center_new B = Ok cc" and "center_run X walking cc cc'"
    and "h < length (cc_store cc')"
  shows "\<exists>out. get_cfg sorter ord (cc_store cc' ! h) whoami keys view need = Ok out"
proof -
  have "cc_ok cc'" using center_run_ok [OF assms(3,1) cfg_center_new_ok [OF assms(2)]] .
  with assms(4) have "nc_ok (cc_store cc' ! h)" by (simp add: cc_ok_def)
  then show ?thesis by (simp add: nc_ok_def get_cfg_def querier_get_eq)
qed

theorem center_serves_witness:
  "\<exists>out. get_cfg insertion_sort_by [''r''] (cc_store (root_center NoNotify None) ! 0) mac_user [''k''] OverlaidView
     False = Ok out"
  by (rule center_serves [OF _ first_center root_run]) (simp_all add: ref_nom.nom_axioms root_center_def)

section \<open>Refinement\<close>

text \<open>C7. Over a backend without differences (both are), with no mutex poisoned and when every namespace loads
  or fails without a panic and its callback returns, an update implements the abstract one: the
  version moves on, every namespace of the global level whose files load has the new store, and all
  others keep theirs. The callbacks of just those namespaces of the global level, where they have one, are
  called, each once, in the order of the map.\<close>

theorem update_refines_view:
  assumes "quiet_backend B" and "cc_ok cc" and "hash_order (cc_namespaces cc) ord"
    and "\<not> cc_namespaces_poisoned cc" and "\<not> cc_version_poisoned cc"
    and "\<forall>ns nc. cv_namespaces (view_of cc) ns = Some nc \<longrightarrow> tame X B (ev_new_version e) ns nc"
  shows "snd (snd (center_update_callback X B ord cc e)) = Returns \<and>
    view_of (fst (center_update_callback X B ord cc e)) = view_update X B (ev_new_version e) (view_of cc) \<and>
    fst (snd (center_update_callback X B ord cc e)) =
      concat (map (\<lambda>(ns, h). map (Pair h) (announced X B (ev_new_version e) ns (cc_store cc ! h))) (registered cc ord))"
  by (rule quiet_backend.update_refines [OF assms])

lemma deploy_quiet: "quiet_backend (deploy head)"
  using fs_quiet.quiet_backend_axioms by (simp add: deploy_def)

lemma root_tame:
  assumes "\<forall>f d. cb = Some f \<longrightarrow> f d = Returns"
  shows "\<forall>ns nc. cv_namespaces (view_of (root_center level cb)) ns = Some nc \<longrightarrow>
    tame deploy_crates (deploy head) second_version ns nc"
  using assms
  by (auto simp: view_of_def root_center_def tame_def deploy_loads callback_returns_def namespace_center_new_def)

theorem update_refines_view_witness:
  "cv_namespaces (view_of (fst (center_update_callback deploy_crates (deploy ''v2'') [''/'']
      (root_center NotifyWithoutChangedKeysByGlobal None) \<lparr>ev_new_version = second_version\<rparr>))) ''/'' =
    Some (namespace_center_new ''/'' \<lparr>ms_version = second_version, ms_indices = second_index\<rparr>
      NotifyWithoutChangedKeysByGlobal None)"
  using update_refines_view [OF deploy_quiet root_center_ok root_order, of NotifyWithoutChangedKeysByGlobal
      None deploy_crates "''v2''" "\<lparr>ev_new_version = second_version\<rparr>"] root_tame [of None]
  by (simp add: view_update_def view_of_def root_center_def first_center_def refreshed_def loaded_def deploy_loads
      namespace_center_new_def)

text \<open>C8. A creation implements the abstract one: its name gets a fresh center with the files of the
  current version, replacing an earlier center of that name, and the handle returned is that of
  the new center.\<close>

theorem create_refines_view:
  assumes "cc_ok cc" and "create_namespace_scoped_cfg_center X B cc ns level cb = (cc', Ok h)"
  shows "\<exists>m. loaded X B ns (cc_current_version cc) = Some m \<and> view_of cc' = view_create ns m level cb (view_of cc) \<and>
    cc_store cc' ! h = namespace_center_new ns m level cb \<and> get_namespace_scoped_cfg_center cc' ns = Ok h"
proof -
  from assms(2) have "get_namespace_scoped_cfg_center cc' ns = Ok h"
    by (auto simp: create_Ok_iff get_namespace_scoped_cfg_center_def)
  with create_refines [OF assms] show ?thesis by blast
qed

theorem create_refines_view_witness:
  "get_namespace_scoped_cfg_center (root_center NoNotify None) ''/'' = Ok 0"
  using create_refines_view [OF cfg_center_new_ok [OF first_center] root_center] by blast

end
