(* ===== verification/Center_Failures.thy ===== *)
theory Center_Failures
  imports Center_Properties
begin

text \<open>
  What the center does not do: the levels below the global one, handles of names created again, a
  panic in a client's callback, and names that leave the namespaces' directory.
\<close>

section \<open>What callbacks see\<close>

text \<open>When every handle is registered once, the calls made for it are those of its name.\<close>

lemma calls_of_handle:
  assumes "distinct (map snd nhs)" and "(ns, h) \<in> set nhs"
  shows "map snd (filter (\<lambda>(h', d). h' = h) (concat (map (\<lambda>(ns, h). map (Pair h) (F ns h)) nhs))) = F ns h"
  using assms
proof (induction nhs)
  case (Cons a nhs)
  obtain ns' h' where a: "a = (ns', h')" by force
  have none: "filter (\<lambda>(h', d). h' = h) (concat (map (\<lambda>(ns, h). map (Pair h) (F ns h)) us)) = []"
    if "h \<notin> snd ` set us" for us
    using that by (induction us) (auto simp: filter_empty_conv)
  show ?case
  proof (cases "h' = h")
    case True
    with Cons.prems a have "h \<notin> snd ` set nhs" by auto
    moreover from this Cons.prems(2) a have "ns' = ns" by force
    ultimately show ?thesis using none True by (simp add: a filter_map comp_def)
  next
    case False
    with Cons a show ?thesis by (simp add: filter_map comp_def)
  qed
qed simp

text \<open>C21. In an update over a backend without differences, the callback of a namespace of the global level
  whose files load is called exactly once. Its differ answers queries on the old side as the
  namespace center did before the update, and on the new side as it does afterwards.\<close>

theorem differ_before_after:
  assumes "quiet_backend B" and "cc_ok cc" and "hash_order (cc_namespaces cc) ord"
    and "\<not> cc_namespaces_poisoned cc" and "\<not> cc_version_poisoned cc"
    and "\<forall>ns nc. cv_namespaces (view_of cc) ns = Some nc \<longrightarrow> tame X B (ev_new_version e) ns nc"
    and "cc_namespaces cc ns = Some h" and "nc_notify_level (cc_store cc ! h) = NotifyWithoutChangedKeysByGlobal"
    and "nc_callback (cc_store cc ! h) = Some f" and "loaded X B ns (ev_new_version e) = Some m"
    and "center_update_callback X B ord cc e = (cc', calls, r)"
  shows "\<exists>d. map snd (filter (\<lambda>(h', d). h' = h) calls) = [d] \<and>
    (\<forall>sorter ord w ks v n. differ_get_from_old sorter ord d w ks v n =
       map_err DifferQueryError (get_cfg sorter ord (cc_store cc ! h) w ks v n)) \<and>
    (\<forall>sorter ord w ks v n. differ_get_from_new sorter ord d w ks v n =
       map_err DifferQueryError (get_cfg sorter ord (cc_store cc' ! h) w ks v n))"
proof -
  let ?v = "ev_new_version e" and ?nc = "cc_store cc ! h"
  note upd = quiet_backend.update_refines [OF assms(1-6)]
  note reg = registered_handles [OF assms(2,3)]
  let ?d = "differ_new NotifyWithoutChangedKeysByGlobal (nc_memstore ?nc) m [] B"
  have mem: "(ns, h) \<in> set (registered cc ord)" using assms(3,7) by (simp add: registered_iff)
  have "announced X B ?v ns ?nc = [?d]" using assms(8-10) by (simp add: announced_def)
  then have calls: "map snd (filter (\<lambda>(h', d). h' = h) calls) = [?d]"
    using upd calls_of_handle [OF reg [THEN conjunct1] mem, of "\<lambda>ns h. announced X B ?v ns (cc_store cc ! h)"]
      assms(11) by simp
  have "cv_namespaces (view_of cc') ns = Some (refreshed X B ?v ns ?nc)"
    using upd assms(7,11) by (simp add: view_update_def view_of_def)
  moreover have "cc_namespaces cc' = cc_namespaces cc"
    using update_names [of X B ord cc e] assms(11) by simp
  ultimately have "cc_store cc' ! h = refreshed X B ?v ns ?nc"
    using assms(7) by (simp add: view_of_def)
  then have new: "cc_store cc' ! h = ?nc\<lparr>nc_memstore := m\<rparr>" using assms(8,10) by (simp add: refreshed_def)
  have "\<not> nc_memstore_poisoned ?nc"
    using assms(2,7) by (simp add: cc_ok_def nc_ok_def)
  with calls new show ?thesis
    by (intro exI [of _ ?d])
      (simp add: differ_get_from_old_def differ_get_from_new_def get_cfg_def differ_new_def)
qed

definition quiet_client :: callback where
  "quiet_client d = Returns"

theorem differ_before_after_witness:
  "\<exists>d cc' calls r. center_update_callback deploy_crates (deploy ''v2'') [''/'']
      (root_center NotifyWithoutChangedKeysByGlobal (Some quiet_client)) \<lparr>ev_new_version = second_version\<rparr> =
      (cc', calls, r) \<and> map snd (filter (\<lambda>(h', d). h' = 0) calls) = [d]"
proof -
  let ?cc = "root_center NotifyWithoutChangedKeysByGlobal (Some quiet_client)"
  obtain cc' calls r where u: "center_update_callback deploy_crates (deploy ''v2'') [''/''] ?cc
      \<lparr>ev_new_version = second_version\<rparr> = (cc', calls, r)"
    by (metis prod_cases3)
  have "\<forall>f d. Some quiet_client = Some f \<longrightarrow> f d = Returns" by (simp add: quiet_client_def)
  from differ_before_after [OF deploy_quiet root_center_ok root_order _ _ _ _ _ _ _ u, of "''/''" 0 quiet_client]
    root_tame [OF this] u
  show ?thesis
    by (auto simp: root_center_def first_center_def namespace_center_new_def loaded_def deploy_loads)
qed

section \<open>Levels below the global one\<close>

lemma update_loop_levels:
  "(\<forall>(h, d)\<in>set (fst (snd (update_loop X B old new nhs store))).
      nc_notify_level (store ! h) = NotifyWithoutChangedKeysByGlobal) \<and>
   (\<forall>h. nc_notify_level (store ! h) \<in> {NoNotify, NotifyWithMaybeChangedKeys} \<longrightarrow>
      fst (update_loop X B old new nhs store) ! h = store ! h)"
proof (induction X B old new nhs store rule: update_loop.induct)
  case (2 X B old new ns h rest store)
  obtain nc calls r where u: "update_namespace X B old new ns (store ! h) = (nc, calls, r)"
    by (metis prod_cases3)
  have frame: "nc_notify_level nc = nc_notify_level (store ! h)"
    using u nc_update_callback_frame [of B "store ! h"]
    by (auto simp: update_namespace_def split: update_notify_level.splits res.splits if_splits
        dest!: arg_cong [where f = fst])
  then have level: "nc_notify_level (store[h := nc] ! k) = nc_notify_level (store ! k)" for k
    by (cases "k = h"; cases "h < length store") (simp_all add: list_update_beyond)
  have calls: "calls = []" if "nc_notify_level (store ! h) \<noteq> NotifyWithoutChangedKeysByGlobal"
    using that u by (auto simp: update_namespace_def nc_update_callback_def
        split: update_notify_level.splits res.splits if_splits)
  have keep: "nc = store ! h" if "nc_notify_level (store ! h) \<in> {NoNotify, NotifyWithMaybeChangedKeys}"
    using that u by (auto simp: update_namespace_def split: res.splits if_splits)
  have keep_at: "store[h := nc] ! k = store ! k"
    if "nc_notify_level (store ! k) \<in> {NoNotify, NotifyWithMaybeChangedKeys}" for k
    using that keep by (cases "k = h") auto
  have here: "nc_notify_level (store ! h) = NotifyWithoutChangedKeysByGlobal" if "d \<in> set calls" for d
    using calls that by force
  show ?case
  proof (cases r)
    case Returns
    note IH = 2 [OF u [symmetric] refl Returns]
    obtain store' calls' r' where l: "update_loop X B old new rest (store[h := nc]) = (store', calls', r')"
      by (metis prod_cases3)
    have later: "nc_notify_level (store ! k) = NotifyWithoutChangedKeysByGlobal" if "(k, d) \<in> set calls'" for k d
      using IH [THEN conjunct1] that by (auto simp: l level)
    have "store' ! k = store ! k" if "nc_notify_level (store ! k) \<in> {NoNotify, NotifyWithMaybeChangedKeys}" for k
      using IH [THEN conjunct2, rule_format, of k] that by (simp add: l level keep_at)
    with u Returns l here later show ?thesis by auto
  qed (use u here keep_at in auto)
qed simp

text \<open>C31. Whatever the backend reports, an update calls the callbacks of the global level only, and a
  namespace of the level \<open>NotifyWithMaybeChangedKeys\<close> (or \<open>NoNotify\<close>) keeps its old store: the
  store loaded for it is dropped, though its files have changed.\<close>

theorem lower_levels_dropped:
  assumes "hash_order (cc_namespaces cc) ord"
    and "center_update_callback X B ord cc e = (cc', calls, r)"
  shows "(\<forall>(h, d)\<in>set calls. nc_notify_level (cc_store cc ! h) = NotifyWithoutChangedKeysByGlobal) \<and>
    (\<forall>h. nc_notify_level (cc_store cc ! h) \<in> {NoNotify, NotifyWithMaybeChangedKeys} \<longrightarrow>
       cc_store cc' ! h = cc_store cc ! h)"
  using assms(2) update_loop_levels [where X = X and B = B and old = "cc_current_version cc"
      and new = "ev_new_version e" and nhs = "registered cc ord" and store = "cc_store cc"]
  by (auto simp: center_update_callback_eq split: prod.splits finish.splits if_splits)


text \<open>A backend that reports a change of the resource of the namespace \<open>/\<close>.\<close>

definition reporting :: "string \<Rightarrow> cfg_index storage_backend" where
  "reporting head = (deploy head)\<lparr>get_diff_list := (\<lambda>old new ns. Ok [''/s''])\<rparr>"

theorem lower_levels_dropped_witness:
  "cc_store (fst (center_update_callback deploy_crates (reporting ''v2'') [''/'']
     (root_center NotifyWithMaybeChangedKeys (Some quiet_client)) \<lparr>ev_new_version = second_version\<rparr>)) ! 0 =
   namespace_center_new ''/'' \<lparr>ms_version = sample_version, ms_indices = sample_index\<rparr>
     NotifyWithMaybeChangedKeys (Some quiet_client)"
proof -
  let ?cc = "root_center NotifyWithMaybeChangedKeys (Some quiet_client)"
  obtain cc' calls r where u: "center_update_callback deploy_crates (reporting ''v2'') [''/''] ?cc
      \<lparr>ev_new_version = second_version\<rparr> = (cc', calls, r)"
    by (metis prod_cases3)
  have "cc_store cc' ! 0 = cc_store ?cc ! 0"
    using lower_levels_dropped [OF root_order u, THEN conjunct2, rule_format, of 0]
    by (simp add: root_center_def namespace_center_new_def)
  then show ?thesis unfolding u by (simp add: root_center_def)
qed

text \<open>Over a backend without differences nothing below the global level ever changes.\<close>

lemma quiet_loop_keeps:
  assumes "quiet_backend B"
  shows "nc_notify_level (store ! h) \<noteq> NotifyWithoutChangedKeysByGlobal
    \<Longrightarrow> fst (update_loop X B old new nhs store) ! h = store ! h"
  using assms
proof (induction X B old new nhs store rule: update_loop.induct)
  case (2 X B old new ns k rest store)
  obtain nc calls r where u: "update_namespace X B old new ns (store ! k) = (nc, calls, r)"
    by (metis prod_cases3)
  have "store[k := nc] ! h = store ! h"
    using u "2.prems" quiet_backend.update_other_levels [of B "store ! k" X old new ns] by (cases "k = h") auto
  with u 2 show ?case by (cases r) (auto split: prod.splits)
qed simp

lemma quiet_step_keeps:
  assumes "center_step X quiet_backend cc cc'"
    and "h < length (cc_store cc) \<and> cc_store cc ! h = nc" and "nc_notify_level nc \<noteq> NotifyWithoutChangedKeysByGlobal"
  shows "h < length (cc_store cc') \<and> cc_store cc' ! h = nc"
  using assms(1)
proof cases
  case (step_create B ns level cb)
  obtain r where c: "create_namespace_scoped_cfg_center X B cc ns level cb = (cc', r)"
    using step_create(1) by (metis prod.collapse)
  show ?thesis
  proof (cases "\<exists>h. r = Ok h")
    case True
    with c assms(2) show ?thesis by (auto simp: create_Ok_iff nth_append)
  next
    case False
    with create_not_Ok [OF c] assms(2) show ?thesis by auto
  qed
next
  case (step_update B ord e)
  have "fst (update_loop X B (cc_current_version cc) (ev_new_version e) (registered cc ord) (cc_store cc)) ! h =
      cc_store cc ! h"
    using quiet_loop_keeps [OF step_update(2)] assms(2,3) by blast
  then have "cc_store cc' ! h = nc"
    using step_update(1) assms(2)
    by (auto simp: center_update_callback_eq split: prod.splits finish.splits)
  then show ?thesis using assms(2) step_update(1) by (simp add: update_store_length)
qed

text \<open>C30. Both backends report no differences, so over them a namespace of a level below the global one
  serves the version it was created with for ever, whatever is created and updated later, though
  the version of the center moves on.\<close>

theorem lower_levels_stale:
  assumes "center_run X quiet_backend cc cc'" and "h < length (cc_store cc)"
    and "nc_notify_level (cc_store cc ! h) \<noteq> NotifyWithoutChangedKeysByGlobal"
  shows "cc_store cc' ! h = cc_store cc ! h"
proof -
  have "h < length (cc_store cc') \<and> cc_store cc' ! h = cc_store cc ! h"
    using assms(1)
  proof (rule center_run_inv)
    show "h < length (cc_store c') \<and> cc_store c' ! h = cc_store cc ! h"
      if "center_step X quiet_backend c c'" "h < length (cc_store c) \<and> cc_store c ! h = cc_store cc ! h" for c c'
      using quiet_step_keeps [OF that assms(3)] .
  qed (use assms(2) in simp)
  then show ?thesis by blast
qed

text \<open>The center after an update of the namespace \<open>/\<close> to the second version.\<close>

definition moved_center :: "update_notify_level \<Rightarrow> callback option \<Rightarrow> cfg_center" where
  "moved_center level cb = fst (center_update_callback deploy_crates (deploy ''v2'') [''/''] (root_center level cb)
     \<lparr>ev_new_version = second_version\<rparr>)"

lemma moved_center:
  assumes "\<forall>f d. cb = Some f \<longrightarrow> f d = Returns"
  shows "center_step deploy_crates quiet_backend (root_center level cb) (moved_center level cb)"
    and "cc_current_version (moved_center level cb) = second_version"
proof -
  note upd = quiet_backend.update_refines [OF deploy_quiet root_center_ok root_order, of level cb deploy_crates "''v2''"
      "\<lparr>ev_new_version = second_version\<rparr>"]
  have tame: "\<forall>ns nc. cv_namespaces (view_of (root_center level cb)) ns = Some nc \<longrightarrow>
      tame deploy_crates (deploy ''v2'') (ev_new_version \<lparr>ev_new_version = second_version\<rparr>) ns nc"
    using root_tame [OF assms, of level "''v2''"] by simp
  have free: "\<not> cc_namespaces_poisoned (root_center level cb)" "\<not> cc_version_poisoned (root_center level cb)"
    by (simp_all add: root_center_def first_center_def)
  note upd = upd [OF free tame]
  have "snd (snd (center_update_callback deploy_crates (deploy ''v2'') [''/''] (root_center level cb)
      \<lparr>ev_new_version = second_version\<rparr>)) \<noteq> Blocks"
    using upd by simp
  from step_update [where X = deploy_crates and good = quiet_backend, OF deploy_quiet root_order this]
  show "center_step deploy_crates quiet_backend (root_center level cb) (moved_center level cb)"
    by (simp add: moved_center_def)
  have "cv_version (view_of (moved_center level cb)) = second_version"
    using upd by (simp add: moved_center_def view_update_def)
  then show "cc_current_version (moved_center level cb) = second_version" by (simp add: view_of_def)
qed

theorem lower_levels_stale_witness:
  "ms_version (nc_memstore (cc_store (moved_center NotifyWithoutChangedKeysInNamespace None) ! 0)) = sample_version \<and>
   cc_current_version (moved_center NotifyWithoutChangedKeysInNamespace None) = second_version"
proof -
  have none: "\<forall>f d. (None :: callback option) = Some f \<longrightarrow> f d = Returns" by simp
  have "cc_store (moved_center NotifyWithoutChangedKeysInNamespace None) ! 0 =
      cc_store (root_center NotifyWithoutChangedKeysInNamespace None) ! 0"
    by (rule lower_levels_stale [OF crun_step [OF crun_refl moved_center(1) [OF none]]])
      (simp_all add: root_center_def namespace_center_new_def)
  then show ?thesis
    using moved_center(2) [OF none] by (simp add: root_center_def namespace_center_new_def)
qed


section \<open>Names created again\<close>

text \<open>C32. Creating a namespace again gives its name a new center; the handle that clients hold from
  before is not updated any more, by no later creation or update.\<close>

theorem recreated_handle_stale:
  assumes "cc_ok cc" and "cc_namespaces cc ns = Some h"
    and "create_namespace_scoped_cfg_center X B cc ns level cb = (cc1, Ok h1)"
    and "center_run X good cc1 cc2"
  shows "get_namespace_scoped_cfg_center cc1 ns = Ok h1 \<and> h1 \<noteq> h \<and> cc_store cc2 ! h = cc_store cc ! h"
proof -
  have len: "h < length (cc_store cc)" and name: "nc_namespace (cc_store cc ! h) = ns"
    using assms(1,2) by (auto simp: cc_ok_def)
  have only: "cc_namespaces cc k \<noteq> Some h" if "k \<noteq> ns" for k
    using assms(1) name that by (auto simp: cc_ok_def)
  from assms(3) have h1: "h1 = length (cc_store cc)"
    and cc1: "cc_namespaces cc1 = (cc_namespaces cc)(ns \<mapsto> h1)" "cc_store cc1 ! h = cc_store cc ! h"
      "length (cc_store cc1) = Suc (length (cc_store cc))" "get_namespace_scoped_cfg_center cc1 ns = Ok h1"
    using len by (auto simp: create_Ok_iff nth_append get_namespace_scoped_cfg_center_def)
  have "unregistered h cc1"
    using len only h1 cc1 by (auto simp: unregistered_def)
  from unregistered_run [OF assms(4) this] cc1 h1 len show ?thesis by simp
qed

theorem recreated_handle_stale_witness:
  "\<exists>cc1. create_namespace_scoped_cfg_center deploy_crates (deploy ''v1'')
      (root_center NotifyWithoutChangedKeysByGlobal None) ''/'' NotifyWithoutChangedKeysByGlobal None = (cc1, Ok 1) \<and>
    cc_store (fst (center_update_callback deploy_crates (deploy ''v2'') [''/''] cc1
      \<lparr>ev_new_version = second_version\<rparr>)) ! 0 = cc_store (root_center NotifyWithoutChangedKeysByGlobal None) ! 0"
proof -
  let ?cc = "root_center NotifyWithoutChangedKeysByGlobal None"
  let ?cc1 = "?cc\<lparr>cc_store := cc_store ?cc @ [namespace_center_new ''/''
      \<lparr>ms_version = sample_version, ms_indices = sample_index\<rparr> NotifyWithoutChangedKeysByGlobal None],
    cc_namespaces := (cc_namespaces ?cc)(''/'' \<mapsto> 1)\<rparr>"
  have c: "create_namespace_scoped_cfg_center deploy_crates (deploy ''v1'') ?cc ''/''
      NotifyWithoutChangedKeysByGlobal None = (?cc1, Ok 1)"
    by (simp add: create_Ok_iff root_center_def first_center_def deploy_loads starts_with_def ends_with_def)
  let ?u = "center_update_callback deploy_crates (deploy ''v2'') [''/''] ?cc1 \<lparr>ev_new_version = second_version\<rparr>"
  have ord: "hash_order (cc_namespaces ?cc1) [''/'']"
    by (simp add: hash_order_def root_center_def)
  have "snd (snd ?u) = Returns"
    by (simp add: center_update_callback_def root_center_def first_center_def List.map_filter_simps
        update_namespace_def deploy_loads nc_update_callback_def namespace_center_new_def)
  then have "center_run deploy_crates quiet_backend ?cc1 (fst ?u)"
    by (intro crun_step [OF crun_refl] step_update deploy_quiet ord) simp
  from recreated_handle_stale [OF root_center_ok _ c this] c show ?thesis
    by (auto simp: root_center_def)
qed

section \<open>A panic on the watcher's thread\<close>

text \<open>C29. When a load or a client's callback panics during an update, both mutexes stay poisoned: the
  version does not move, no namespace can be looked up or created any more, and every later
  update does nothing, for ever.\<close>

theorem panic_freezes:
  assumes "center_update_callback X B ord cc e = (cc', calls, Unwinds)" and "center_run X good cc' cc''"
  shows "cc'' = cc' \<and> cc_current_version cc' = cc_current_version cc \<and>
    (\<forall>ns. get_namespace_scoped_cfg_center cc' ns = Err (NamespaceError ''get lock error'')) \<and>
    (\<forall>B ns level cb. \<exists>msg. create_namespace_scoped_cfg_center X B cc' ns level cb = (cc', Err (NamespaceError msg))) \<and>
    (\<forall>B ord e. center_update_callback X B ord cc' e = (cc', [], Returns))"
proof -
  from assms(1) have p: "cc_namespaces_poisoned cc'" "cc_version_poisoned cc'"
    "cc_current_version cc' = cc_current_version cc"
    by (auto simp: center_update_callback_eq split: prod.splits finish.splits if_splits)
  with poisoned_run [OF assms(2)] show ?thesis
    by (simp add: get_namespace_scoped_cfg_center_def create_namespace_scoped_cfg_center_def center_update_callback_def)
qed

definition panicking_client :: callback where
  "panicking_client d = Unwinds"

theorem panic_freezes_witness:
  "get_namespace_scoped_cfg_center (fst (center_update_callback deploy_crates (deploy ''v2'') [''/'']
     (root_center NotifyWithoutChangedKeysByGlobal (Some panicking_client)) \<lparr>ev_new_version = second_version\<rparr>)) ''/'' =
   Err (NamespaceError ''get lock error'')"
proof -
  let ?u = "center_update_callback deploy_crates (deploy ''v2'') [''/'']
     (root_center NotifyWithoutChangedKeysByGlobal (Some panicking_client)) \<lparr>ev_new_version = second_version\<rparr>"
  have "snd (snd ?u) = Unwinds"
    by (simp add: center_update_callback_def root_center_def first_center_def List.map_filter_simps
        update_namespace_def deploy_loads nc_update_callback_def namespace_center_new_def panicking_client_def Let_def)
  then obtain cc' calls where u: "?u = (cc', calls, Unwinds)" by (metis prod.collapse)
  from panic_freezes [OF u crun_refl] show ?thesis by (simp only: u fst_conv)
qed

end
