(* ===== verification/Escape_Properties.thy ===== *)
theory Escape_Properties
  imports Center_Failures
begin

text \<open>
  Names that pass the check of \<open>create_namespace_scoped_cfg_center\<close> but leave the directories of the
  index: \<open>//n/\<close> starts and ends with a slash, and without its first slash it is still absolute.
\<close>

lemma escaping_path:
  assumes "good_name n"
  shows "ns_path ''/rules'' (slash # abs_of [n] @ ''/'') = Ok (abs_of [n] @ ''/'')"
  by (simp add: ns_path_def path_join_def has_root_def abs_of_def)

lemma escaping_item:
  assumes "\<forall>k\<in>set (n # ns). good_name k" and "n \<noteq> ''rules''" and "ns \<noteq> []"
    and "abs_path i = foldl path_join (abs_of [n] @ ''/'') ns"
  shows "internal_path ''/rules'' i = Panic"
proof -
  have path: "abs_path i = abs_of (n # ns)"
    using path_below_namespace [of "[n]" ns] assms by simp
  have "split_on slash (abs_of (n # ns)) = [] # n # ns"
    using assms(1) split_join [of "n # ns" slash] by (auto simp: abs_of_def)
  moreover have "path_segs ''/rules'' = [''rules'']" by (simp add: path_segs_def void_seg_def trim_segs_def)
  moreover have "\<not> void_seg n" using assms(1) by (auto simp: void_seg_def good_name_def)
  ultimately show ?thesis using assms(2)
    by (simp add: internal_path_def path path_strip_prefix_def void_seg_def)
qed

text \<open>C39. The name \<open>//n/\<close> of a directory \<open>n\<close> beside \<open>rules\<close> passes the check and makes the loader
  walk \<open>n\<close> itself. If the first file below \<open>n\<close> parses as a rule, removing the prefix \<open>/rules\<close> from
  its path panics while the version is locked: the mutex is poisoned.\<close>

theorem escaping_namespace_panics:
  assumes "good_name n" and "n \<noteq> ''rules''" and "\<not> cc_version_poisoned cc"
    and "is_dir_node (fs_subtree root b (cc_current_version cc) (abs_of [n] @ ''/''))"
    and "files (fs_subtree root b (cc_current_version cc) (abs_of [n] @ ''/'')) = (ns, raw) # rest"
    and "rule_load_from_slice X raw = Ok r"
  shows "create_namespace_scoped_cfg_center X (fs_storage (tree_os root) nt b) cc (slash # abs_of [n] @ ''/'') level cb =
    (cc\<lparr>cc_version_poisoned := True\<rparr>, Panic)"
proof -
  let ?p = "abs_of [n] @ ''/''" and ?v = "cc_current_version cc"
  let ?t = "fs_subtree root b ?v ?p" and ?B = "fs_storage (tree_os root) nt b :: cfg_index storage_backend"
  let ?i = "fs_item b ?v ?p ns (File raw)"
  have at: "ns \<noteq> []" "node_at ?t ns = Some (File raw)"
    using files_at [OF fs_walk.named, of ns raw root b ?v ?p] assms(5) by simp_all
  have names: "\<forall>k\<in>set ns. good_name k"
    using node_at_names [OF at(2) fs_walk.named] by auto
  have "fs_get_obj_by_hash (tree_os root) (hash ?i) = Ok raw"
    using fs_get_obj_entry [OF at(2,1)] .
  moreover have "internal_path ''/rules'' ?i = (Panic :: (string, walk_dir_error) res)"
    using names at(1) assms(1,2) by (intro escaping_item) auto
  ultimately have "rule_file X ?B c ?i = Panic" for c
    using assms(6) by (simp add: rule_file_def fs_storage_def)
  then have "load_rule X ?B (slash # ?p) empty_index ?v = Panic"
    using assms(4,5)
    by (simp add: load_rule_def escaping_path [OF assms(1), simplified] fs_walk_dir [OF steady_file_cb] walked_visit
        file_items)
  then have "mem_storage_new X ?B (slash # ?p) ?v = Panic"
    by (simp add: mem_storage_new_def index_load_def)
  then show ?thesis
    using assms(3) by (simp add: create_namespace_scoped_cfg_center_def starts_with_def ends_with_def)
qed

text \<open>A tree with a rule in a directory \<open>x\<close> beside \<open>rules\<close>.\<close>

definition escape_tree :: node where
  "escape_tree = Dir [(''d'', Dir [(''v1'', Dir [(''x'', Dir [(''r'', File ''R'')])])])]"

lemma escape_subtree:
  "fs_subtree escape_tree sample_backend sample_version ''/x/'' = Dir [(''r'', File ''R'')]"
  by (simp add: path_eval escape_tree_def sample_backend_def sample_version_def)

theorem escaping_namespace_panics_witness:
  "create_namespace_scoped_cfg_center (doc_crates sample_docs)
     (fs_storage (tree_os escape_tree) sample_notify sample_backend) first_center ''//x/'' NoNotify None =
   (first_center\<lparr>cc_version_poisoned := True\<rparr>, Panic)"
proof -
  have v: "cc_current_version first_center = sample_version" "\<not> cc_version_poisoned first_center"
    by (simp_all add: first_center_def)
  have "files (Dir [(''r'', File ''R'')]) = [([''r''], ''R'')]"
    by (simp add: files_def List.map_filter_simps)
  then show ?thesis
    using escaping_namespace_panics [of "''x''" first_center escape_tree sample_backend "[''r'']" "''R''" "[]"
        "doc_crates sample_docs" sample_rule sample_notify NoNotify None] v
    by (simp add: abs_of_def escape_subtree sample_loads good_name_def)
qed

end
