(* ===== verification/Center_Threads.thy ===== *)
theory Center_Threads
  imports Center_Runs Center_Locks
begin

text \<open>
  The center under any number of threads, with its data: what \<open>Center_Locks\<close> says of where a thread
  is, together with what it carries there (the namespace it creates, the store it has loaded, the rest
  of the map it iterates over) and what it does to the center. Between two steps of one thread any
  other thread may go on. One round of the loop of \<open>update_callback\<close> is one step: all it changes
  is the store of one namespace center, behind that center's own lock and as its last action.
\<close>

section \<open>Requests and answers\<close>

datatype request =
    AskCreate "cfg_index storage_backend" string update_notify_level "callback option"
  | AskGet string
  | AskUpdate "cfg_index storage_backend" storage_change_event

datatype answer =
    GivesHandle "handle cc_result"
  | Updated "(handle \<times> differ) list" finish

type_synonym call_log = "(thread \<times> request \<times> answer) list"

text \<open>One call after the other: a call that does not return is never followed by another.\<close>

inductive serial_step ::
  "('j, 'e) crates \<Rightarrow> (cfg_index storage_backend \<Rightarrow> bool) \<Rightarrow> cfg_center \<times> call_log \<Rightarrow> cfg_center \<times> call_log \<Rightarrow> bool"
  for X good where
  serial_create: "\<lbrakk>good B; create_namespace_scoped_cfg_center X B cc ns level cb = (cc', r); r \<noteq> Hang\<rbrakk>
    \<Longrightarrow> serial_step X good (cc, l) (cc', l @ [(t, AskCreate B ns level cb, GivesHandle r)])"
| serial_get: "get_namespace_scoped_cfg_center cc ns = r
    \<Longrightarrow> serial_step X good (cc, l) (cc, l @ [(t, AskGet ns, GivesHandle r)])"
| serial_update: "\<lbrakk>good B; hash_order (cc_namespaces cc) ord;
      center_update_callback X B ord cc e = (cc', calls, r); r \<noteq> Blocks\<rbrakk>
    \<Longrightarrow> serial_step X good (cc, l) (cc', l @ [(t, AskUpdate B e, Updated calls r)])"

text \<open>Calls in a row are a run of the center, so whatever holds of its runs holds of them.\<close>

lemma serial_center_run:
  "(serial_step X good)\<^sup>*\<^sup>* a a' \<Longrightarrow> center_run X good (fst a) (fst a')"
proof (induction rule: rtranclp_induct)
  case (step a' a'')
  from step.hyps(2) have "center_step X good (fst a') (fst a'') \<or> fst a'' = fst a'"
  proof cases
    case (serial_create B cc ns level cb cc' r l t)
    with step_create [of good B X cc ns level cb] show ?thesis by simp
  next
    case (serial_update B cc ord e cc' calls r l t)
    with step_update [of good B cc ord X e] show ?thesis by simp
  qed simp
  with step.IH show ?case by (auto intro: crun_step)
qed (rule crun_refl)

section \<open>Threads\<close>

text \<open>What a thread is doing; the backend of a call is what it answers during that call.\<close>

datatype job =
    Waits
  | CreateAsks "cfg_index storage_backend" string update_notify_level "callback option"
  | CreateLoads "cfg_index storage_backend" string update_notify_level "callback option"
  | CreateLoaded "cfg_index storage_backend" string update_notify_level "callback option" mem_storage
  | CreateInserts "cfg_index storage_backend" string update_notify_level "callback option" mem_storage
  | UpdateAsks "cfg_index storage_backend" storage_change_event
  | UpdateHalf "cfg_index storage_backend" storage_change_event
  | UpdateLoops "cfg_index storage_backend" storage_change_event "(string \<times> handle) list" "(handle \<times> differ) list"
  | GetAsks string
  | GetReads string

record threads =
  t_center :: cfg_center
  t_namespaces :: "thread option"
  t_version :: "thread option"
  t_job :: "thread \<Rightarrow> job"
  t_log :: call_log

definition threads_init :: "cfg_center \<Rightarrow> threads" where
  "threads_init cc = \<lparr>t_center = cc, t_namespaces = None, t_version = None, t_job = (\<lambda>t. Waits), t_log = []\<rparr>"

abbreviation turns :: "threads \<Rightarrow> thread \<Rightarrow> job \<Rightarrow> threads" where
  "turns s t j \<equiv> s\<lparr>t_job := (t_job s)(t := j)\<rparr>"

text \<open>A call returns: its thread is free again and its guards are dropped.\<close>

definition returns :: "threads \<Rightarrow> thread \<Rightarrow> request \<Rightarrow> answer \<Rightarrow> threads" where
  "returns s t req a =
     \<lparr>t_center = t_center s,
      t_namespaces = (if t_namespaces s = Some t then None else t_namespaces s),
      t_version = (if t_version s = Some t then None else t_version s),
      t_job = (t_job s)(t := Waits), t_log = t_log s @ [(t, req, a)]\<rparr>"

inductive thread_step ::
  "('j, 'e) crates \<Rightarrow> (cfg_index storage_backend \<Rightarrow> bool) \<Rightarrow> threads \<Rightarrow> thread \<Rightarrow> threads \<Rightarrow> bool" for X good where
  th_refuse: "\<lbrakk>t_job s t = Waits; good B; \<not> (starts_with ns ''/'' \<and> ends_with ns ''/'')\<rbrakk>
    \<Longrightarrow> thread_step X good s t (returns s t (AskCreate B ns level cb)
          (GivesHandle (Err (NamespaceError ''namespace must starts and end with `/`''))))"
| th_create: "\<lbrakk>t_job s t = Waits; good B; starts_with ns ''/''; ends_with ns ''/''\<rbrakk>
    \<Longrightarrow> thread_step X good s t (turns s t (CreateAsks B ns level cb))"
| th_create_version: "\<lbrakk>t_job s t = CreateAsks B ns level cb; t_version s = None; \<not> cc_version_poisoned (t_center s)\<rbrakk>
    \<Longrightarrow> thread_step X good s t ((turns s t (CreateLoads B ns level cb))\<lparr>t_version := Some t\<rparr>)"
| th_create_version_poisoned: "\<lbrakk>t_job s t = CreateAsks B ns level cb; t_version s = None; cc_version_poisoned (t_center s)\<rbrakk>
    \<Longrightarrow> thread_step X good s t (returns s t (AskCreate B ns level cb)
          (GivesHandle (Err (NamespaceError ''get internal lock error''))))"
| th_create_loaded: "\<lbrakk>t_job s t = CreateLoads B ns level cb;
      mem_storage_new X B ns (cc_current_version (t_center s)) = Ok m\<rbrakk>
    \<Longrightarrow> thread_step X good s t (turns s t (CreateLoaded B ns level cb m))"
| th_create_fails: "\<lbrakk>t_job s t = CreateLoads B ns level cb;
      mem_storage_new X B ns (cc_current_version (t_center s)) = Err e\<rbrakk>
    \<Longrightarrow> thread_step X good s t (returns s t (AskCreate B ns level cb) (GivesHandle (Err (CCIndexError e))))"
| th_create_panics: "\<lbrakk>t_job s t = CreateLoads B ns level cb;
      mem_storage_new X B ns (cc_current_version (t_center s)) = Panic\<rbrakk>
    \<Longrightarrow> thread_step X good s t (returns (s\<lparr>t_center := (t_center s)\<lparr>cc_version_poisoned := True\<rparr>\<rparr>) t
          (AskCreate B ns level cb) (GivesHandle Panic))"
| th_create_namespaces: "\<lbrakk>t_job s t = CreateLoaded B ns level cb m; t_namespaces s = None;
      \<not> cc_namespaces_poisoned (t_center s)\<rbrakk>
    \<Longrightarrow> thread_step X good s t ((turns s t (CreateInserts B ns level cb m))\<lparr>t_namespaces := Some t\<rparr>)"
| th_create_namespaces_poisoned: "\<lbrakk>t_job s t = CreateLoaded B ns level cb m; t_namespaces s = None;
      cc_namespaces_poisoned (t_center s)\<rbrakk>
    \<Longrightarrow> thread_step X good s t (returns s t (AskCreate B ns level cb)
          (GivesHandle (Err (NamespaceError ''get lock error''))))"
| th_create_inserts: "\<lbrakk>t_job s t = CreateInserts B ns level cb m; v = length (cc_store (t_center s))\<rbrakk>
    \<Longrightarrow> thread_step X good s t (returns (s\<lparr>t_center := (t_center s)
          \<lparr>cc_store := cc_store (t_center s) @ [namespace_center_new ns m level cb],
           cc_namespaces := (cc_namespaces (t_center s))(ns \<mapsto> v)\<rparr>\<rparr>) t
          (AskCreate B ns level cb) (GivesHandle (Ok v)))"
| th_update: "\<lbrakk>t_job s t = Waits; good B\<rbrakk> \<Longrightarrow> thread_step X good s t (turns s t (UpdateAsks B e))"
| th_update_namespaces: "\<lbrakk>t_job s t = UpdateAsks B e; t_namespaces s = None; \<not> cc_namespaces_poisoned (t_center s)\<rbrakk>
    \<Longrightarrow> thread_step X good s t ((turns s t (UpdateHalf B e))\<lparr>t_namespaces := Some t\<rparr>)"
| th_update_namespaces_poisoned: "\<lbrakk>t_job s t = UpdateAsks B e; t_namespaces s = None; cc_namespaces_poisoned (t_center s)\<rbrakk>
    \<Longrightarrow> thread_step X good s t (returns s t (AskUpdate B e) (Updated [] Returns))"
| th_update_version: "\<lbrakk>t_job s t = UpdateHalf B e; t_version s = None; \<not> cc_version_poisoned (t_center s);
      hash_order (cc_namespaces (t_center s)) ord\<rbrakk>
    \<Longrightarrow> thread_step X good s t ((turns s t (UpdateLoops B e (registered (t_center s) ord) []))\<lparr>t_version := Some t\<rparr>)"
| th_update_version_poisoned: "\<lbrakk>t_job s t = UpdateHalf B e; t_version s = None; cc_version_poisoned (t_center s)\<rbrakk>
    \<Longrightarrow> thread_step X good s t (returns s t (AskUpdate B e) (Updated [] Returns))"
| th_update_next: "\<lbrakk>t_job s t = UpdateLoops B e ((ns, h) # rest) calls;
      update_namespace X B (cc_current_version (t_center s)) (ev_new_version e) ns (cc_store (t_center s) ! h) =
        (nc, calls', Returns)\<rbrakk>
    \<Longrightarrow> thread_step X good s t ((turns s t (UpdateLoops B e rest (calls @ map (Pair h) calls')))
          \<lparr>t_center := (t_center s)\<lparr>cc_store := (cc_store (t_center s))[h := nc]\<rparr>\<rparr>)"
| th_update_panics: "\<lbrakk>t_job s t = UpdateLoops B e ((ns, h) # rest) calls;
      update_namespace X B (cc_current_version (t_center s)) (ev_new_version e) ns (cc_store (t_center s) ! h) =
        (nc, calls', Unwinds)\<rbrakk>
    \<Longrightarrow> thread_step X good s t (returns (s\<lparr>t_center := (t_center s)\<lparr>cc_store := (cc_store (t_center s))[h := nc],
          cc_namespaces_poisoned := True, cc_version_poisoned := True\<rparr>\<rparr>) t
          (AskUpdate B e) (Updated (calls @ map (Pair h) calls') Unwinds))"
| th_update_done: "t_job s t = UpdateLoops B e [] calls
    \<Longrightarrow> thread_step X good s t (returns (s\<lparr>t_center := (t_center s)\<lparr>cc_current_version := ev_new_version e\<rparr>\<rparr>) t
          (AskUpdate B e) (Updated calls Returns))"
| th_get: "t_job s t = Waits \<Longrightarrow> thread_step X good s t (turns s t (GetAsks ns))"
| th_get_namespaces: "\<lbrakk>t_job s t = GetAsks ns; t_namespaces s = None; \<not> cc_namespaces_poisoned (t_center s)\<rbrakk>
    \<Longrightarrow> thread_step X good s t ((turns s t (GetReads ns))\<lparr>t_namespaces := Some t\<rparr>)"
| th_get_namespaces_poisoned: "\<lbrakk>t_job s t = GetAsks ns; t_namespaces s = None; cc_namespaces_poisoned (t_center s)\<rbrakk>
    \<Longrightarrow> thread_step X good s t (returns s t (AskGet ns) (GivesHandle (Err (NamespaceError ''get lock error''))))"
| th_get_reads: "t_job s t = GetReads ns
    \<Longrightarrow> thread_step X good s t (returns s t (AskGet ns) (GivesHandle
          (case cc_namespaces (t_center s) ns of Some h \<Rightarrow> Ok h | None \<Rightarrow> Err (NamespaceError ''no namespace found''))))"

inductive_cases thread_stepE: "thread_step X good s t s'"

definition thread_move ::
  "('j, 'e) crates \<Rightarrow> (cfg_index storage_backend \<Rightarrow> bool) \<Rightarrow> threads \<Rightarrow> threads \<Rightarrow> bool" where
  "thread_move X good s s' \<longleftrightarrow> (\<exists>t. thread_step X good s t s')"

section \<open>The locks of the threads\<close>

primrec pc_of :: "job \<Rightarrow> pc" where
  "pc_of Waits = Idle"
| "pc_of (CreateAsks B ns level cb) = CreateStart"
| "pc_of (CreateLoads B ns level cb) = CreateLoading"
| "pc_of (CreateLoaded B ns level cb m) = CreateLocking"
| "pc_of (CreateInserts B ns level cb m) = CreateInserting"
| "pc_of (UpdateAsks B e) = UpdateStart"
| "pc_of (UpdateHalf B e) = UpdateLocking"
| "pc_of (UpdateLoops B e rest calls) = UpdateLooping"
| "pc_of (GetAsks ns) = GetStart"
| "pc_of (GetReads ns) = GetReading"

definition lock_view :: "threads \<Rightarrow> lock_state" where
  "lock_view s = \<lparr>l_pc = (\<lambda>t. pc_of (t_job s t)), l_namespaces = t_namespaces s, l_version = t_version s\<rparr>"

text \<open>Who holds what, by the work at hand.\<close>

definition has_namespaces :: "job \<Rightarrow> bool" where
  "has_namespaces j \<longleftrightarrow> holds_namespaces (pc_of j)"

definition has_version :: "job \<Rightarrow> bool" where
  "has_version j \<longleftrightarrow> holds_version (pc_of j)"

definition guarded :: "threads \<Rightarrow> bool" where
  "guarded s \<longleftrightarrow> (\<forall>t. (has_namespaces (t_job s t) \<longleftrightarrow> t_namespaces s = Some t) \<and>
     (has_version (t_job s t) \<longleftrightarrow> t_version s = Some t))"

lemma has_simps [simp]:
  "\<not> has_namespaces Waits" "\<not> has_namespaces (CreateAsks B ns level cb)" "\<not> has_namespaces (CreateLoads B ns level cb)"
  "\<not> has_namespaces (CreateLoaded B ns level cb m)" "has_namespaces (CreateInserts B ns level cb m)"
  "\<not> has_namespaces (UpdateAsks B e)" "has_namespaces (UpdateHalf B e)" "has_namespaces (UpdateLoops B e rest calls)"
  "\<not> has_namespaces (GetAsks ns)" "has_namespaces (GetReads ns)"
  "\<not> has_version Waits" "\<not> has_version (CreateAsks B ns level cb)" "has_version (CreateLoads B ns level cb)"
  "has_version (CreateLoaded B ns level cb m)" "has_version (CreateInserts B ns level cb m)"
  "\<not> has_version (UpdateAsks B e)" "\<not> has_version (UpdateHalf B e)" "has_version (UpdateLoops B e rest calls)"
  "\<not> has_version (GetAsks ns)" "\<not> has_version (GetReads ns)"
  by (simp_all add: has_namespaces_def has_version_def holds_namespaces_def holds_version_def)

lemma guarded_locks: "guarded s \<longleftrightarrow> locks_ok (lock_view s)"
  by (simp add: guarded_def locks_ok_def lock_view_def has_namespaces_def has_version_def)


lemma turns_view:
  "lock_view (turns s t j) = goto (lock_view s) t (pc_of j)"
  "lock_view ((turns s t j)\<lparr>t_namespaces := n\<rparr>) = (goto (lock_view s) t (pc_of j))\<lparr>l_namespaces := n\<rparr>"
  "lock_view ((turns s t j)\<lparr>t_version := v\<rparr>) = (goto (lock_view s) t (pc_of j))\<lparr>l_version := v\<rparr>"
  "lock_view (s\<lparr>t_center := c\<rparr>) = lock_view s"
  by (auto simp: lock_view_def fun_eq_iff)

lemma view_select [simp]:
  "l_pc (lock_view s) t = pc_of (t_job s t)" "l_namespaces (lock_view s) = t_namespaces s"
  "l_version (lock_view s) = t_version s"
  by (simp_all add: lock_view_def)

lemma returns_view:
  assumes "guarded s"
  shows "\<lbrakk>\<not> has_namespaces (t_job s t); \<not> has_version (t_job s t)\<rbrakk>
      \<Longrightarrow> lock_view (returns s t req a) = goto (lock_view s) t Idle"
    and "\<lbrakk>has_namespaces (t_job s t); \<not> has_version (t_job s t)\<rbrakk>
      \<Longrightarrow> lock_view (returns s t req a) = (goto (lock_view s) t Idle)\<lparr>l_namespaces := None\<rparr>"
    and "\<lbrakk>\<not> has_namespaces (t_job s t); has_version (t_job s t)\<rbrakk>
      \<Longrightarrow> lock_view (returns s t req a) = (goto (lock_view s) t Idle)\<lparr>l_version := None\<rparr>"
    and "\<lbrakk>has_namespaces (t_job s t); has_version (t_job s t)\<rbrakk>
      \<Longrightarrow> lock_view (returns s t req a) = (goto (lock_view s) t Idle)\<lparr>l_namespaces := None, l_version := None\<rparr>"
  using assms by (auto simp: lock_view_def returns_def guarded_def fun_eq_iff)

lemma lock_view_step:
  assumes "thread_step X good s t s'" and "guarded s"
  shows "lock_step (lock_view s) t (lock_view s') \<or> lock_view s' = lock_view s"
proof -
  have g: "guarded (s\<lparr>t_center := c\<rparr>)" for c using assms(2) by (simp add: guarded_def)
  note views = turns_view returns_view [OF assms(2)] returns_view [OF g]
  have stay: "l_pc l t = p \<Longrightarrow> goto l t p = l" for l p by (cases l) (auto simp: fun_eq_iff)
  from assms(1) show ?thesis
  proof cases
    case (th_refuse B ns level cb)
    then have "lock_view s' = lock_view s" by (simp add: views stay)
    then show ?thesis by blast
  next
    case (th_update_next B e ns h rest calls nc calls')
    then have "lock_view s' = lock_view s" by (simp add: views stay)
    then show ?thesis by blast
  qed (simp_all add: views lock_step.intros)
qed

lemma guarded_step: "\<lbrakk>thread_step X good s t s'; guarded s\<rbrakk> \<Longrightarrow> guarded s'"
  using lock_view_step locks_ok_step unfolding guarded_locks by metis

interpretation threads_locks: forward_simulation "thread_move X good" lock_move
  "\<lambda>l s. guarded s \<and> l = lock_view s"
proof
  fix s s' l assume "thread_move X good s s'" and l: "guarded s \<and> l = lock_view s"
  then obtain t where step: "thread_step X good s t s'" by (auto simp: thread_move_def)
  have "lock_move\<^sup>*\<^sup>* l (lock_view s')"
    using l lock_view_step [OF step] by (metis lock_move_def r_into_rtranclp rtranclp.rtrancl_refl)
  with guarded_step [OF step] l show "\<exists>l'. lock_move\<^sup>*\<^sup>* l l' \<and> guarded s' \<and> l' = lock_view s'" by blast
qed

lemma guarded_init: "guarded (threads_init cc)"
  by (simp add: guarded_def threads_init_def)

lemma lock_view_init: "lock_view (threads_init cc) = lock_init"
  by (simp add: lock_view_def threads_init_def lock_init_def)

lemma threads_lock_run:
  assumes "(thread_move X good)\<^sup>*\<^sup>* (threads_init cc) s"
  shows "lock_run lock_init (lock_view s) \<and> guarded s"
  using threads_locks.simulates [OF assms, of lock_init] guarded_init lock_moves_run
  by (auto simp: lock_view_init)

end
