(* ===== verification/Thread_Properties.thy ===== *)
theory Thread_Properties
  imports Center_Threads Center_Failures Lock_Properties
begin

text \<open>
  The center under threads implements the center of \<open>Cfg_Center\<close>, whose operations are single steps:
  what threads do and get, in the order in which their calls take effect, is what they would do and get
  one after the other. So the properties of \<open>Center_Runs\<close> hold with threads too.
\<close>

section \<open>What a thread knows\<close>

text \<open>What a thread that holds a mutex relies on: nobody else changes what the mutex protects.\<close>

primrec job_ok ::
  "('j, 'e) crates \<Rightarrow> (cfg_index storage_backend \<Rightarrow> bool) \<Rightarrow> cfg_center \<Rightarrow> job \<Rightarrow> bool" where
  "job_ok X good cc Waits = True"
| "job_ok X good cc (CreateAsks B ns level cb) \<longleftrightarrow> good B \<and> starts_with ns ''/'' \<and> ends_with ns ''/''"
| "job_ok X good cc (CreateLoads B ns level cb) \<longleftrightarrow> good B \<and> starts_with ns ''/'' \<and> ends_with ns ''/'' \<and>
     \<not> cc_version_poisoned cc"
| "job_ok X good cc (CreateLoaded B ns level cb m) \<longleftrightarrow> good B \<and> starts_with ns ''/'' \<and> ends_with ns ''/'' \<and>
     \<not> cc_version_poisoned cc \<and> mem_storage_new X B ns (cc_current_version cc) = Ok m"
| "job_ok X good cc (CreateInserts B ns level cb m) \<longleftrightarrow> good B \<and> starts_with ns ''/'' \<and> ends_with ns ''/'' \<and>
     \<not> cc_version_poisoned cc \<and> \<not> cc_namespaces_poisoned cc \<and> mem_storage_new X B ns (cc_current_version cc) = Ok m"
| "job_ok X good cc (UpdateAsks B e) \<longleftrightarrow> good B"
| "job_ok X good cc (UpdateHalf B e) \<longleftrightarrow> good B \<and> \<not> cc_namespaces_poisoned cc"
| "job_ok X good cc (UpdateLoops B e rest calls) \<longleftrightarrow> good B \<and> \<not> cc_namespaces_poisoned cc \<and> \<not> cc_version_poisoned cc"
| "job_ok X good cc (GetAsks ns) = True"
| "job_ok X good cc (GetReads ns) \<longleftrightarrow> \<not> cc_namespaces_poisoned cc"

definition jobs_ok :: "('j, 'e) crates \<Rightarrow> (cfg_index storage_backend \<Rightarrow> bool) \<Rightarrow> threads \<Rightarrow> bool" where
  "jobs_ok X good s \<longleftrightarrow> (\<forall>t. job_ok X good (t_center s) (t_job s t))"

text \<open>What a thread does to the center is invisible to those that do not share a mutex with it.\<close>

lemma job_ok_other:
  assumes "job_ok X good cc j" 
    and "has_version j \<Longrightarrow> cc_current_version cc' = cc_current_version cc \<and> (cc_version_poisoned cc' = cc_version_poisoned cc)"
    and "has_namespaces j \<Longrightarrow> cc_namespaces_poisoned cc' = cc_namespaces_poisoned cc"
  shows "job_ok X good cc' j"
  using assms by (cases j) auto

lemma thread_step_frame:
  assumes "thread_step X good s t s'"
  shows "(\<forall>u. u \<noteq> t \<longrightarrow> t_job s' u = t_job s u) \<and>
    (\<not> has_version (t_job s t) \<longrightarrow> cc_current_version (t_center s') = cc_current_version (t_center s) \<and>
       (cc_version_poisoned (t_center s') = cc_version_poisoned (t_center s))) \<and>
    (\<not> has_namespaces (t_job s t) \<longrightarrow>
       (cc_namespaces_poisoned (t_center s') = cc_namespaces_poisoned (t_center s)))"
  using assms by cases (auto simp: returns_def)

lemma job_ok_self:
  assumes "thread_step X good s t s'" and "job_ok X good (t_center s) (t_job s t)"
  shows "job_ok X good (t_center s') (t_job s' t)"
  using assms by cases (auto simp: returns_def)

lemma jobs_ok_step:
  assumes "thread_step X good s t s'" and "guarded s" and "jobs_ok X good s"
  shows "jobs_ok X good s'"
  unfolding jobs_ok_def
proof
  fix u
  note frame = thread_step_frame [OF assms(1)]
  show "job_ok X good (t_center s') (t_job s' u)"
  proof (cases "u = t")
    case True
    with job_ok_self [OF assms(1)] assms(3) show ?thesis by (simp add: jobs_ok_def)
  next
    case False
    have "\<not> has_version (t_job s t)" if "has_version (t_job s u)" using that assms(2) False by (simp add: guarded_def)
    moreover have "\<not> has_namespaces (t_job s t)" if "has_namespaces (t_job s u)"
      using that assms(2) False by (simp add: guarded_def)
    moreover have "job_ok X good (t_center s) (t_job s u)" using assms(3) by (simp add: jobs_ok_def)
    ultimately have "job_ok X good (t_center s') (t_job s u)" using frame job_ok_other by blast
    with frame False show ?thesis by simp
  qed
qed

section \<open>The loop of an update, halfway\<close>

lemma update_loop_append:
  "update_loop X B old new (xs @ ys) store =
    (case update_loop X B old new xs store of
       (st, calls, Returns) \<Rightarrow> (case update_loop X B old new ys st of (st', calls', r) \<Rightarrow> (st', calls @ calls', r))
     | (st, calls, r) \<Rightarrow> (st, calls, r))"
proof (induction xs arbitrary: store)
  case (Cons nh xs)
  obtain ns h where nh: "nh = (ns, h)" by (cases nh)
  obtain nc calls r where u: "update_namespace X B old new ns (store ! h) = (nc, calls, r)" by (metis prod_cases3)
  obtain st' calls' r' where l: "update_loop X B old new xs (store[h := nc]) = (st', calls', r')" by (metis prod_cases3)
  show ?case by (cases r; cases r') (simp_all add: nh u l Cons split: prod.split)
qed (simp split: prod.split)

text \<open>
  The center of the threads against the one of the calls that have taken effect: they differ only in
  the stores that a running update has already replaced.
\<close>

definition looping :: "job \<Rightarrow> bool" where
  "looping j \<longleftrightarrow> pc_of j = UpdateLooping"

lemma looping_simps [simp]:
  "\<not> looping Waits" "\<not> looping (CreateAsks B ns level cb)" "\<not> looping (CreateLoads B ns level cb)"
  "\<not> looping (CreateLoaded B ns level cb m)" "\<not> looping (CreateInserts B ns level cb m)"
  "\<not> looping (UpdateAsks B e)" "\<not> looping (UpdateHalf B e)" "looping (UpdateLoops B e rest calls)"
  "\<not> looping (GetAsks ns)" "\<not> looping (GetReads ns)"
  by (simp_all add: looping_def)

lemma looping_holds: "looping j \<Longrightarrow> has_version j \<and> has_namespaces j"
  by (cases j) simp_all

definition halfway ::
  "('j, 'e) crates \<Rightarrow> cfg_center \<Rightarrow> namespace_center list \<Rightarrow> cfg_index storage_backend \<Rightarrow> storage_change_event
    \<Rightarrow> (string \<times> handle) list \<Rightarrow> (handle \<times> differ) list \<Rightarrow> bool" where
  "halfway X cc st B e rest calls \<longleftrightarrow> (\<exists>ord don. hash_order (cc_namespaces cc) ord \<and> registered cc ord = don @ rest \<and>
     update_loop X B (cc_current_version cc) (ev_new_version e) don (cc_store cc) = (st, calls, Returns))"

definition takes_effect :: "('j, 'e) crates \<Rightarrow> cfg_center \<Rightarrow> threads \<Rightarrow> bool" where
  "takes_effect X cc s \<longleftrightarrow>
     t_center s = cc\<lparr>cc_store := cc_store (t_center s)\<rparr> \<and> finite (dom (cc_namespaces cc)) \<and>
     (\<forall>t B e rest calls. t_job s t = UpdateLoops B e rest calls \<longrightarrow> halfway X cc (cc_store (t_center s)) B e rest calls) \<and>
     ((\<forall>t. \<not> looping (t_job s t)) \<longrightarrow> t_center s = cc)"

lemma halfway_start:
  "hash_order (cc_namespaces cc) ord \<Longrightarrow> halfway X cc (cc_store cc) B e (registered cc ord) []"
  unfolding halfway_def by (intro exI [of _ ord] exI [of _ "[]"]) simp

lemma halfway_next:
  assumes "halfway X cc st B e ((ns, h) # rest) calls"
    and "update_namespace X B (cc_current_version cc) (ev_new_version e) ns (st ! h) = (nc, calls', Returns)"
  shows "halfway X cc (st[h := nc]) B e rest (calls @ map (Pair h) calls')"
proof -
  from assms(1) obtain ord don where "hash_order (cc_namespaces cc) ord" "registered cc ord = (don @ [(ns, h)]) @ rest"
    "update_loop X B (cc_current_version cc) (ev_new_version e) don (cc_store cc) = (st, calls, Returns)"
    by (auto simp: halfway_def)
  with assms(2) show ?thesis
    unfolding halfway_def
    by (intro exI [of _ ord] exI [of _ "don @ [(ns, h)]"]) (simp add: update_loop_append)
qed

lemma halfway_done:
  assumes "halfway X cc st B e [] calls" and "\<not> cc_namespaces_poisoned cc" and "\<not> cc_version_poisoned cc"
  shows "\<exists>ord. hash_order (cc_namespaces cc) ord \<and> center_update_callback X B ord cc e =
    (cc\<lparr>cc_store := st, cc_current_version := ev_new_version e\<rparr>, calls, Returns)"
  using assms by (auto simp: halfway_def center_update_callback_eq)

lemma halfway_panics:
  assumes "halfway X cc st B e ((ns, h) # rest) calls" and "\<not> cc_namespaces_poisoned cc" and "\<not> cc_version_poisoned cc"
    and "update_namespace X B (cc_current_version cc) (ev_new_version e) ns (st ! h) = (nc, calls', Unwinds)"
  shows "\<exists>ord. hash_order (cc_namespaces cc) ord \<and> center_update_callback X B ord cc e =
    (cc\<lparr>cc_store := st[h := nc], cc_namespaces_poisoned := True, cc_version_poisoned := True\<rparr>,
     calls @ map (Pair h) calls', Unwinds)"
proof -
  from assms(1) obtain ord don where ord: "hash_order (cc_namespaces cc) ord" "registered cc ord = don @ (ns, h) # rest"
    "update_loop X B (cc_current_version cc) (ev_new_version e) don (cc_store cc) = (st, calls, Returns)"
    by (auto simp: halfway_def)
  with assms(2-4) have "center_update_callback X B ord cc e =
      (cc\<lparr>cc_store := st[h := nc], cc_namespaces_poisoned := True, cc_version_poisoned := True\<rparr>,
       calls @ map (Pair h) calls', Unwinds)"
    by (simp add: center_update_callback_eq update_loop_append)
  with ord(1) show ?thesis by blast
qed


section \<open>Every step takes effect at once or not at all\<close>

definition matched ::
  "('j, 'e) crates \<Rightarrow> (cfg_index storage_backend \<Rightarrow> bool) \<Rightarrow> cfg_center \<Rightarrow> threads \<Rightarrow> threads \<Rightarrow> bool" where
  "matched X good cc s s' \<longleftrightarrow>
     (\<exists>cc'. (serial_step X good)\<^sup>*\<^sup>* (cc, t_log s) (cc', t_log s') \<and> takes_effect X cc' s')"

lemma effect_same:
  assumes "takes_effect X cc s" and "t_center s' = t_center s"
    and "\<And>u. t_job s' u = t_job s u \<or> (\<not> looping (t_job s u) \<and> \<not> looping (t_job s' u))"
  shows "takes_effect X cc s'"
proof -
  have "t_job s u = j" if "t_job s' u = j" "looping j" for u j using assms(3) [of u] that by auto
  moreover have "\<forall>u. \<not> looping (t_job s u)" if "\<forall>u. \<not> looping (t_job s' u)" using assms(3) that by metis
  ultimately show ?thesis
    using assms(1,2) unfolding takes_effect_def by (metis looping_simps(8))
qed

lemma effect_loops:
  assumes "t_center s' = cc\<lparr>cc_store := st\<rparr>" and "finite (dom (cc_namespaces cc))"
    and "t_job s' t = UpdateLoops B e rest calls" and "halfway X cc st B e rest calls"
    and "\<And>u. u \<noteq> t \<Longrightarrow> \<not> looping (t_job s' u)"
  shows "takes_effect X cc s'"
proof -
  have store: "cc_store (t_center s') = st" by (simp add: assms(1))
  have "halfway X cc st B' e' rest' calls'" if "t_job s' u = UpdateLoops B' e' rest' calls'" for u B' e' rest' calls'
  proof (cases "u = t")
    case True
    with that assms(3,4) show ?thesis by simp
  next
    case False
    with assms(5) [of u] that show ?thesis by simp
  qed
  moreover have "\<not> (\<forall>u. \<not> looping (t_job s' u))"
    using assms(3) by (metis looping_simps(8))
  ultimately show ?thesis
    unfolding takes_effect_def store using assms(1,2) by blast
qed

lemma matched_silent:
  assumes "takes_effect X cc s" and "t_center s' = t_center s" and "t_log s' = t_log s"
    and "\<And>u. u \<noteq> t \<Longrightarrow> t_job s' u = t_job s u" and "\<not> looping (t_job s t)" and "\<not> looping (t_job s' t)"
  shows "matched X good cc s s'"
proof -
  have "takes_effect X cc s'" by (rule effect_same [OF assms(1,2)]) (use assms(4-6) in metis)
  then show ?thesis unfolding matched_def using assms(3) by auto
qed

lemma matched_answer:
  assumes "takes_effect X cc s" and "serial_step X good (cc, t_log s) (cc, t_log s @ [(t, req, a)])"
    and "\<not> looping (t_job s t)"
  shows "matched X good cc s (returns s t req a)"
proof -
  have "takes_effect X cc (returns s t req a)"
    by (rule effect_same [OF assms(1)]) (use assms(3) in \<open>auto simp: returns_def\<close>)
  with assms(2) show ?thesis unfolding matched_def by (auto simp: returns_def)
qed

lemma matched_change:
  assumes "serial_step X good (cc, t_log s) (c, t_log s @ [(t, req, a)])" and "finite (dom (cc_namespaces c))"
    and "\<And>u. u \<noteq> t \<Longrightarrow> \<not> looping (t_job s u)"
  shows "matched X good cc s (returns (s\<lparr>t_center := c\<rparr>) t req a)"
proof -
  have "takes_effect X c (returns (s\<lparr>t_center := c\<rparr>) t req a)"
    using assms(2,3) by (auto simp: takes_effect_def returns_def dest: arg_cong [where f = looping])
  with assms(1) show ?thesis unfolding matched_def by (auto simp: returns_def)
qed

lemma loops_alone:
  assumes "guarded s" and "has_version (t_job s t) \<or> has_namespaces (t_job s t)" and "u \<noteq> t"
  shows "\<not> looping (t_job s u)"
  using assms looping_holds [of "t_job s u"] by (auto simp: guarded_def)

lemma no_loop:
  assumes "guarded s" and "t_version s = None \<or> t_namespaces s = None"
  shows "\<not> looping (t_job s u)"
proof
  assume "looping (t_job s u)"
  with assms(1) looping_holds have "t_version s = Some u" "t_namespaces s = Some u"
    unfolding guarded_def by blast+
  with assms(2) show False by simp
qed

lemma effect_center:
  "takes_effect X cc s \<Longrightarrow> cc_current_version cc = cc_current_version (t_center s) \<and>
    (cc_version_poisoned cc = cc_version_poisoned (t_center s)) \<and>
    (cc_namespaces_poisoned cc = cc_namespaces_poisoned (t_center s)) \<and> cc_namespaces cc = cc_namespaces (t_center s) \<and>
    finite (dom (cc_namespaces cc))"
  by (cases "t_center s"; cases cc) (simp add: takes_effect_def)

lemma effect_calm: "\<lbrakk>takes_effect X cc s; \<And>u. \<not> looping (t_job s u)\<rbrakk> \<Longrightarrow> t_center s = cc"
  by (simp add: takes_effect_def)

text \<open>The calls that leave the center as it is: refusals, poisoned mutexes, failed loads and lookups.\<close>

lemma serial_refusals:
  "\<lbrakk>good B; \<not> (starts_with ns ''/'' \<and> ends_with ns ''/'')\<rbrakk> \<Longrightarrow> serial_step X good (cc, l) (cc, l @ [(t, AskCreate B ns level cb,
     GivesHandle (Err (NamespaceError ''namespace must starts and end with `/`'')))])"
  "\<lbrakk>good B; starts_with ns ''/''; ends_with ns ''/''; cc_version_poisoned cc\<rbrakk> \<Longrightarrow> serial_step X good (cc, l)
     (cc, l @ [(t, AskCreate B ns level cb, GivesHandle (Err (NamespaceError ''get internal lock error'')))])"
  "\<lbrakk>good B; starts_with ns ''/''; ends_with ns ''/''; \<not> cc_version_poisoned cc;
     mem_storage_new X B ns (cc_current_version cc) = Err e\<rbrakk> \<Longrightarrow> serial_step X good (cc, l)
     (cc, l @ [(t, AskCreate B ns level cb, GivesHandle (Err (CCIndexError e)))])"
  "\<lbrakk>good B; starts_with ns ''/''; ends_with ns ''/''; \<not> cc_version_poisoned cc; cc_namespaces_poisoned cc;
     mem_storage_new X B ns (cc_current_version cc) = Ok m\<rbrakk> \<Longrightarrow> serial_step X good (cc, l)
     (cc, l @ [(t, AskCreate B ns level cb, GivesHandle (Err (NamespaceError ''get lock error'')))])"
  by (rule serial_create; auto simp: create_namespace_scoped_cfg_center_def)+

lemma serial_changes:
  "\<lbrakk>good B; starts_with ns ''/''; ends_with ns ''/''; \<not> cc_version_poisoned cc;
     mem_storage_new X B ns (cc_current_version cc) = Panic\<rbrakk> \<Longrightarrow> serial_step X good (cc, l)
     (cc\<lparr>cc_version_poisoned := True\<rparr>, l @ [(t, AskCreate B ns level cb, GivesHandle Panic)])"
  "\<lbrakk>good B; starts_with ns ''/''; ends_with ns ''/''; \<not> cc_version_poisoned cc; \<not> cc_namespaces_poisoned cc;
     mem_storage_new X B ns (cc_current_version cc) = Ok m; v = length (cc_store cc)\<rbrakk> \<Longrightarrow> serial_step X good (cc, l)
     (cc\<lparr>cc_store := cc_store cc @ [namespace_center_new ns m level cb], cc_namespaces := (cc_namespaces cc)(ns \<mapsto> v)\<rparr>,
      l @ [(t, AskCreate B ns level cb, GivesHandle (Ok v))])"
  by (rule serial_create; simp add: create_namespace_scoped_cfg_center_def Let_def)+

lemma serial_idle_update:
  assumes "good B" and "cc_namespaces_poisoned cc \<or> cc_version_poisoned cc" and "finite (dom (cc_namespaces cc))"
  shows "serial_step X good (cc, l) (cc, l @ [(t, AskUpdate B e, Updated [] Returns)])"
proof -
  obtain ord where "set ord = dom (cc_namespaces cc)" "distinct ord"
    using finite_distinct_list [OF assms(3)] by blast
  then have "hash_order (cc_namespaces cc) ord" by (simp add: hash_order_def)
  from assms(1) this show ?thesis
    by (rule serial_update) (use assms(2) in \<open>simp_all add: center_update_callback_def\<close>)
qed

lemma serial_lookups:
  "cc_namespaces_poisoned cc \<Longrightarrow> serial_step X good (cc, l)
     (cc, l @ [(t, AskGet ns, GivesHandle (Err (NamespaceError ''get lock error'')))])"
  "\<not> cc_namespaces_poisoned cc \<Longrightarrow> serial_step X good (cc, l) (cc, l @ [(t, AskGet ns, GivesHandle
     (case cc_namespaces cc ns of Some h \<Rightarrow> Ok h | None \<Rightarrow> Err (NamespaceError ''no namespace found'')))])"
  by (rule serial_get; simp add: get_namespace_scoped_cfg_center_def)+

text \<open>The end of an update, and its panic.\<close>

lemma matched_update_ends:
  assumes "guarded s" and "takes_effect X cc s" and "jobs_ok X good s" and "t_job s t = UpdateLoops B e rest calls"
    and "hash_order (cc_namespaces cc) ord" and "center_update_callback X B ord cc e = (c, calls', r)" and "r \<noteq> Blocks"
  shows "matched X good cc s (returns (s\<lparr>t_center := c\<rparr>) t (AskUpdate B e) (Updated calls' r))"
proof (rule matched_change)
  have "good B" using assms(3,4) unfolding jobs_ok_def by (metis job_ok.simps(8))
  then show "serial_step X good (cc, t_log s) (c, t_log s @ [(t, AskUpdate B e, Updated calls' r)])"
    by (rule serial_update) (fact assms(5-7))+
  show "finite (dom (cc_namespaces c))"
    using assms(2,6) update_names [of X B ord cc e] by (simp add: takes_effect_def)
  show "\<not> looping (t_job s u)" if "u \<noteq> t" for u by (rule loops_alone [OF assms(1) _ that]) (simp add: assms(4))
qed


text \<open>The steps that change the center, one by one.\<close>

lemma matched_create_panics:
  assumes "guarded s" and "jobs_ok X good s" and "takes_effect X cc s" and job: "t_job s t = CreateLoads B ns level cb"
    and "mem_storage_new X B ns (cc_current_version (t_center s)) = Panic"
  shows "matched X good cc s (returns (s\<lparr>t_center := (t_center s)\<lparr>cc_version_poisoned := True\<rparr>\<rparr>) t
    (AskCreate B ns level cb) (GivesHandle Panic))"
proof -
  have others: "\<not> looping (t_job s u)" if "u \<noteq> t" for u by (rule loops_alone [OF assms(1) _ that]) (simp add: job)
  have cc: "t_center s = cc" by (rule effect_calm [OF assms(3)]) (metis others job looping_simps(3))
  have "job_ok X good (t_center s) (t_job s t)" using assms(2) by (simp add: jobs_ok_def)
  with assms(5) cc job have "serial_step X good (cc, t_log s) (cc\<lparr>cc_version_poisoned := True\<rparr>,
      t_log s @ [(t, AskCreate B ns level cb, GivesHandle Panic)])"
    by (intro serial_changes) auto
  from matched_change [OF this _ others] effect_center [OF assms(3)] show ?thesis unfolding cc by simp
qed

lemma matched_create_inserts:
  assumes "guarded s" and "jobs_ok X good s" and "takes_effect X cc s" and job: "t_job s t = CreateInserts B ns level cb m"
    and "v = length (cc_store (t_center s))"
  shows "matched X good cc s (returns (s\<lparr>t_center := (t_center s)
      \<lparr>cc_store := cc_store (t_center s) @ [namespace_center_new ns m level cb],
       cc_namespaces := (cc_namespaces (t_center s))(ns \<mapsto> v)\<rparr>\<rparr>) t
    (AskCreate B ns level cb) (GivesHandle (Ok v)))"
proof -
  have others: "\<not> looping (t_job s u)" if "u \<noteq> t" for u by (rule loops_alone [OF assms(1) _ that]) (simp add: job)
  have cc: "t_center s = cc" by (rule effect_calm [OF assms(3)]) (metis others job looping_simps(5))
  have "job_ok X good (t_center s) (t_job s t)" using assms(2) by (simp add: jobs_ok_def)
  with assms(5) cc job have "serial_step X good (cc, t_log s)
      (cc\<lparr>cc_store := cc_store cc @ [namespace_center_new ns m level cb], cc_namespaces := (cc_namespaces cc)(ns \<mapsto> v)\<rparr>,
       t_log s @ [(t, AskCreate B ns level cb, GivesHandle (Ok v))])"
    by (intro serial_changes) auto
  from matched_change [OF this _ others] effect_center [OF assms(3)] show ?thesis unfolding cc by simp
qed

lemma matched_loop_starts:
  assumes "guarded s" and "takes_effect X cc s" and "t_version s = None" and "hash_order (cc_namespaces (t_center s)) ord"
  shows "matched X good cc s
    ((turns s t (UpdateLoops B e (registered (t_center s) ord) []))\<lparr>t_version := Some t\<rparr>)"
proof -
  have quiet: "\<not> looping (t_job s u)" for u using no_loop [OF assms(1)] assms(3) by blast
  have cc: "t_center s = cc" by (rule effect_calm [OF assms(2) quiet])
  let ?s' = "(turns s t (UpdateLoops B e (registered cc ord) []))\<lparr>t_version := Some t\<rparr>"
  have "takes_effect X cc ?s'"
  proof (rule effect_loops)
    show "halfway X cc (cc_store cc) B e (registered cc ord) []"
      by (rule halfway_start) (use assms(4) cc in simp)
  qed (use effect_center [OF assms(2)] quiet cc in simp_all)
  then show ?thesis unfolding matched_def cc by auto
qed

lemma effect_halfway:
  "\<lbrakk>takes_effect X cc s; t_job s t = UpdateLoops B e rest calls\<rbrakk> \<Longrightarrow> halfway X cc (cc_store (t_center s)) B e rest calls"
  by (simp add: takes_effect_def)

lemma effect_record:
  "takes_effect X cc s \<Longrightarrow> t_center s = cc\<lparr>cc_store := cc_store (t_center s)\<rparr>"
  by (simp add: takes_effect_def)

lemma matched_loop_next:
  assumes "guarded s" and "takes_effect X cc s" and job: "t_job s t = UpdateLoops B e ((ns, h) # rest) calls"
    and "update_namespace X B (cc_current_version (t_center s)) (ev_new_version e) ns (cc_store (t_center s) ! h) =
      (nc, calls', Returns)"
  shows "matched X good cc s ((turns s t (UpdateLoops B e rest (calls @ map (Pair h) calls')))
    \<lparr>t_center := (t_center s)\<lparr>cc_store := (cc_store (t_center s))[h := nc]\<rparr>\<rparr>)" (is "matched X good cc s ?s'")
proof -
  note same = effect_center [OF assms(2)]
  have others: "\<not> looping (t_job s u)" if "u \<noteq> t" for u by (rule loops_alone [OF assms(1) _ that]) (simp add: job)
  have "takes_effect X cc ?s'"
  proof (rule effect_loops)
    show "t_center ?s' = cc\<lparr>cc_store := (cc_store (t_center s))[h := nc]\<rparr>"
      using effect_record [OF assms(2)] by (cases "t_center s"; cases cc) simp
    show "halfway X cc ((cc_store (t_center s))[h := nc]) B e rest (calls @ map (Pair h) calls')"
      by (rule halfway_next [OF effect_halfway [OF assms(2) job]]) (use assms(4) same in simp)
  qed (use conjunct2 [OF conjunct2 [OF conjunct2 [OF conjunct2 [OF same]]]] others in simp_all)
  then show ?thesis unfolding matched_def by auto
qed

lemma matched_loop_panics:
  assumes "guarded s" and "jobs_ok X good s" and "takes_effect X cc s"
    and job: "t_job s t = UpdateLoops B e ((ns, h) # rest) calls"
    and "update_namespace X B (cc_current_version (t_center s)) (ev_new_version e) ns (cc_store (t_center s) ! h) =
      (nc, calls', Unwinds)"
  shows "matched X good cc s (returns (s\<lparr>t_center := (t_center s)\<lparr>cc_store := (cc_store (t_center s))[h := nc],
      cc_namespaces_poisoned := True, cc_version_poisoned := True\<rparr>\<rparr>) t
    (AskUpdate B e) (Updated (calls @ map (Pair h) calls') Unwinds))"
proof -
  have "job_ok X good (t_center s) (t_job s t)" using assms(2) by (simp add: jobs_ok_def)
  with halfway_panics [OF effect_halfway [OF assms(3) job]] assms(5) job effect_center [OF assms(3)]
  obtain ord where "hash_order (cc_namespaces cc) ord" "center_update_callback X B ord cc e =
      (cc\<lparr>cc_store := (cc_store (t_center s))[h := nc], cc_namespaces_poisoned := True, cc_version_poisoned := True\<rparr>,
       calls @ map (Pair h) calls', Unwinds)" by auto
  from matched_update_ends [OF assms(1,3,2) job this] effect_record [OF assms(3)]
  show ?thesis by (cases "t_center s"; cases cc) simp
qed

lemma matched_loop_done:
  assumes "guarded s" and "jobs_ok X good s" and "takes_effect X cc s" and job: "t_job s t = UpdateLoops B e [] calls"
  shows "matched X good cc s (returns (s\<lparr>t_center := (t_center s)\<lparr>cc_current_version := ev_new_version e\<rparr>\<rparr>) t
    (AskUpdate B e) (Updated calls Returns))"
proof -
  have "job_ok X good (t_center s) (t_job s t)" using assms(2) by (simp add: jobs_ok_def)
  with halfway_done [OF effect_halfway [OF assms(3) job]] job effect_center [OF assms(3)]
  obtain ord where "hash_order (cc_namespaces cc) ord" "center_update_callback X B ord cc e =
      (cc\<lparr>cc_store := cc_store (t_center s), cc_current_version := ev_new_version e\<rparr>, calls, Returns)" by auto
  from matched_update_ends [OF assms(1,3,2) job this] effect_record [OF assms(3)]
  show ?thesis by (cases "t_center s"; cases cc) simp
qed

lemma matched_step:
  assumes "thread_step X good s t s'" and "guarded s" and "jobs_ok X good s" and "takes_effect X cc s"
  shows "matched X good cc s s'"
proof -
  have job: "job_ok X good (t_center s) (t_job s t)" using assms(3) by (simp add: jobs_ok_def)
  note same = effect_center [OF assms(4)]
  note answer = matched_answer [OF assms(4)]
  from assms(1) show ?thesis
  proof cases
    case (th_refuse B ns level cb)
    then show ?thesis by (auto intro!: answer serial_refusals)
  next
    case (th_create_version_poisoned B ns level cb)
    with job same show ?thesis by (auto intro!: answer serial_refusals)
  next
    case (th_create_fails B ns level cb e)
    with job same show ?thesis by (auto intro!: answer serial_refusals)
  next
    case (th_create_namespaces_poisoned B ns level cb m)
    with job same show ?thesis by (auto intro!: answer serial_refusals)
  next
    case (th_update_namespaces_poisoned B e)
    with job same show ?thesis by (auto intro!: answer serial_idle_update)
  next
    case (th_update_version_poisoned B e)
    with job same show ?thesis by (auto intro!: answer serial_idle_update)
  next
    case (th_get_namespaces_poisoned ns)
    with same show ?thesis by (auto intro!: answer serial_lookups)
  next
    case (th_get_reads ns)
    with job same serial_lookups(2) [of cc X good "t_log s" t ns] answer [of good t "AskGet ns"] show ?thesis by simp
  qed (simp_all add: assms(2-4) matched_create_panics matched_create_inserts matched_loop_starts matched_loop_next
      matched_loop_panics matched_loop_done matched_silent [OF assms(4), where t = t])
qed

definition implements ::
  "('j, 'e) crates \<Rightarrow> (cfg_index storage_backend \<Rightarrow> bool) \<Rightarrow> cfg_center \<times> call_log \<Rightarrow> threads \<Rightarrow> bool" where
  "implements X good a s \<longleftrightarrow> snd a = t_log s \<and> guarded s \<and> jobs_ok X good s \<and> takes_effect X (fst a) s"

interpretation threads_serial: forward_simulation "thread_move X good" "serial_step X good" "implements X good"
proof
  fix s s' a assume "thread_move X good s s'" and sim: "implements X good a s"
  then obtain t where step: "thread_step X good s t s'" by (auto simp: thread_move_def)
  from sim have s: "guarded s" "jobs_ok X good s" "takes_effect X (fst a) s" "a = (fst a, t_log s)"
    by (auto simp: implements_def prod_eq_iff)
  from matched_step [OF step s(1-3)] obtain cc' where "(serial_step X good)\<^sup>*\<^sup>* a (cc', t_log s')" "takes_effect X cc' s'"
    using s(4) by (auto simp: matched_def)
  with guarded_step [OF step s(1)] jobs_ok_step [OF step s(1,2)]
  show "\<exists>a'. (serial_step X good)\<^sup>*\<^sup>* a a' \<and> implements X good a' s'" by (force simp: implements_def)
qed

lemma implements_init: "finite (dom (cc_namespaces cc)) \<Longrightarrow> implements X good (cc, []) (threads_init cc)"
  by (simp add: implements_def guarded_init jobs_ok_def takes_effect_def) (simp add: threads_init_def)

lemma threads_serialized:
  assumes "cfg_center_new B = Ok cc" and "(thread_move X good)\<^sup>*\<^sup>* (threads_init cc) s"
  obtains cc' where "(serial_step X good)\<^sup>*\<^sup>* (cc, []) (cc', t_log s)" and "implements X good (cc', t_log s) s"
proof -
  from assms(1) have "finite (dom (cc_namespaces cc))" by (auto simp: cfg_center_new_def)
  from threads_serial.simulates [OF assms(2) implements_init [OF this]]
  obtain a' where "(serial_step X good)\<^sup>*\<^sup>* (cc, []) a'" "implements X good a' s" by blast
  moreover from this have "a' = (fst a', t_log s)" by (auto simp: implements_def prod_eq_iff)
  ultimately show ?thesis using that by metis
qed

text \<open>A store that an update has not reached is the old one; one that it has reached is the new one.\<close>

lemma update_loop_old_or_new:
  "\<lbrakk>update_loop X B old new nhs store = (st, calls, Returns); distinct (map snd nhs);
      \<forall>(ns, h)\<in>set nhs. h < length store\<rbrakk>
    \<Longrightarrow> st ! h = store ! h \<or> (\<exists>ns. st ! h = fst (update_namespace X B old new ns (store ! h)))"
proof (induction X B old new nhs store arbitrary: st calls rule: update_loop.induct)
  case (2 X B old new ns k rest store)
  obtain nc cs r where u: "update_namespace X B old new ns (store ! k) = (nc, cs, r)" by (metis prod_cases3)
  with "2.prems"(1) have r: "r = Returns" by (cases r) auto
  with u "2.prems"(1) obtain cs' where l: "update_loop X B old new rest (store[k := nc]) = (st, cs', Returns)"
    by (auto split: prod.splits)
  have IH: "st ! h = store[k := nc] ! h \<or> (\<exists>ns. st ! h = fst (update_namespace X B old new ns (store[k := nc] ! h)))"
    by (rule "2.IH" [OF u [symmetric] refl r l]) (use "2.prems"(2,3) in auto)
  show ?case
  proof (cases "h = k")
    case True
    with "2.prems"(2,3) have "st ! h = nc"
      using update_loop_others [of h rest X B old new "store[k := nc]"] l by auto
    with u True have "st ! h = fst (update_namespace X B old new ns (store ! h))" by simp
    then show ?thesis by blast
  qed (use IH in simp)
qed simp

lemma halfway_ok:
  assumes "nom (c_nom X)" and "walking B" and "cc_ok cc" and "halfway X cc st B e rest calls"
  shows "length st = length (cc_store cc)" and "\<forall>nc\<in>set st. nc_ok nc"
    and "st ! h = cc_store cc ! h \<or> (\<exists>ns. st ! h =
      fst (update_namespace X B (cc_current_version cc) (ev_new_version e) ns (cc_store cc ! h)))"
proof -
  from assms(4) obtain ord don where ord: "hash_order (cc_namespaces cc) ord" "registered cc ord = don @ rest"
    and l: "update_loop X B (cc_current_version cc) (ev_new_version e) don (cc_store cc) = (st, calls, Returns)"
    by (auto simp: halfway_def)
  from registered_handles [OF assms(3) ord(1)] ord(2)
  have hs: "distinct (map snd don)" "\<forall>(ns, h)\<in>set don. h < length (cc_store cc)" by auto
  show "length st = length (cc_store cc)"
    using update_loop_frame [of X B _ _ don "cc_store cc"] l by (metis fst_conv)
  show "\<forall>nc\<in>set st. nc_ok nc"
    using update_loop_ok [OF assms(2,1) _ hs(2)] assms(3) l unfolding cc_ok_def by (metis fst_conv)
  show "st ! h = cc_store cc ! h \<or> (\<exists>ns. st ! h =
      fst (update_namespace X B (cc_current_version cc) (ev_new_version e) ns (cc_store cc ! h)))"
    by (rule update_loop_old_or_new [OF l hs])
qed


section \<open>Runs of threads\<close>

lemma threads_move:
  "\<lbrakk>(thread_move X good)\<^sup>*\<^sup>* s s'; thread_step X good s' t s''\<rbrakk> \<Longrightarrow> (thread_move X good)\<^sup>*\<^sup>* s s''"
  by (rule rtranclp.rtrancl_into_rtrancl) (auto simp: thread_move_def)

text \<open>A thread that has loaded a namespace and comes to the second lock.\<close>

definition loaded_threads ::
  "cfg_center \<Rightarrow> thread \<Rightarrow> cfg_index storage_backend \<Rightarrow> string \<Rightarrow> update_notify_level \<Rightarrow> callback option \<Rightarrow> mem_storage
    \<Rightarrow> threads" where
  "loaded_threads cc t B ns level cb m = \<lparr>t_center = cc, t_namespaces = None, t_version = Some t,
     t_job = (\<lambda>_. Waits)(t := CreateLoaded B ns level cb m), t_log = []\<rparr>"

lemma loads_run:
  assumes "good B" and "starts_with ns ''/''" and "ends_with ns ''/''" and "\<not> cc_version_poisoned cc"
    and "mem_storage_new X B ns (cc_current_version cc) = Ok m"
  shows "(thread_move X good)\<^sup>*\<^sup>* (threads_init cc) (loaded_threads cc t B ns level cb m)"
proof -
  let ?s1 = "turns (threads_init cc) t (CreateAsks B ns level cb)"
  let ?s2 = "(turns ?s1 t (CreateLoads B ns level cb))\<lparr>t_version := Some t\<rparr>"
  let ?s3 = "turns ?s2 t (CreateLoaded B ns level cb m)"
  have "thread_step X good (threads_init cc) t ?s1" by (rule th_create) (use assms in \<open>simp_all add: threads_init_def\<close>)
  moreover have "thread_step X good ?s1 t ?s2"
    by (rule th_create_version) (use assms in \<open>simp_all add: threads_init_def\<close>)
  moreover have "thread_step X good ?s2 t ?s3"
    by (rule th_create_loaded) (use assms in \<open>simp_all add: threads_init_def\<close>)
  moreover have "?s3 = loaded_threads cc t B ns level cb m"
    by (simp add: threads_init_def loaded_threads_def)
  ultimately show ?thesis by (metis threads_move rtranclp.rtrancl_refl)
qed

lemma inserts_run:
  assumes "\<not> cc_namespaces_poisoned cc" and "v = length (cc_store cc)"
  shows "\<exists>s. (thread_move X good)\<^sup>*\<^sup>* (loaded_threads cc t B ns level cb m) s \<and>
    t_center s = cc\<lparr>cc_store := cc_store cc @ [namespace_center_new ns m level cb],
      cc_namespaces := (cc_namespaces cc)(ns \<mapsto> v)\<rparr> \<and> t_job s = (\<lambda>_. Waits) \<and>
    t_log s = [(t, AskCreate B ns level cb, GivesHandle (Ok v))]"
proof -
  let ?s0 = "loaded_threads cc t B ns level cb m"
  let ?s1 = "(turns ?s0 t (CreateInserts B ns level cb m))\<lparr>t_namespaces := Some t\<rparr>"
  let ?c = "cc\<lparr>cc_store := cc_store cc @ [namespace_center_new ns m level cb], cc_namespaces := (cc_namespaces cc)(ns \<mapsto> v)\<rparr>"
  let ?s2 = "returns (?s1\<lparr>t_center := ?c\<rparr>) t (AskCreate B ns level cb) (GivesHandle (Ok v))"
  have "thread_step X good ?s0 t ?s1"
    by (rule th_create_namespaces) (use assms in \<open>simp_all add: loaded_threads_def\<close>)
  moreover have "thread_step X good ?s1 t ?s2"
    using th_create_inserts [of ?s1 t B ns level cb m v X good] assms(2) by (simp add: loaded_threads_def)
  ultimately have "(thread_move X good)\<^sup>*\<^sup>* ?s0 ?s2" by (metis threads_move rtranclp.rtrancl_refl)
  then show ?thesis by (intro exI [of _ ?s2]) (auto simp: returns_def loaded_threads_def)
qed

lemma frozen_step:
  assumes "thread_step X good s v s'" and "guarded s" and "deadlocked t u (lock_view s)"
  shows "t_center s' = t_center s"
proof -
  have "v = t" if "has_version (t_job s v)" using that assms(2,3) by (simp add: guarded_def deadlocked_def)
  then have "pc_of (t_job s v) = CreateLocking" if "has_version (t_job s v)"
    using that assms(3) by (simp add: deadlocked_def)
  with assms(1) show ?thesis by cases (auto simp: returns_def)
qed

lemma deadlocked_threads:
  assumes "(thread_move X good)\<^sup>*\<^sup>* s s'" and "guarded s" and "deadlocked t u (lock_view s)"
  shows "guarded s' \<and> deadlocked t u (lock_view s') \<and> t_center s' = t_center s"
  using assms(1)
proof (induction rule: rtranclp_induct)
  case (step s' s'')
  then obtain v where v: "thread_step X good s' v s''" by (auto simp: thread_move_def)
  have "deadlocked t u (lock_view s'')"
    using lock_view_step [OF v] deadlocked_step [of "lock_view s'" v "lock_view s''" t u] step.IH
    by (auto simp: guarded_locks)
  with frozen_step [OF v] guarded_step [OF v] step.IH show ?case by metis
qed (use assms in simp)

lemma deadlock_run:
  assumes "good B" and "\<not> cc_namespaces_poisoned cc" and "t \<noteq> u"
  shows "\<exists>s. (thread_move X good)\<^sup>*\<^sup>* (loaded_threads cc t B ns level cb m) s \<and> deadlocked t u (lock_view s) \<and> t_center s = cc"
proof -
  let ?s0 = "loaded_threads cc t B ns level cb m"
  let ?s1 = "turns ?s0 u (UpdateAsks B e)"
  let ?s2 = "(turns ?s1 u (UpdateHalf B e))\<lparr>t_namespaces := Some u\<rparr>"
  have "thread_step X good ?s0 u ?s1"
    by (rule th_update) (use assms in \<open>simp_all add: loaded_threads_def\<close>)
  moreover have "thread_step X good ?s1 u ?s2"
    by (rule th_update_namespaces) (use assms in \<open>simp_all add: loaded_threads_def\<close>)
  ultimately have "(thread_move X good)\<^sup>*\<^sup>* ?s0 ?s2" by (metis threads_move rtranclp.rtrancl_refl)
  then show ?thesis
    by (intro exI [of _ ?s2]) (use assms(3) in \<open>auto simp: loaded_threads_def deadlocked_def lock_view_def\<close>)
qed

section \<open>Properties\<close>

text \<open>C9. Threads are linearizable. After any interleaving of creations, updates and lookups, the calls that
  have returned, with their results and in the order in which they returned, are calls made one after the
  other; when no update is in its loop the center is the one that they leave, and inside a loop it
  differs from it only in stores of the namespaces.\<close>

theorem threads_linearize:
  assumes "cfg_center_new B = Ok cc" and "(thread_move X good)\<^sup>*\<^sup>* (threads_init cc) s"
  shows "\<exists>cc'. (serial_step X good)\<^sup>*\<^sup>* (cc, []) (cc', t_log s) \<and>
    t_center s = cc'\<lparr>cc_store := cc_store (t_center s)\<rparr> \<and>
    ((\<forall>t. \<not> looping (t_job s t)) \<longrightarrow> t_center s = cc')"
proof -
  from threads_serialized [OF assms] obtain cc' where "(serial_step X good)\<^sup>*\<^sup>* (cc, []) (cc', t_log s)"
    "takes_effect X cc' s"
    by (metis fst_conv implements_def)
  then show ?thesis by (auto simp: takes_effect_def)
qed

lemma root_threads:
  "\<exists>s. (thread_move deploy_crates walking)\<^sup>*\<^sup>* (threads_init first_center) s \<and> t_center s = root_center level cb \<and>
    t_job s = (\<lambda>_. Waits) \<and> t_log s = [(0, AskCreate (deploy ''v1'') ''/'' level cb, GivesHandle (Ok 0))]"
proof -
  have "(thread_move deploy_crates walking)\<^sup>*\<^sup>* (threads_init first_center) (loaded_threads first_center 0 (deploy ''v1'') ''/'' level cb
      \<lparr>ms_version = sample_version, ms_indices = sample_index\<rparr>)"
    by (rule loads_run) (simp_all add: deploy_walking starts_with_def ends_with_def first_center_def deploy_loads)
  moreover obtain s where "(thread_move deploy_crates walking)\<^sup>*\<^sup>* (loaded_threads first_center 0 (deploy ''v1'') ''/'' level cb
      \<lparr>ms_version = sample_version, ms_indices = sample_index\<rparr>) s" "t_center s = root_center level cb"
    "t_job s = (\<lambda>_. Waits)" "t_log s = [(0, AskCreate (deploy ''v1'') ''/'' level cb, GivesHandle (Ok 0))]"
    using inserts_run [of first_center 0] by (force simp: first_center_def root_center_def)
  ultimately show ?thesis by (meson rtranclp_trans)
qed

theorem threads_linearize_witness:
  "(serial_step deploy_crates walking)\<^sup>*\<^sup>* (first_center, [])
     (root_center NoNotify None, [(0, AskCreate (deploy ''v1'') ''/'' NoNotify None, GivesHandle (Ok 0))])"
proof -
  obtain s where s: "(thread_move deploy_crates walking)\<^sup>*\<^sup>* (threads_init first_center) s"
    "t_center s = root_center NoNotify None" "t_job s = (\<lambda>_. Waits)"
    "t_log s = [(0, AskCreate (deploy ''v1'') ''/'' NoNotify None, GivesHandle (Ok 0))]"
    using root_threads by blast
  from threads_linearize [OF first_center s(1)] show ?thesis by (auto simp: s(2-4))
qed

text \<open>C10. In every interleaved state, also while a creation loads or an update is in its loop, every namespace
  center ever handed out answers every query, and its store is either the one that the calls so far have
  left or the one that the running update gives it, never a mixture.\<close>

theorem threads_serve:
  assumes "nom (c_nom X)" and "cfg_center_new B = Ok cc" and "(thread_move X walking)\<^sup>*\<^sup>* (threads_init cc) s"
  shows "\<exists>cc'. (serial_step X walking)\<^sup>*\<^sup>* (cc, []) (cc', t_log s) \<and> length (cc_store (t_center s)) = length (cc_store cc') \<and>
    (\<forall>h < length (cc_store cc').
      (cc_store (t_center s) ! h = cc_store cc' ! h \<or> (\<exists>t B e rest calls ns.
         t_job s t = UpdateLoops B e rest calls \<and> cc_store (t_center s) ! h =
         fst (update_namespace X B (cc_current_version cc') (ev_new_version e) ns (cc_store cc' ! h)))) \<and>
      (\<forall>sorter ord whoami keys view need. \<exists>out.
         get_cfg sorter ord (cc_store (t_center s) ! h) whoami keys view need = Ok out))"
proof -
  let ?st = "cc_store (t_center s)"
  from threads_serialized [OF assms(2,3)] obtain cc' where run: "(serial_step X walking)\<^sup>*\<^sup>* (cc, []) (cc', t_log s)"
    and eff: "takes_effect X cc' s" and jobs: "jobs_ok X walking s"
    by (metis fst_conv implements_def)
  have ok: "cc_ok cc'"
    using center_run_ok [OF _ assms(1) cfg_center_new_ok [OF assms(2)]] serial_center_run [OF run] by simp
  have st: "length ?st = length (cc_store cc') \<and> (\<forall>nc\<in>set ?st. nc_ok nc) \<and> (\<forall>h. ?st ! h = cc_store cc' ! h \<or>
      (\<exists>t B e rest calls ns. t_job s t = UpdateLoops B e rest calls \<and>
         ?st ! h = fst (update_namespace X B (cc_current_version cc') (ev_new_version e) ns (cc_store cc' ! h))))"
  proof (cases "\<exists>t. looping (t_job s t)")
    case True
    then obtain t B e rest calls where job: "t_job s t = UpdateLoops B e rest calls"
      by (metis looping_simps job.exhaust)
    have B: "walking B" using jobs unfolding jobs_ok_def by (metis job job_ok.simps(8))
    have "halfway X cc' ?st B e rest calls" using eff job by (simp add: takes_effect_def)
    note half = halfway_ok [OF assms(1) B ok this]
    have "?st ! h = cc_store cc' ! h \<or> (\<exists>t B e rest calls ns. t_job s t = UpdateLoops B e rest calls \<and>
        ?st ! h = fst (update_namespace X B (cc_current_version cc') (ev_new_version e) ns (cc_store cc' ! h)))" for h
      using half(3) [of h] job by blast
    with half(1,2) show ?thesis by blast
  next
    case False
    with eff have "t_center s = cc'" by (simp add: takes_effect_def)
    with ok show ?thesis by (auto simp: cc_ok_def)
  qed
  have "\<exists>out. get_cfg sorter ord nc whoami keys view need = Ok out" if "nc \<in> set ?st" for sorter ord nc whoami keys view need
    using that st by (simp add: nc_ok_def get_cfg_def querier_get_eq)
  with run st show ?thesis by (intro exI [of _ cc']) (metis nth_mem)
qed

theorem threads_serve_witness:
  "\<exists>s out. (thread_move deploy_crates walking)\<^sup>*\<^sup>* (threads_init first_center) s \<and>
     get_cfg insertion_sort_by [''r''] (cc_store (t_center s) ! 0) mac_user [''k''] OverlaidView False = Ok out"
proof -
  obtain s where s: "(thread_move deploy_crates walking)\<^sup>*\<^sup>* (threads_init first_center) s"
    "t_center s = root_center NoNotify None" using root_threads by blast
  have "nom (c_nom deploy_crates)" by (simp add: ref_nom.nom_axioms)
  from threads_serve [OF this first_center s(1)]
  have "\<exists>n. length (cc_store (t_center s)) = n \<and> (\<forall>h < n. \<forall>sorter ord whoami keys view need. \<exists>out.
      get_cfg sorter ord (cc_store (t_center s) ! h) whoami keys view need = Ok out)" by metis
  moreover have "length (cc_store (t_center s)) = 1" by (simp add: s(2) root_center_def)
  ultimately show ?thesis using s(1) by (metis zero_less_one)
qed

text \<open>C26. Creation and update take the mutexes in opposite orders, so whenever a namespace can be loaded, one
  thread that creates it and one that updates can lock each other out; from then on the center never
  changes again, and no lookup gets its lock.\<close>

theorem threads_deadlock:
  assumes "good B" and "starts_with ns ''/''" and "ends_with ns ''/''" and "\<not> cc_version_poisoned cc"
    and "\<not> cc_namespaces_poisoned cc" and "mem_storage_new X B ns (cc_current_version cc) = Ok m" and "t \<noteq> u"
  shows "\<exists>s. (thread_move X good)\<^sup>*\<^sup>* (threads_init cc) s \<and> deadlocked t u (lock_view s) \<and>
    (\<forall>s'. (thread_move X good)\<^sup>*\<^sup>* s s' \<longrightarrow> deadlocked t u (lock_view s') \<and> t_center s' = cc \<and>
       (\<forall>w n. t_job s' w \<noteq> GetReads n))"
proof -
  have load: "(thread_move X good)\<^sup>*\<^sup>* (threads_init cc) (loaded_threads cc t B ns NoNotify None m)"
    using assms(1-4,6) by (rule loads_run)
  obtain s where s: "(thread_move X good)\<^sup>*\<^sup>* (loaded_threads cc t B ns NoNotify None m) s"
    "deadlocked t u (lock_view s)" "t_center s = cc"
    using deadlock_run [where good = good, OF assms(1,5,7)] by blast
  have run: "(thread_move X good)\<^sup>*\<^sup>* (threads_init cc) s" using load s(1) by (rule rtranclp_trans)
  have "guarded s" using threads_lock_run [OF run] by blast
  note stuck = deadlocked_threads [OF _ this s(2)]
  have "t_job s' w \<noteq> GetReads n" if "(thread_move X good)\<^sup>*\<^sup>* s s'" for s' w n
  proof
    assume read: "t_job s' w = GetReads n"
    with stuck [OF that] have "w = u" by (auto simp: guarded_def deadlocked_def dest: arg_cong [where f = has_namespaces])
    with read stuck [OF that] show False by (simp add: deadlocked_def)
  qed
  with stuck run s show ?thesis by blast
qed

theorem threads_deadlock_witness:
  "\<exists>s. (thread_move deploy_crates walking)\<^sup>*\<^sup>* (threads_init first_center) s \<and> deadlocked 0 1 (lock_view s)"
proof -
  have "\<exists>s. (thread_move deploy_crates walking)\<^sup>*\<^sup>* (threads_init first_center) s \<and> deadlocked 0 1 (lock_view s) \<and>
    (\<forall>s'. (thread_move deploy_crates walking)\<^sup>*\<^sup>* s s' \<longrightarrow> deadlocked 0 1 (lock_view s') \<and> t_center s' = first_center \<and>
       (\<forall>w n. t_job s' w \<noteq> GetReads n))"
    by (rule threads_deadlock [of walking "deploy ''v1''" "''/''"])
      (simp_all add: deploy_walking starts_with_def ends_with_def first_center_def deploy_loads)
  then show ?thesis by blast
qed

end
