(* ===== verification/Source_Tests.thy ===== *)
theory Source_Tests
  imports Rule_Properties Index_Properties
begin

text \<open>
  The unit tests of the crate (\<open>src/rule_engine/mod.rs\<close>, \<open>src/parser/rule.rs\<close>, \<open>src/model/rule.rs\<close>)
  as definitions, and that they pass. A test without parameters is whether its assertions hold; one
  that may panic otherwise is a result. The combinators they run on are those of \<open>nom_ref\<close>.
\<close>

text \<open>\<open>unwrap\<close> and \<open>assert!\<close>.\<close>

fun unwrap :: "('a, 'e) res \<Rightarrow> ('a, 'f) res" where
  "unwrap (Ok x) = Ok x"
| "unwrap (Err e) = Panic"
| "unwrap Panic = Panic"
| "unwrap Hang = Hang"

definition assert_that :: "bool \<Rightarrow> (unit, 'e) res" where
  "assert_that b = (if b then Ok () else Panic)"

abbreviation is_str :: "string \<Rightarrow> string \<Rightarrow> condition" where
  "is_str k v \<equiv> CLeaf k OpEq (Some (Str v))"

section \<open>Conditions\<close>

definition str_ctx :: match_context where
  "str_ctx = [''str'' \<mapsto> Str ''str_value'']"

definition test_leaf_eval :: "(unit, unit) res" where
  "test_leaf_eval =
     and_then (cond_eval str_ctx (is_str ''str'' ''str_value'')) (\<lambda>r. assert_that r)"

definition test_logic_op :: "(unit, unit) res" where
  "test_logic_op =
     and_then (cond_eval str_ctx (CNot (is_str ''str'' ''str_value''))) (\<lambda>r.
     and_then (assert_that (\<not> r)) (\<lambda>_.
     and_then (cond_eval str_ctx (CAnd [is_str ''str'' ''str_value'', is_str ''str'' ''str_value_1''])) (\<lambda>r.
     and_then (assert_that (\<not> r)) (\<lambda>_.
     and_then (cond_eval str_ctx (COr [is_str ''str'' ''str_value'', is_str ''str'' ''str_value_1''])) (\<lambda>r.
       assert_that r)))))"

lemma condition_tests_pass: "test_leaf_eval = Ok ()" "test_logic_op = Ok ()"
  by code_simp+

section \<open>The parser\<close>

definition rhs_literal_test :: "'e nom \<Rightarrow> (string \<Rightarrow> string option) \<Rightarrow> bool" where
  "rhs_literal_test N unescape \<longleftrightarrow>
     rhs_literal N unescape ''\"3.0\"'' = POk [] (Str ''3.0'') \<and>
     rhs_literal N unescape [CHR 0x22, CHR ''3'', CHR ''.'', CHR ''0'', CHR 0x5C, CHR ''n'', CHR 0x22] =
       POk [] (Str ''3.0\<newline>'')"

definition leaf_expr_test :: "'e nom \<Rightarrow> (string \<Rightarrow> string option) \<Rightarrow> bool" where
  "leaf_expr_test N unescape \<longleftrightarrow> leaf_expr N unescape ''a == \"4\"'' = POk [] (is_str ''a'' ''4'')"

definition expr_not_test :: "'e nom \<Rightarrow> (string \<Rightarrow> string option) \<Rightarrow> nat \<Rightarrow> bool" where
  "expr_not_test N unescape depth \<longleftrightarrow>
     expr_or N unescape (expr_no_paren N unescape depth) ''!a==\"1\"'' = POk [] (CNot (is_str ''a'' ''1''))"

text \<open>The tests \<open>expr_or_test\<close> and \<open>expr_test\<close> only print what they get.\<close>

definition expr_or_test :: "'e nom \<Rightarrow> (string \<Rightarrow> string option) \<Rightarrow> nat \<Rightarrow> (condition, 'e) pres" where
  "expr_or_test N unescape depth =
     expr_or N unescape (expr_no_paren N unescape depth) ''a==1 && b==2 && c==3 || d==4 && e==5''"

definition expr_test :: "'e nom \<Rightarrow> (string \<Rightarrow> string option) \<Rightarrow> nat \<Rightarrow> (condition, 'e) pres" where
  "expr_test N unescape depth = expr N unescape depth ''b==2&&(c==3||d==4)&&e==5''"

text \<open>
  They pass with an \<open>unescape\<close> that turns the one escape they use into a newline. What the last two
  print is an error at the start of the text: their literals have no quotes.
\<close>

definition unescape_line :: "string \<Rightarrow> string option" where
  "unescape_line s = Some (if s = [CHR ''3'', CHR ''.'', CHR ''0'', CHR 0x5C, CHR ''n''] then ''3.0\<newline>'' else s)"

lemma parser_tests_pass:
  "rhs_literal_test nom_ref unescape_line"
  "leaf_expr_test nom_ref unescape_line"
  "expr_not_test nom_ref unescape_line depth"
  by code_simp+

lemma parser_tests_print:
  "expr_or_test nom_ref unescape_line depth = PError (''a==1 && b==2 && c==3 || d==4 && e==5'', KTag)"
  "expr_test nom_ref unescape_line depth = PError (''b==2&&(c==3||d==4)&&e==5'', KTag)"
  by code_simp+

section \<open>A rule file\<close>

definition test_rule :: string where
  "test_rule = ''str == \"123\" && int == \"-345\" || ( float == \"-1.234\" && ! ( str == \"123\" ) )''"

definition test_condition :: condition where
  "test_condition = COr [CAnd [is_str ''str'' ''123'', is_str ''int'' ''-345''],
     CAnd [is_str ''float'' ''-1.234'', CNot (is_str ''str'' ''123'')]]"

lemma test_rule: "do_parse nom_ref Some test_rule = POk [] test_condition"
  by code_simp

text \<open>The file: its lines, and a quote inside the text of the rule.\<close>

definition in_text :: "string \<Rightarrow> string" where
  "in_text s = concat (map (\<lambda>c. if c = CHR 0x22 then [CHR 0x5C, c] else [c]) s)"

definition test_rule_file :: string where
  "test_rule_file = join_on CHR 0x0A
     [[], CHR 9 # ''{'',
      [CHR 9, CHR 9] @ ''\"version\": 1,'',
      [CHR 9, CHR 9] @ ''\"kind\": \"Rule\",'',
      [CHR 9, CHR 9] @ ''\"meta\": {'',
      [CHR 9, CHR 9, CHR 9] @ ''\"desc\": \"balabalabala\",'',
      [CHR 9, CHR 9, CHR 9] @ ''\"tags\": [\"foo\", \"bar\"]'',
      [CHR 9, CHR 9] @ ''},'',
      [CHR 9, CHR 9] @ ''\"spec\": {'',
      [CHR 9, CHR 9, CHR 9] @ ''\"rule\": \"'' @ in_text test_rule @ ''\"'',
      [CHR 9, CHR 9] @ ''}'',
      CHR 9 # ''}'',
      [CHR 9]]"

definition test_load_rule :: "('j, 'e) crates \<Rightarrow> (unit, data_loader_error) res" where
  "test_load_rule X =
     and_then (unwrap (rule_load_from_slice X test_rule_file)) (\<lambda>r.
       assert_that (r = \<lparr>rule_meta_of = \<lparr>m_desc = ''balabalabala'', m_tags = [''foo'', ''bar'']\<rparr>,
                         rule_spec_of = \<lparr>rs_rule = test_condition\<rparr>\<rparr>))"

text \<open>What \<open>serde_json\<close> reads in the file.\<close>

definition balabala :: doc where
  "balabala = DObj [(''desc'', DText ''balabalabala''), (''tags'', DList [DText ''foo'', DText ''bar''])]"

definition rule_doc :: "string \<Rightarrow> doc root_common" where
  "rule_doc rule = \<lparr>rc_version = 1, rc_kind = ''Rule'', rc_meta = balabala, rc_spec = DObj [(''rule'', DText rule)]\<rparr>"

lemma test_load_rule_passes: "test_load_rule (doc_crates [(test_rule_file, rule_doc test_rule)]) = Ok ()"
  using test_rule by (simp add: test_load_rule_def load_eval rule_doc_def balabala_def assert_that_def)

end
