(* ===== verification/Mock_Store.thy ===== *)
theory Mock_Store
  imports Source_Tests Center_Properties
begin

text \<open>
  The integration tests of \<open>src/cfg_center/mod.rs\<close>: two threads query a namespace over a backend,
  one prints what it gets, the other asserts that it gets three values. The first test runs on the
  store of \<open>test/mock_data\<close>, which is here as a tree of files (\<open>mock_tree\<close>) and what
  \<open>serde_json\<close> reads in them (\<open>mock_docs\<close>).
\<close>

section \<open>The tests\<close>

definition mock_ctx :: match_context where
  "mock_ctx = [''foo'' \<mapsto> Str ''123'', ''bar'' \<mapsto> Str ''456'']"

definition mock_query :: "sorter \<Rightarrow> string list \<Rightarrow> namespace_center \<Rightarrow> (cfg_result list, unit) res" where
  "mock_query sorter ord nc =
     unwrap (get_cfg sorter ord nc mock_ctx [''my_key'', ''my_key'', ''my_key''] OverlaidView True)"

text \<open>
  A thread that runs its body again and again, while nobody changes what it reads: what the bodies
  gave, up to the first that panics or does not return.
\<close>

fun repeat_for :: "nat \<Rightarrow> ('a, unit) res \<Rightarrow> 'a list \<times> finish" where
  "repeat_for 0 body = ([], Returns)"
| "repeat_for (Suc n) body =
     (case body of
        Ok x \<Rightarrow> (case repeat_for n body of (xs, r) \<Rightarrow> (x # xs, r))
      | Hang \<Rightarrow> ([], Blocks)
      | _ \<Rightarrow> ([], Unwinds))"

definition printing_thread :: "sorter \<Rightarrow> string list \<Rightarrow> namespace_center \<Rightarrow> string list \<times> finish" where
  "printing_thread sorter ord nc =
     repeat_for 6000000 (and_then (mock_query sorter ord nc) (\<lambda>t.
       Ok (if length t > 0 then kv_value (cr_value (t ! 0)) else ''no result'')))"

definition asserting_thread :: "sorter \<Rightarrow> string list \<Rightarrow> namespace_center \<Rightarrow> unit list \<times> finish" where
  "asserting_thread sorter ord nc =
     repeat_for 6000000 (and_then (mock_query sorter ord nc) (\<lambda>t. assert_that (length t = 3)))"

text \<open>The end of a test: it waits for both threads, and does not look at how they ended.\<close>

definition join_both :: "'a \<times> finish \<Rightarrow> 'b \<times> finish \<Rightarrow> (('a \<times> finish) \<times> ('b \<times> finish), unit) res" where
  "join_both t1 t2 = (if snd t1 = Blocks \<or> snd t2 = Blocks then Hang else Ok (t1, t2))"

definition query_in_threads ::
  "('j, 'e) crates \<Rightarrow> cfg_index storage_backend \<Rightarrow> sorter \<Rightarrow> string list
    \<Rightarrow> ((string list \<times> finish) \<times> (unit list \<times> finish), unit) res" where
  "query_in_threads X backend sorter ord =
     and_then (unwrap (cfg_center_new backend)) (\<lambda>cc.
       (case create_namespace_scoped_cfg_center X backend cc ''/'' NotifyWithoutChangedKeysByGlobal
               (Some (\<lambda>_. Returns)) of
          (cc', r) \<Rightarrow> and_then (unwrap r) (\<lambda>cfg_ns.
            join_both (printing_thread sorter ord (cc_store cc' ! cfg_ns))
              (asserting_thread sorter ord (cc_store cc' ! cfg_ns)))))"

definition mock_base_path :: "path \<Rightarrow> path" where
  "mock_base_path project_base_dir =
     path_join (path_join (path_join project_base_dir ''test'') ''mock_data'') ''filesystem_backend''"

definition test_load_res_and_query ::
  "('j, 'e) crates \<Rightarrow> os_fs \<Rightarrow> notify \<Rightarrow> path \<Rightarrow> sorter \<Rightarrow> string list
    \<Rightarrow> ((string list \<times> finish) \<times> (unit list \<times> finish), unit) res" where
  "test_load_res_and_query X os nt manifest_dir sorter ord =
     query_in_threads X (fs_storage os nt (fs_new (mock_base_path manifest_dir))) sorter ord"

definition test_git_backend_load_res_and_query ::
  "('j, 'e) crates \<Rightarrow> ('r, cfg_index) git2 \<Rightarrow> string \<Rightarrow> sorter \<Rightarrow> string list
    \<Rightarrow> ((string list \<times> finish) \<times> (unit list \<times> finish), unit) res" where
  "test_git_backend_load_res_and_query X G user sorter ord =
     and_then (unwrap (git_new G ''/data/git_backend/.git'' (user @ ''@localhost:/data/git_backend_r/.git'') ''master''))
       (\<lambda>backend. query_in_threads X (git_storage G backend) sorter ord)"

lemma repeat_for_Ok: "repeat_for n (Ok x) = (replicate n x, Returns)"
  by (induction n) simp_all

lemma repeat_for_Panic: "0 < n \<Longrightarrow> repeat_for n Panic = ([], Unwinds)"
  by (cases n) simp_all

section \<open>The store\<close>

definition mock_version :: "string \<Rightarrow> node" where
  "mock_version res = Dir
     [(''rules'', Dir [(''foo'', Dir [(''bar'', Dir [(''1.json'', File ''R1''), (''2.json'', File ''R2'')])])]),
      (''links'', Dir [(''foo'', Dir [(''link_bar.json'', File ''L2'')]), (''link_root.json'', File ''L1'')]),
      (''reses'', Dir [(''foo'', Dir [(''bar'', Dir [(''1.json'', File res)])])])]"

definition mock_tree :: node where
  "mock_tree = Dir [(''eafcc'', Dir [(''test'', Dir [(''mock_data'', Dir [(''filesystem_backend'', Dir
     [(''head'', File ''v2''), (''v1'', mock_version ''S1''), (''v2'', mock_version ''S2'')])])])])]"

definition mock_rule_2 :: string where
  "mock_rule_2 = ''foo == \"123\" && bar == \"456\"''"

definition mock_condition_2 :: condition where
  "mock_condition_2 = CAnd [is_str ''foo'' ''123'', is_str ''bar'' ''456'']"

definition link_doc :: "string \<Rightarrow> string \<Rightarrow> doc root_common" where
  "link_doc ver rule = \<lparr>rc_version = 1, rc_kind = ''Link'', rc_meta = balabala,
     rc_spec = DObj [(''pri'', DNum 0x40490FDA), (''is_neg'', DBool False), (''ver'', DText ver),
       (''rule'', DText rule), (''res'', DList [DText ''path:/foo/bar/1.json''])]\<rparr>"

definition res_doc :: "string \<Rightarrow> doc root_common" where
  "res_doc data = \<lparr>rc_version = 1, rc_kind = ''Res'', rc_meta = balabala,
     rc_spec = DList [DObj [(''content_type'', DText ''application/json''), (''key'', DText ''my_key''),
       (''data'', DText data), (''schema'', DObj [])]]\<rparr>"

definition mock_data :: "string \<Rightarrow> string" where
  "mock_data key = ''{\"'' @ key @ ''\":[{},{\"bbb\":\"hahaha\"}]}''"

definition mock_docs :: "(string \<times> doc root_common) list" where
  "mock_docs = [(''R1'', rule_doc test_rule), (''R2'', rule_doc mock_rule_2),
     (''L1'', link_doc ''latest:<branch_name>'' ''path:/foo/bar/1.json''),
     (''L2'', link_doc ''latest:master'' ''path:/foo/bar/2.json''),
     (''S1'', res_doc (mock_data ''aaa'')), (''S2'', res_doc (mock_data ''aaa----''))]"

definition mock_backend :: fs_backend where
  "mock_backend = fs_new (mock_base_path ''/eafcc'')"

definition mock_head :: version_item where
  "mock_head = \<lparr>v_name = ''v2'', v_id = ''v2''\<rparr>"

lemma mock_rule_2: "do_parse nom_ref Some mock_rule_2 = POk [] mock_condition_2"
  by code_simp

definition mock_meta :: object_meta where
  "mock_meta = \<lparr>m_desc = ''balabalabala'', m_tags = [''foo'', ''bar'']\<rparr>"

definition mock_rule :: "condition \<Rightarrow> rule_obj" where
  "mock_rule c = \<lparr>rule_meta_of = mock_meta, rule_spec_of = \<lparr>rs_rule = c\<rparr>\<rparr>"

definition mock_link :: "string \<Rightarrow> string \<Rightarrow> link_obj" where
  "mock_link ver rule = \<lparr>link_meta_of = mock_meta, link_spec_of = \<lparr>ls_pri = 0x40490FDA, ls_is_neg = False,
     ls_ver = ver, ls_rule = rule, ls_reses = [''path:/foo/bar/1.json'']\<rparr>\<rparr>"

definition mock_res :: "string \<Rightarrow> doc res_obj" where
  "mock_res data = \<lparr>res_meta_of = mock_meta, res_spec_of =
     [\<lparr>ri_content_type = ''application/json'', ri_key = ''my_key'', ri_data = data, ri_schema = DObj []\<rparr>]\<rparr>"

lemma mock_parsed:
  "rule_load_from_slice (doc_crates mock_docs) ''R1'' = Ok (mock_rule test_condition)"
  "rule_load_from_slice (doc_crates mock_docs) ''R2'' = Ok (mock_rule mock_condition_2)"
  "link_checked (doc_crates mock_docs) ''L1'' = Ok (mock_link ''latest:<branch_name>'' ''path:/foo/bar/1.json'')"
  "link_checked (doc_crates mock_docs) ''L2'' = Ok (mock_link ''latest:master'' ''path:/foo/bar/2.json'')"
  "res_load_from_slice (doc_crates mock_docs) ''S2'' = Ok (mock_res (mock_data ''aaa----''))"
  using test_rule mock_rule_2
  by (simp_all add: load_eval mock_docs_def rule_doc_def link_doc_def res_doc_def balabala_def mock_rule_def
      mock_link_def mock_res_def mock_meta_def)

lemma mock_dirs:
  "fs_dir_of mock_tree mock_backend mock_head ''rules'' [] =
     Dir [(''foo'', Dir [(''bar'', Dir [(''1.json'', File ''R1''), (''2.json'', File ''R2'')])])]"
  "fs_dir_of mock_tree mock_backend mock_head ''links'' [] =
     Dir [(''foo'', Dir [(''link_bar.json'', File ''L2'')]), (''link_root.json'', File ''L1'')]"
  "fs_dir_of mock_tree mock_backend mock_head ''reses'' [] =
     Dir [(''foo'', Dir [(''bar'', Dir [(''1.json'', File ''S2'')])])]"
  by (simp_all add: path_eval fs_dir_of_def abs_of_def mock_tree_def mock_version_def mock_backend_def
      mock_base_path_def mock_head_def)


text \<open>The index of the second version, which the head names.\<close>

definition mock_rules :: "(string \<times> rule_obj) list" where
  "mock_rules = [(''foo/bar/1.json'', mock_rule test_condition), (''foo/bar/2.json'', mock_rule mock_condition_2)]"

definition mock_links :: "(string \<times> link_obj) list" where
  "mock_links = [(''link_root.json'', mock_link ''latest:<branch_name>'' ''path:/foo/bar/1.json''),
     (''foo/link_bar.json'', mock_link ''latest:master'' ''path:/foo/bar/2.json'')]"

definition mock_mem :: mem_storage where
  "mock_mem = \<lparr>ms_version = mock_head,
     ms_indices = build_index mock_rules mock_links [(''foo/bar/1.json'', mock_res (mock_data ''aaa----''))]\<rparr>"

abbreviation mock_storage :: "notify \<Rightarrow> cfg_index storage_backend" where
  "mock_storage nt \<equiv> fs_storage (tree_os mock_tree) nt mock_backend"

lemma mock_loads:
  "mem_storage_new (doc_crates mock_docs) (mock_storage nt) ''/'' mock_head = Ok mock_mem"
  using index_load_fs [of "[]" mock_tree mock_backend mock_head "doc_crates mock_docs" nt]
  apply (simp add: mem_storage_new_def ns_name_def dir_eval mock_dirs mock_parsed mock_mem_def)
  apply (simp add: mock_rules_def mock_links_def)
  done

lemma mock_current: "get_current_version (mock_storage nt) = Ok mock_head"
  by (simp add: fs_storage_def fs_get_current_version_def read_version_from_fs_def tree_os_def mock_tree_def
      path_eval mock_backend_def mock_base_path_def mock_head_def str_trim_graphic graphic_def from_utf8_def Let_def)

lemma two_keys:
  assumes "distinct ks" and "set ks = {a, b}" and "a \<noteq> b"
  shows "ks = [a, b] \<or> ks = [b, a]"
proof -
  have "length ks = 2" using assms distinct_card [of ks] by simp
  then obtain x y where "ks = [x, y]" by (auto simp: numeral_2_eq_2 length_Suc_conv)
  with assms show ?thesis by (auto simp: doubleton_eq_iff)
qed

lemma mock_rule_stor:
  "rule_stor (ms_indices mock_mem) = [''foo/bar/1.json'' \<mapsto> \<lparr>ir_rule = test_condition, ir_abs_path = ''foo/bar/1.json''\<rparr>,
     ''foo/bar/2.json'' \<mapsto> \<lparr>ir_rule = mock_condition_2, ir_abs_path = ''foo/bar/2.json''\<rparr>]"
  by (rule ext) (simp add: mock_mem_def build_rule_stor mock_rules_def mock_rule_def)

text \<open>The link of the second rule, the only one that holds for the client of the tests.\<close>

definition bar_link :: idx_link_item where
  "bar_link = \<lparr>il_pri = 0x40490FDA, il_is_neg = False, il_rule_path = ''path:/foo/bar/2.json'',
     il_abs_res_path = ''foo/bar/1.json'', il_link_path = ''foo/link_bar.json''\<rparr>"

lemma mock_link_stor: "link_stor (ms_indices mock_mem) ''foo/bar/2.json'' = Some [bar_link]"
  by (simp add: mock_mem_def build_link_stor mock_links_def mock_link_def link_target_def link_items_def bar_link_def)

lemma mock_holds: "\<not> holds mock_ctx test_condition" "holds mock_ctx mock_condition_2"
  by code_simp+

lemma mock_active:
  assumes "hash_order (rule_stor (ms_indices mock_mem)) ord"
  shows "active_links ord mock_mem mock_ctx = [bar_link]"
proof -
  have "ord = [''foo/bar/1.json'', ''foo/bar/2.json''] \<or> ord = [''foo/bar/2.json'', ''foo/bar/1.json'']"
    using assms by (intro two_keys) (auto simp: hash_order_def mock_rule_stor)
  then show ?thesis
    by (elim disjE) (simp_all add: active_links_def rule_links_def mock_rule_stor mock_link_stor mock_holds)
qed

section \<open>The first test\<close>

text \<open>What the client of the tests gets from the center of the namespace \<open>/\<close>.\<close>

definition mock_value :: cfg_result where
  "mock_value = \<lparr>cr_reason = Some bar_link, cr_value = \<lparr>kv_content_type = ''application/json'',
     kv_key = ''my_key'', kv_value = mock_data ''aaa----''\<rparr>\<rparr>"

lemma mock_answer:
  assumes "slice_sort sorter" and "hash_order (rule_stor (ms_indices mock_mem)) ord"
  shows "mock_query sorter ord (namespace_center_new ''/'' mock_mem level cb) = Ok [mock_value, mock_value, mock_value]"
proof -
  have "index_ok (ms_indices mock_mem)"
    using mem_storage_new_ok [OF fs_storage_walker _ mock_loads] by (simp add: ref_nom.nom_axioms)
  moreover have "sorter overlaid_cmp [bar_link] = [bar_link]"
    using slice_sort.sort_perm [OF assms(1), of overlaid_cmp "[bar_link]"] by simp
  moreover have "get_res_by_path (res_stor (ms_indices mock_mem)) ''foo/bar/1.json'' =
      Some \<lparr>r_data = [cr_value mock_value], r_res_path = ''foo/bar/1.json''\<rparr>"
    by (simp add: get_res_by_path_def mock_mem_def build_res_stor add_res_def mock_res_def mock_value_def)
  ultimately show ?thesis
    by (simp add: mock_query_def get_cfg_def namespace_center_new_def querier_get_eq mock_active [OF assms(2)]
        fetch_res_by_overlaid_view_def bar_link_def mock_value_def)
qed

text \<open>The test passes, whatever the order of the map of rules and the sorting algorithm.\<close>

lemma test_load_res_and_query_passes:
  assumes "slice_sort sorter" and "hash_order (rule_stor (ms_indices mock_mem)) ord"
  shows "test_load_res_and_query (doc_crates mock_docs) (tree_os mock_tree) sample_notify ''/eafcc'' sorter ord =
    Ok ((replicate 6000000 (mock_data ''aaa----''), Returns), (replicate 6000000 (), Returns))"
proof -
  have "set_update_cb (mock_storage sample_notify) = Ok ()"
    by (simp add: fs_storage_def fs_set_update_cb_def sample_notify_def mock_backend_def fs_new_def Let_def)
  then have "cfg_center_new (mock_storage sample_notify) =
      Ok \<lparr>cc_namespaces = Map.empty, cc_namespaces_poisoned = False, cc_current_version = mock_head,
        cc_version_poisoned = False, cc_store = []\<rparr>"
    by (simp add: cfg_center_new_def mock_current or_err_def)
  then show ?thesis
    by (simp add: test_load_res_and_query_def query_in_threads_def create_namespace_scoped_cfg_center_def
        starts_with_def ends_with_def mock_loads mock_backend_def [symmetric] printing_thread_def asserting_thread_def
        mock_answer [OF assms] assert_that_def repeat_for_Ok join_both_def mock_value_def
        del: replicate.simps repeat_for.simps)
qed

text \<open>
  The assertion cannot make the test fail: on a store that has nothing for this client the asserting
  thread panics at once, and the test passes all the same.
\<close>

lemma test_passes_without_values:
  "query_in_threads deploy_crates (deploy ''v1'') sorter ord =
    Ok ((replicate 6000000 ''no result'', Returns), ([], Unwinds))"
proof -
  let ?m = "\<lparr>ms_version = sample_version, ms_indices = sample_index\<rparr>"
  have "rule_links ?m mock_ctx r = []" if "rule_stor sample_index k = Some r" for k r
  proof -
    from that have "ir_rule r = CLeaf ''os'' OpEq (Some (Str ''mac''))"
      by (auto simp: sample_index_def build_rule_stor sample_rule_def split: if_splits)
    moreover have "\<not> holds mock_ctx (CLeaf ''os'' OpEq (Some (Str ''mac'')))" by code_simp
    ultimately show ?thesis by (simp add: rule_links_def)
  qed
  then have "active_links ord ?m mock_ctx = []"
    by (auto simp: active_links_def set_hash_values)
  moreover have "index_ok sample_index"
    using mem_storage_new_ok [OF _ _ deploy_loads(1)] deploy_walking by (simp add: ref_nom.nom_axioms)
  ultimately have "mock_query sorter ord (namespace_center_new ''/'' ?m level cb) = Ok []" for level cb
    by (simp add: mock_query_def get_cfg_def namespace_center_new_def querier_get_eq)
  then show ?thesis
    by (simp add: query_in_threads_def first_center root_center root_center_def printing_thread_def
        asserting_thread_def assert_that_def repeat_for_Ok repeat_for_Panic join_both_def
        del: replicate.simps repeat_for.simps)
qed

end
