(* ===== verification/Ffi.thy ===== *)
theory Ffi
  imports Cfg_Center Filesystem Git_Backend
begin

text \<open>
  \<open>src/ffi.rs\<close>: the C interface. A C string is its bytes without the terminating NUL, a null pointer
  is \<open>None\<close>, and an object handed out by raw pointer is its value. The last error of a thread is
  state that every call may set.
\<close>

section \<open>The last error\<close>

record internal_last_error =
  le_msg :: string
  le_code :: int
  le_c_string :: string
  le_exposed_code :: int

definition no_last_error :: internal_last_error where
  "no_last_error = \<lparr>le_msg = [], le_code = 0, le_c_string = [], le_exposed_code = 0\<rparr>"

definition nul :: char where
  "nul = CHR 0x00"

text \<open>\<open>CString::new\<close> rejects interior NUL bytes.\<close>

definition cstring_new :: "string \<Rightarrow> (string, ffi_error) res" where
  "cstring_new s =
     (if nul \<in> set s
      then Err (StringConvertNulError
        (''nul byte found in provided data at position: '' @ nat_text (length (takeWhile (\<lambda>c. c \<noteq> nul) s))))
      else Ok s)"

definition set_last_error :: "int \<Rightarrow> string \<Rightarrow> internal_last_error \<Rightarrow> internal_last_error" where
  "set_last_error code msg r = r\<lparr>le_code := code, le_msg := msg\<rparr>"

text \<open>\<open>get_last_error\<close>: the error exposed (message and code), with the state it updates.\<close>

definition get_last_error :: "internal_last_error \<Rightarrow> internal_last_error \<times> string \<times> int" where
  "get_last_error r =
     (let r = r\<lparr>le_c_string := (case cstring_new (le_msg r) of Ok s \<Rightarrow> s | _ \<Rightarrow> [])\<rparr>;
          r = r\<lparr>le_exposed_code := le_code r\<rparr> in
      (r, le_c_string r, le_exposed_code r))"

text \<open>A call of the interface: the last error afterwards, and a pointer (\<open>None\<close> is null) or a panic.\<close>

type_synonym 'a ffi_call = "internal_last_error \<times> ('a option, unit) res"

fun or_null :: "internal_last_error \<Rightarrow> ('e \<Rightarrow> string) \<Rightarrow> ('a, 'e) res \<Rightarrow> 'a ffi_call" where
  "or_null r msg (Ok x) = (r, Ok (Some x))"
| "or_null r msg (Err e) = (set_last_error 0 (msg e) r, Ok None)"
| "or_null r msg Panic = (r, Panic)"
| "or_null r msg Hang = (r, Hang)"

section \<open>The client's tags\<close>

text \<open>\<open>new_whoami\<close>: one \<open>key=value\<close> per line, both trimmed; a later line replaces an earlier one.\<close>

definition whoami_line :: "string \<Rightarrow> match_context \<Rightarrow> match_context" where
  "whoami_line part ctx =
     (case split_once CHR ''='' part of
        Some (k, v) \<Rightarrow> ctx(str_trim k \<mapsto> Str (str_trim v))
      | None \<Rightarrow> ctx)"

definition new_whoami :: "string \<Rightarrow> match_context" where
  "new_whoami val = fold whoami_line (split_on CHR 0x0A (from_utf8_lossy val)) Map.empty"

section \<open>Building the backend\<close>

text \<open>The accessors of \<open>serde_json::Value\<close> that the interface calls.\<close>

record 'j serde_value =
  value_from_slice :: "string \<Rightarrow> foreign_error + 'j"
  value_get :: "'j \<Rightarrow> string \<Rightarrow> 'j option"
  as_object :: "'j \<Rightarrow> (string \<Rightarrow> 'j option) option"
  value_as_str :: "'j \<Rightarrow> string option"

datatype 'r any_backend = FsBackend fs_backend | AGitBackend "'r git_backend"

definition cfg_str :: "'j serde_value \<Rightarrow> (string \<Rightarrow> 'j option) \<Rightarrow> string \<Rightarrow> string \<Rightarrow> string \<Rightarrow> (string, ffi_error) res" where
  "cfg_str J cfg field missing not_str =
     and_then (ok_or (cfg field) (CreateBackendError missing)) (\<lambda>v.
       ok_or (value_as_str J v) (CreateBackendError not_str))"

definition build_storage_backend_from_cfg ::
  "'j serde_value \<Rightarrow> ('r, 'c) git2 \<Rightarrow> 'j \<Rightarrow> ('r any_backend, ffi_error) res" where
  "build_storage_backend_from_cfg J G cfg =
     and_then (ok_or (as_object J cfg) (CreateBackendError ''cfg format error'')) (\<lambda>cfg.
     and_then (cfg_str J cfg ''type'' ''must have a `type` filed for storage_backend''
                 ''`storage_backend` must be string'') (\<lambda>ty.
       if ty = ''filesystem'' then
         and_then (cfg_str J cfg ''path'' ''filesystem backend must have a `path` filed''
                     ''`path` must be string'') (\<lambda>path.
           Ok (FsBackend (fs_new path)))
       else if ty = ''git-normal'' then
         and_then (cfg_str J cfg ''local_repo_path'' ''git-normal backend must have a `local_repo_path` filed''
                     ''`local_repo_path` must be string'') (\<lambda>local_repo_path.
         and_then (cfg_str J cfg ''remote_repo_url'' ''git-normal backend must have a `remote_repo_url` filed''
                     ''`remote_repo_url` must be string'') (\<lambda>remote_repo_url.
         and_then (cfg_str J cfg ''target_branch_name'' ''git-normal backend must have a `target_branch_name` filed''
                     ''`target_branch_name` must be string'') (\<lambda>target_branch_name.
         and_then (map_err FFIStorageError (git_new G local_repo_path remote_repo_url target_branch_name)) (\<lambda>backend.
           Ok (AGitBackend backend)))))
       else Err (CreateBackendError ''not supported backend type'')))"

definition storage_of ::
  "os_fs \<Rightarrow> notify \<Rightarrow> ('r, cfg_index) git2 \<Rightarrow> 'r any_backend \<Rightarrow> cfg_index storage_backend" where
  "storage_of os nt G b = (case b of FsBackend f \<Rightarrow> fs_storage os nt f | AGitBackend g \<Rightarrow> git_storage G g)"

definition new_config_center_client ::
  "'j serde_value \<Rightarrow> os_fs \<Rightarrow> notify \<Rightarrow> ('r, cfg_index) git2 \<Rightarrow> string option \<Rightarrow> internal_last_error
    \<Rightarrow> ('r any_backend \<times> cfg_center) ffi_call" where
  "new_config_center_client J os nt G cfg r =
     (case cfg of
        None \<Rightarrow> (r, Panic)
      | Some t \<Rightarrow>
          (case value_from_slice J t of
             Inl e \<Rightarrow> (set_last_error 0 e r, Ok None)
           | Inr cfg \<Rightarrow>
               (case value_get J cfg ''storage_backend'' of
                  None \<Rightarrow> (set_last_error 0 ''must set storage_backend field in the config file.'' r, Ok None)
                | Some backend_cfg \<Rightarrow>
                    (case or_null r ffi_msg (build_storage_backend_from_cfg J G backend_cfg) of
                       (r, Ok (Some backend)) \<Rightarrow>
                         or_null r cclib_msg (and_then (cfg_center_new (storage_of os nt G backend)) (\<lambda>cc.
                           Ok (backend, cc)))
                     | (r, Ok None) \<Rightarrow> (r, Ok None)
                     | (r, Panic) \<Rightarrow> (r, Panic)
                     | (r, _) \<Rightarrow> (r, Hang)))))"

section \<open>Namespaces and queries\<close>

definition ffi_create_namespace ::
  "('j, 'e) crates \<Rightarrow> cfg_index storage_backend \<Rightarrow> cfg_center option \<Rightarrow> string option \<Rightarrow> update_notify_level
    \<Rightarrow> callback option \<Rightarrow> internal_last_error \<Rightarrow> cfg_center option \<times> handle ffi_call" where
  "ffi_create_namespace X B cc namespace level cb r =
     (case cc of
        None \<Rightarrow> (cc, r, Panic)
      | Some c \<Rightarrow>
          (case namespace of
             None \<Rightarrow> (cc, r, Panic)
           | Some ns \<Rightarrow>
               if \<not> utf8_valid ns then (cc, set_last_error 0 (utf8_error_text ns) r, Ok None)
               else (case create_namespace_scoped_cfg_center X B c ns level cb of
                       (c', res) \<Rightarrow> (Some c', or_null r cclib_msg res))))"

record config_value_reason =
  vr_pri :: f32
  vr_is_neg :: bool
  vr_link_path :: string
  vr_rule_path :: string
  vr_res_path :: string

record config_value =
  cv_key :: string
  cv_content_type :: string
  cv_value :: string
  cv_reason :: "config_value_reason option"

definition convert_reason :: "idx_link_item \<Rightarrow> (config_value_reason, ffi_error) res" where
  "convert_reason l =
     and_then (cstring_new (il_rule_path l)) (\<lambda>rule_path.
     and_then (cstring_new (il_link_path l)) (\<lambda>link_path.
     and_then (cstring_new (il_abs_res_path l)) (\<lambda>res_path.
       Ok \<lparr>vr_pri = il_pri l, vr_is_neg = il_is_neg l, vr_link_path = link_path,
           vr_rule_path = rule_path, vr_res_path = res_path\<rparr>)))"

definition convert_value :: "cfg_result \<Rightarrow> (config_value, ffi_error) res" where
  "convert_value v =
     and_then (case cr_reason v of None \<Rightarrow> Ok None
               | Some l \<Rightarrow> and_then (convert_reason l) (\<lambda>x. Ok (Some x))) (\<lambda>reason.
     and_then (cstring_new (kv_content_type (cr_value v))) (\<lambda>content_type.
     and_then (cstring_new (kv_key (cr_value v))) (\<lambda>key.
     and_then (cstring_new (kv_value (cr_value v))) (\<lambda>val.
       Ok \<lparr>cv_key = key, cv_content_type = content_type, cv_value = val, cv_reason = reason\<rparr>))))"

definition convert_get_cfg_output_value :: "cfg_result list \<Rightarrow> (config_value list, ffi_error) res" where
  "convert_get_cfg_output_value vals = try_map convert_value vals"

text \<open>The keys: \<open>CStr::to_str\<close> each; a null client context panics.\<close>

definition convert_get_cfg_input_value ::
  "match_context option \<Rightarrow> string list \<Rightarrow> (match_context \<times> string list, ffi_error) res" where
  "convert_get_cfg_input_value whoami keys =
     (case whoami of
        None \<Rightarrow> Panic
      | Some w \<Rightarrow>
          and_then (try_map (\<lambda>k. from_utf8 k (StringConvertUtf8Error (utf8_error_text k))) keys) (\<lambda>ks.
            Ok (w, ks)))"

text \<open>The common part of \<open>get_config\<close> and the two queries on a differ: \<open>ask\<close> answers the query.\<close>

definition config_call ::
  "('q \<Rightarrow> string) \<Rightarrow> (match_context \<Rightarrow> string list \<Rightarrow> bool \<Rightarrow> (cfg_result list, 'q) res)
    \<Rightarrow> match_context option \<Rightarrow> string list \<Rightarrow> 8 word \<Rightarrow> internal_last_error \<Rightarrow> config_value list ffi_call" where
  "config_call msg ask whoami keys need_explain r =
     (case convert_get_cfg_input_value whoami keys of
        Err e \<Rightarrow> (set_last_error 0 (ffi_msg e) r, Ok None)
      | Panic \<Rightarrow> (r, Panic)
      | Hang \<Rightarrow> (r, Hang)
      | Ok (w, ks) \<Rightarrow>
          (case ask w ks (if need_explain = 0 then False else True) of
             Err e \<Rightarrow> (set_last_error 0 (msg e) r, Ok None)
           | Panic \<Rightarrow> (r, Panic)
           | Hang \<Rightarrow> (r, Hang)
           | Ok vals \<Rightarrow> or_null r ffi_msg (convert_get_cfg_output_value vals)))"

definition get_config ::
  "sorter \<Rightarrow> string list \<Rightarrow> namespace_center option \<Rightarrow> match_context option \<Rightarrow> string list \<Rightarrow> view_mode
    \<Rightarrow> 8 word \<Rightarrow> internal_last_error \<Rightarrow> config_value list ffi_call" where
  "get_config sorter ord ns whoami keys view_mode need_explain r =
     (case ns of
        None \<Rightarrow> (r, Panic)
      | Some nc \<Rightarrow>
          config_call query_msg (\<lambda>w ks. get_cfg sorter ord nc w ks view_mode) whoami keys need_explain r)"

definition ffi_differ_get_from_old ::
  "sorter \<Rightarrow> string list \<Rightarrow> differ option \<Rightarrow> match_context option \<Rightarrow> string list \<Rightarrow> view_mode
    \<Rightarrow> 8 word \<Rightarrow> internal_last_error \<Rightarrow> config_value list ffi_call" where
  "ffi_differ_get_from_old sorter ord d whoami keys view_mode need_explain r =
     (case d of
        None \<Rightarrow> (r, Panic)
      | Some d \<Rightarrow>
          config_call differ_msg (\<lambda>w ks. differ_get_from_old sorter ord d w ks view_mode) whoami keys need_explain r)"

definition ffi_differ_get_from_new ::
  "sorter \<Rightarrow> string list \<Rightarrow> differ option \<Rightarrow> match_context option \<Rightarrow> string list \<Rightarrow> view_mode
    \<Rightarrow> 8 word \<Rightarrow> internal_last_error \<Rightarrow> config_value list ffi_call" where
  "ffi_differ_get_from_new sorter ord d whoami keys view_mode need_explain r =
     (case d of
        None \<Rightarrow> (r, Panic)
      | Some d \<Rightarrow>
          config_call differ_msg (\<lambda>w ks. differ_get_from_new sorter ord d w ks view_mode) whoami keys need_explain r)"

section \<open>Lemmas\<close>

text \<open>A client's tag is the value of the last line with that key.\<close>

definition line_entry :: "string \<Rightarrow> (string \<times> rvalue) option" where
  "line_entry part = map_option (\<lambda>(k, v). (str_trim k, Str (str_trim v))) (split_once CHR ''='' part)"

lemma whoami_lines:
  "fold whoami_line ls ctx = ctx ++ map_of (rev (List.map_filter line_entry ls))"
proof (induction ls arbitrary: ctx)
  case (Cons l ls)
  show ?case
  proof (cases "split_once CHR ''='' l")
    case (Some kv)
    obtain k v where "kv = (k, v)" by force
    with Some have "whoami_line l ctx = ctx(str_trim k \<mapsto> Str (str_trim v))"
      "line_entry l = Some (str_trim k, Str (str_trim v))"
      by (simp_all add: whoami_line_def line_entry_def)
    then show ?thesis by (intro ext) (simp add: Cons.IH List.map_filter_simps map_add_def split: option.split)
  qed (simp add: Cons.IH whoami_line_def [of l] line_entry_def [of l] List.map_filter_simps)
qed (simp add: List.map_filter_simps)

lemma cstring_new_no_unwind [simp]: "cstring_new s \<noteq> Panic" "cstring_new s \<noteq> Hang"
  by (simp_all add: cstring_new_def)

lemma convert_value_no_unwind: "convert_value v \<noteq> Panic \<and> convert_value v \<noteq> Hang"
  by (cases "cr_reason v") (auto simp: convert_value_def convert_reason_def res_elim)

definition nul_free :: "cfg_result \<Rightarrow> bool" where
  "nul_free v \<longleftrightarrow> nul \<notin> set (kv_content_type (cr_value v)) \<and> nul \<notin> set (kv_key (cr_value v)) \<and>
     nul \<notin> set (kv_value (cr_value v)) \<and>
     (\<forall>l. cr_reason v = Some l \<longrightarrow> nul \<notin> set (il_rule_path l) \<and> nul \<notin> set (il_link_path l) \<and>
        nul \<notin> set (il_abs_res_path l))"

lemma convert_value_Ok_iff: "(\<exists>c. convert_value v = Ok c) \<longleftrightarrow> nul_free v"
  by (cases "cr_reason v") (auto simp: convert_value_def convert_reason_def cstring_new_def nul_free_def)

lemma convert_output_Ok_iff:
  "(\<exists>cs. convert_get_cfg_output_value vs = Ok cs) \<longleftrightarrow> (\<forall>v\<in>set vs. nul_free v)"
  using convert_value_Ok_iff
  by (induction vs) (auto simp: convert_get_cfg_output_value_def)

end
