(* ===== verification/Ffi_Properties.thy ===== *)
theory Ffi_Properties
  imports Ffi Center_Properties
begin

text \<open>The properties of the C interface: the client's tags, errors, creation of a client, queries.\<close>

abbreviation newline :: char where
  "newline \<equiv> CHR 0x0A"

section \<open>The client's tags\<close>

definition tag_line :: "string \<times> string \<Rightarrow> string" where
  "tag_line kv = fst kv @ CHR ''='' # snd kv"

definition plain_tag :: "string \<times> string \<Rightarrow> bool" where
  "plain_tag kv \<longleftrightarrow> utf8_valid (fst kv) \<and> utf8_valid (snd kv) \<and> newline \<notin> set (fst kv @ snd kv) \<and>
     CHR ''='' \<notin> set (fst kv) \<and> str_trim (fst kv) = fst kv \<and> str_trim (snd kv) = snd kv"

lemma plain_line:
  assumes "plain_tag kv"
  shows "utf8_valid (tag_line kv) \<and> newline \<notin> set (tag_line kv) \<and>
    line_entry (tag_line kv) = Some (fst kv, Str (snd kv))"
  using assms
  by (auto simp: plain_tag_def tag_line_def utf8_valid_at_ascii line_entry_def split_once_at split: prod.split)

text \<open>C37. Tags written one per line as \<open>key=value\<close> are read back by \<open>new_whoami\<close>: the last line of a key
  wins, and a value may contain further equals signs.\<close>

theorem whoami_roundtrip:
  assumes "kvs \<noteq> []" and "\<forall>kv\<in>set kvs. plain_tag kv"
  shows "new_whoami (join_on newline (map tag_line kvs)) = map_of (rev (map (\<lambda>(k, v). (k, Str v)) kvs))"
proof -
  let ?ls = "map tag_line kvs"
  have split: "split_on newline (join_on newline ?ls) = ?ls"
    using assms plain_line by (intro split_join) auto
  have "utf8_valid (join_on newline ?ls)"
    using assms plain_line by (subst utf8_valid_split_on [of newline]) (auto simp: split)
  moreover have "List.map_filter line_entry ?ls = map (\<lambda>(k, v). (k, Str v)) kvs"
    using assms(2) by (induction kvs) (auto simp: List.map_filter_simps plain_line split_beta)
  ultimately show ?thesis
    by (simp add: new_whoami_def lossy_valid split whoami_lines)
qed

theorem whoami_roundtrip_witness:
  "new_whoami ''os=mac\<newline>os=a=b'' ''os'' = Some (Str ''a=b'')"
proof -
  have "\<forall>kv\<in>set [(''os'', ''mac''), (''os'', ''a=b'')]. plain_tag kv"
    by (simp add: plain_tag_def ascii_valid str_trim_graphic graphic_def)
  from whoami_roundtrip [OF _ this] show ?thesis by (simp add: tag_line_def)
qed

section \<open>The last error\<close>

text \<open>\<open>get_last_error\<close> gives the message of the last failing call of the thread, or the empty text
  when the message holds a NUL byte, and reading it does not change it.\<close>

lemma last_error_read:
  "get_last_error (set_last_error code msg r) =
     (set_last_error code msg r \<lparr>le_c_string := (if nul \<in> set msg then [] else msg), le_exposed_code := code\<rparr>,
      (if nul \<in> set msg then [] else msg), code) \<and>
   snd (get_last_error (fst (get_last_error r))) = snd (get_last_error r)"
  by (simp add: get_last_error_def set_last_error_def cstring_new_def Let_def)

section \<open>Queries\<close>

text \<open>The C values of an answer without NUL bytes.\<close>

definition plain_value :: "cfg_result \<Rightarrow> config_value" where
  "plain_value v = \<lparr>cv_key = kv_key (cr_value v), cv_content_type = kv_content_type (cr_value v),
     cv_value = kv_value (cr_value v),
     cv_reason = map_option (\<lambda>l. \<lparr>vr_pri = il_pri l, vr_is_neg = il_is_neg l, vr_link_path = il_link_path l,
       vr_rule_path = il_rule_path l, vr_res_path = il_abs_res_path l\<rparr>) (cr_reason v)\<rparr>"

lemma convert_plain: "nul_free v \<Longrightarrow> convert_value v = Ok (plain_value v)"
  by (cases "cr_reason v") (auto simp: convert_value_def convert_reason_def cstring_new_def nul_free_def plain_value_def)

lemma convert_plain_all: "\<forall>v\<in>set vs. nul_free v \<Longrightarrow> convert_get_cfg_output_value vs = Ok (map plain_value vs)"
  by (induction vs) (simp_all add: convert_get_cfg_output_value_def convert_plain)

lemma convert_value_Err:
  "convert_value v = Err e \<Longrightarrow> \<exists>p. e = StringConvertNulError (''nul byte found in provided data at position: '' @ nat_text p)"
  by (cases "cr_reason v") (auto simp: convert_value_def convert_reason_def cstring_new_def and_then_Err_iff split: if_splits)

lemma convert_not_plain:
  assumes "\<not> (\<forall>v\<in>set vs. nul_free v)"
  shows "\<exists>p. convert_get_cfg_output_value vs =
    Err (StringConvertNulError (''nul byte found in provided data at position: '' @ nat_text p))"
  using assms
proof (induction vs)
  case (Cons v vs)
  show ?case
  proof (cases "nul_free v")
    case True
    with Cons show ?thesis by (auto simp: convert_get_cfg_output_value_def convert_plain)
  next
    case False
    then have "\<nexists>c. convert_value v = Ok c" by (simp add: convert_value_Ok_iff)
    then obtain e where "convert_value v = Err e"
      using convert_value_no_unwind [of v] by (cases "convert_value v") auto
    with convert_value_Err [OF this] show ?thesis by (auto simp: convert_get_cfg_output_value_def)
  qed
qed simp

lemma keys_valid: "\<forall>k\<in>set ks. utf8_valid k \<Longrightarrow> try_map (\<lambda>k. from_utf8 k (e k)) ks = Ok ks"
  by (induction ks) (simp_all add: from_utf8_def)

lemma keys_invalid:
  assumes "k \<in> set ks" and "\<not> utf8_valid k"
  shows "\<exists>k\<in>set ks. \<not> utf8_valid k \<and> try_map (\<lambda>k. from_utf8 k (e k)) ks = Err (e k)"
  using assms
proof (induction ks)
  case (Cons a ks)
  show ?case
  proof (cases "utf8_valid a")
    case True
    with Cons obtain k' where "k' \<in> set ks" "\<not> utf8_valid k'" "try_map (\<lambda>k. from_utf8 k (e k)) ks = Err (e k')" by auto
    with True show ?thesis by (intro bexI [of _ k']) (simp_all add: from_utf8_def)
  qed (rule bexI [of _ a], simp_all add: from_utf8_def)
qed simp

lemma sample_answer:
  "querier_get insertion_sort_by [''r''] sample_mem mac_user [''k''] OverlaidView False =
     Ok [\<lparr>cr_reason = None, cr_value = sample_kv\<rparr>]"
proof -
  have "overlay_key sample_mem False ''k'' [sample_item] = [\<lparr>cr_reason = None, cr_value = sample_kv\<rparr>]"
    by (simp add: get_res_by_path_def sample_mem_def sample_stores sample_item_def sample_kv_def)
  then show ?thesis
    by (simp add: querier_get_eq [OF sample_index_ok] sample_active fetch_res_by_overlaid_view_def
        insertion_sort_by_def)
qed

lemma get_config_queries:
  "if \<forall>k\<in>set keys. utf8_valid k
   then (case get_cfg sorter ord nc w keys vm (ne \<noteq> 0) of
       Ok vals \<Rightarrow>
         if \<forall>v\<in>set vals. nul_free v
         then get_config sorter ord (Some nc) (Some w) keys vm ne r = (r, Ok (Some (map plain_value vals)))
         else (\<exists>p. get_config sorter ord (Some nc) (Some w) keys vm ne r = (set_last_error 0
           (''error convert string between cffi: nul byte found in provided data at position: '' @ nat_text p) r, Ok None))
     | Err e \<Rightarrow> get_config sorter ord (Some nc) (Some w) keys vm ne r = (set_last_error 0 (query_msg e) r, Ok None)
     | Panic \<Rightarrow> get_config sorter ord (Some nc) (Some w) keys vm ne r = (r, Panic)
     | Hang \<Rightarrow> get_config sorter ord (Some nc) (Some w) keys vm ne r = (r, Hang))
   else (\<exists>k\<in>set keys. \<not> utf8_valid k \<and> get_config sorter ord (Some nc) (Some w) keys vm ne r =
     (set_last_error 0 (''error convert string between cffi: '' @ utf8_error_text k) r, Ok None))"
proof (cases "\<forall>k\<in>set keys. utf8_valid k")
  case True
  then have keys: "convert_get_cfg_input_value (Some w) keys = Ok (w, keys)"
    by (simp add: convert_get_cfg_input_value_def keys_valid)
  have ne: "(if ne = 0 then False else True) = (ne \<noteq> 0)" by simp
  have call: "get_config sorter ord (Some nc) (Some w) keys vm ne r =
      (case get_cfg sorter ord nc w keys vm (ne \<noteq> 0) of
         Err e \<Rightarrow> (set_last_error 0 (query_msg e) r, Ok None)
       | Panic \<Rightarrow> (r, Panic)
       | Hang \<Rightarrow> (r, Hang)
       | Ok vals \<Rightarrow> or_null r ffi_msg (convert_get_cfg_output_value vals))"
    by (simp only: get_config_def config_call_def keys ne option.case res.case prod.case)
  show ?thesis
  proof (cases "get_cfg sorter ord nc w keys vm (ne \<noteq> 0)")
    case (Ok vals)
    show ?thesis
    proof (cases "\<forall>v\<in>set vals. nul_free v")
      case False
      from convert_not_plain [OF this] show ?thesis using True False Ok by (auto simp: call)
    qed (use True Ok in \<open>simp add: call convert_plain_all\<close>)
  qed (use True in \<open>simp_all add: call\<close>)
next
  case False
  then obtain k where "k \<in> set keys" "\<not> utf8_valid k" by blast
  from keys_invalid [OF this, where e = "\<lambda>k. StringConvertUtf8Error (utf8_error_text k)"]
  obtain k' where "k' \<in> set keys" "\<not> utf8_valid k'"
    "try_map (\<lambda>k. from_utf8 k (StringConvertUtf8Error (utf8_error_text k))) keys =
      Err (StringConvertUtf8Error (utf8_error_text k'))" by blast
  with False show ?thesis
    by (auto simp: get_config_def config_call_def convert_get_cfg_input_value_def)
qed

text \<open>C33. \<open>get_config\<close> on every branch: a null namespace or client context panics; a key that is not
  text, an error of the query and a part of a value with a NUL byte each make the whole result null and
  are the last error; otherwise the values are those of the answer, and the last error is as before.\<close>

theorem get_config_outcome:
  "get_config sorter ord None whoami keys vm ne r = (r, Panic) \<and>
   get_config sorter ord (Some nc) None keys vm ne r = (r, Panic) \<and>
   (if \<forall>k\<in>set keys. utf8_valid k
    then (case get_cfg sorter ord nc w keys vm (ne \<noteq> 0) of
        Ok vals \<Rightarrow>
          if \<forall>v\<in>set vals. nul_free v
          then get_config sorter ord (Some nc) (Some w) keys vm ne r = (r, Ok (Some (map plain_value vals)))
          else (\<exists>p. get_config sorter ord (Some nc) (Some w) keys vm ne r = (set_last_error 0
            (''error convert string between cffi: nul byte found in provided data at position: '' @ nat_text p) r, Ok None))
      | Err e \<Rightarrow> get_config sorter ord (Some nc) (Some w) keys vm ne r = (set_last_error 0 (query_msg e) r, Ok None)
      | Panic \<Rightarrow> get_config sorter ord (Some nc) (Some w) keys vm ne r = (r, Panic)
      | Hang \<Rightarrow> get_config sorter ord (Some nc) (Some w) keys vm ne r = (r, Hang))
    else (\<exists>k\<in>set keys. \<not> utf8_valid k \<and> get_config sorter ord (Some nc) (Some w) keys vm ne r =
      (set_last_error 0 (''error convert string between cffi: '' @ utf8_error_text k) r, Ok None)))"
  using get_config_queries [of keys sorter ord nc w vm ne r]
  by (simp add: get_config_def config_call_def convert_get_cfg_input_value_def)

theorem get_config_outcome_witness:
  "get_config insertion_sort_by [''r''] (Some (cc_store (root_center NoNotify None) ! 0)) (Some mac_user) [''k'']
     OverlaidView 0 no_last_error = (no_last_error, Ok (Some [\<lparr>cv_key = ''k'', cv_content_type = ''text'',
       cv_value = ''v'', cv_reason = None\<rparr>]))"
proof -
  have "cc_store (root_center NoNotify None) ! 0 = namespace_center_new ''/'' sample_mem NoNotify None"
    by (simp add: root_center_def sample_mem_def)
  moreover have "get_cfg insertion_sort_by [''r''] (namespace_center_new ''/'' sample_mem NoNotify None) mac_user
      [''k''] OverlaidView ((0 :: 8 word) \<noteq> 0) = Ok [\<lparr>cr_reason = None, cr_value = sample_kv\<rparr>]"
    by (simp add: get_cfg_def namespace_center_new_def sample_answer)
  ultimately show ?thesis
    using get_config_outcome [of insertion_sort_by "[''r'']" None "[''k'']" OverlaidView 0 no_last_error
        "namespace_center_new ''/'' sample_mem NoNotify None" mac_user]
    by (simp add: ascii_valid nul_free_def sample_kv_def nul_def plain_value_def)
qed

section \<open>Creation of a client and of namespaces\<close>

text \<open>What a configuration asks for, when not for the git backend: the path of the directory, or what is
  wrong with it.\<close>

definition config_field ::
  "'j serde_value \<Rightarrow> (string \<Rightarrow> 'j option) \<Rightarrow> string \<Rightarrow> string \<Rightarrow> string \<Rightarrow> string + string" where
  "config_field J obj field missing not_str =
     (case obj field of
        None \<Rightarrow> Inl (''error building backend from config: '' @ missing)
      | Some v \<Rightarrow>
          (case value_as_str J v of
             None \<Rightarrow> Inl (''error building backend from config: '' @ not_str)
           | Some s \<Rightarrow> Inr s))"

definition fs_config :: "'j serde_value \<Rightarrow> string \<Rightarrow> string + path" where
  "fs_config J t =
     (case value_from_slice J t of
        Inl e \<Rightarrow> Inl e
      | Inr cfg \<Rightarrow>
          (case value_get J cfg ''storage_backend'' of
             None \<Rightarrow> Inl ''must set storage_backend field in the config file.''
           | Some b \<Rightarrow>
               (case as_object J b of
                  None \<Rightarrow> Inl ''error building backend from config: cfg format error''
                | Some obj \<Rightarrow>
                    (case config_field J obj ''type'' ''must have a `type` filed for storage_backend''
                            ''`storage_backend` must be string'' of
                       Inl e \<Rightarrow> Inl e
                     | Inr ty \<Rightarrow>
                         if ty = ''filesystem''
                         then config_field J obj ''path'' ''filesystem backend must have a `path` filed''
                                ''`path` must be string''
                         else Inl ''error building backend from config: not supported backend type''))))"

definition asks_for_git :: "'j serde_value \<Rightarrow> string \<Rightarrow> bool" where
  "asks_for_git J t \<longleftrightarrow> (\<exists>cfg b obj v. value_from_slice J t = Inr cfg \<and> value_get J cfg ''storage_backend'' = Some b \<and>
     as_object J b = Some obj \<and> obj ''type'' = Some v \<and> value_as_str J v = Some ''git-normal'')"

lemma client_of_config:
  assumes "\<not> asks_for_git J t"
  shows "new_config_center_client J os nt G (Some t) r =
    (case fs_config J t of
       Inl e \<Rightarrow> (set_last_error 0 e r, Ok None)
     | Inr p \<Rightarrow> or_null r cclib_msg (and_then (cfg_center_new (fs_storage os nt (fs_new p))) (\<lambda>cc.
         Ok (FsBackend (fs_new p), cc))))"
  using assms
  by (auto simp: new_config_center_client_def fs_config_def asks_for_git_def config_field_def cfg_str_def
      build_storage_backend_from_cfg_def storage_of_def split: sum.split option.split)

lemma fs_center_created:
  "or_null r cclib_msg (and_then (cfg_center_new (fs_storage os nt (fs_new p))) (\<lambda>cc. Ok (FsBackend (fs_new p), cc))) =
     (let head = path_join p ''head'' in
      case os_read os head of
        Inl e \<Rightarrow> (set_last_error 0 ''can not get newest config version'' r, Ok None)
      | Inr raw \<Rightarrow>
          if \<not> utf8_valid raw then (set_last_error 0 ''can not get newest config version'' r, Ok None)
          else if \<not> poll_watcher_new nt \<or> \<not> watch_path nt head
          then (set_last_error 0 (''error with storage backend: error while trying to watch config change: '' @
                  ''error while setting up update watcher'') r, Ok None)
          else (r, Ok (Some (FsBackend (fs_new p),
                 \<lparr>cc_namespaces = Map.empty, cc_namespaces_poisoned = False,
                  cc_current_version = \<lparr>v_name = str_trim raw, v_id = str_trim raw\<rparr>,
                  cc_version_poisoned = False, cc_store = []\<rparr>))))"
  by (cases "os_read os (path_join p ''head'')")
    (simp_all add: cfg_center_new_def fs_storage_def fs_get_current_version_def read_version_from_fs_def
      from_utf8_def fs_new_def or_err_def fs_set_update_cb_def watch_error_def Let_def)

text \<open>C36. Creating a client, on every branch but that of the git backend. A null text panics. A text that
  is no JSON, a missing or ill-formed \<open>storage_backend\<close> or \<open>type\<close>, another type, and a missing \<open>path\<close> or
  one that is no string, each make the result null and are the last error. With a path the client needs a
  readable head file that is text, which becomes the version, and a working watcher; the center starts
  without namespaces. Otherwise the result is null and the last error says which of the two failed.\<close>

theorem filesystem_client:
  assumes "\<not> asks_for_git J t"
  shows "new_config_center_client J os nt G None r = (r, Panic) \<and>
    new_config_center_client J os nt G (Some t) r =
    (case fs_config J t of
       Inl e \<Rightarrow> (set_last_error 0 e r, Ok None)
     | Inr p \<Rightarrow>
         (let head = path_join p ''head'' in
          case os_read os head of
            Inl e \<Rightarrow> (set_last_error 0 ''can not get newest config version'' r, Ok None)
          | Inr raw \<Rightarrow>
              if \<not> utf8_valid raw then (set_last_error 0 ''can not get newest config version'' r, Ok None)
              else if \<not> poll_watcher_new nt \<or> \<not> watch_path nt head
              then (set_last_error 0 (''error with storage backend: error while trying to watch config change: '' @
                      ''error while setting up update watcher'') r, Ok None)
              else (r, Ok (Some (FsBackend (fs_new p),
                     \<lparr>cc_namespaces = Map.empty, cc_namespaces_poisoned = False,
                      cc_current_version = \<lparr>v_name = str_trim raw, v_id = str_trim raw\<rparr>,
                      cc_version_poisoned = False, cc_store = []\<rparr>)))))"
  unfolding client_of_config [OF assms] fs_center_created by (simp add: new_config_center_client_def)

text \<open>A client configuration as an association of fields.\<close>

definition sample_config :: "string \<Rightarrow> doc serde_value" where
  "sample_config p = \<lparr>value_from_slice = (\<lambda>t. Inr (DObj [(''storage_backend'',
       DObj [(''type'', DText ''filesystem''), (''path'', DText p)])])),
     value_get = (\<lambda>d f. doc_field f d),
     as_object = (\<lambda>d. case d of DObj fs \<Rightarrow> Some (map_of fs) | _ \<Rightarrow> None),
     value_as_str = doc_text\<rparr>"

theorem filesystem_client_witness:
  "\<forall>G. new_config_center_client (sample_config ''/d'') (tree_os (deploy_tree ''v1'')) sample_notify G (Some []) no_last_error =
    (no_last_error, Ok (Some (FsBackend sample_backend, first_center)))"
proof
  fix G
  have "\<not> asks_for_git (sample_config ''/d'') []" by (simp add: asks_for_git_def sample_config_def)
  moreover have "fs_config (sample_config ''/d'') [] = Inr ''/d''"
    by (simp add: fs_config_def config_field_def sample_config_def)
  moreover have "os_read (tree_os (deploy_tree ''v1'')) ''/d/head'' = Inr ''v1''"
    by (simp add: tree_os_def deploy_tree_def path_eval)
  ultimately show "new_config_center_client (sample_config ''/d'') (tree_os (deploy_tree ''v1'')) sample_notify G (Some []) no_last_error =
    (no_last_error, Ok (Some (FsBackend sample_backend, first_center)))"
    using filesystem_client [of "sample_config ''/d''" "[]" "tree_os (deploy_tree ''v1'')" sample_notify G no_last_error]
    by (simp add: path_join_def has_root_def ascii_valid sample_notify_def sample_backend_def
        first_center_def sample_version_def str_trim_graphic graphic_def)
qed

text \<open>C38. Over the filesystem, a namespace with a rule file that does not parse is not created: the
  center is unchanged, the result is null, and the last error blames the git backend twice before it
  names the defect of the first such file.\<close>

theorem bad_rule_reported:
  assumes "\<forall>n\<in>set ks. good_name n \<and> utf8_valid n"
    and "is_dir_node (fs_dir_of root b (cc_current_version cc) ''rules'' ks)"
    and "parse_all (rule_load_from_slice X) (keyed ks (fs_dir_of root b (cc_current_version cc) ''rules'' ks)) = Err e"
    and "\<not> cc_version_poisoned cc"
  shows "ffi_create_namespace X (fs_storage (tree_os root) nt b) (Some cc) (Some (ns_name ks)) level cb r =
    (Some cc, set_last_error 0 (''error with inmemory index: error while building index: '' @
       ''error while operating on git backend: error while operating on git backend: '' @ data_loader_msg e) r, Ok None)"
proof -
  have "utf8_valid (ns_name ks)"
  proof -
    have "utf8_valid (join_on slash ks)" using assms(1) by (intro utf8_valid_join_on) auto
    then show ?thesis by (simp add: ns_name_def abs_of_def utf8_valid_ascii_Cons utf8_valid_at_ascii)
  qed
  moreover have "starts_with (ns_name ks) ''/''" "ends_with (ns_name ks) ''/''"
    by (simp_all add: ns_name_def abs_of_def starts_with_def ends_with_def)
  moreover have "mem_storage_new X (fs_storage (tree_os root) nt b) (ns_name ks) (cc_current_version cc) =
      Err (IndexStorageError (WalkDirError (WalkLoaderError e)))"
    using dir_listed [OF assms(2)] load_dirs(1) [OF assms(1), of root b X nt] assms(3)
    by (simp add: mem_storage_new_def index_load_def dir_objects_def)
  ultimately show ?thesis
    using assms(4) by (simp add: ffi_create_namespace_def create_namespace_scoped_cfg_center_def)
qed

theorem bad_rule_reported_witness:
  "ffi_create_namespace (doc_crates []) (deploy ''v1'') (Some first_center) (Some ''/'') NoNotify None no_last_error =
    (Some first_center, set_last_error 0 (''error with inmemory index: error while building index: '' @
       ''error while operating on git backend: error while operating on git backend: '' @
       data_loader_msg (UnmarshalError ''missing field'')) no_last_error, Ok None)"
proof -
  have v: "cc_current_version first_center = sample_version" "\<not> cc_version_poisoned first_center"
    by (simp_all add: first_center_def)
  have "rule_load_from_slice (doc_crates []) ''R'' = Err (UnmarshalError ''missing field'')"
    by (simp add: load_eval)
  then have "parse_all (rule_load_from_slice (doc_crates [])) (keyed [] (Dir [(''r'', File ''R'')])) =
      Err (UnmarshalError ''missing field'')"
    by (simp add: dir_eval)
  moreover have "ns_name [] = ''/''" by (simp add: ns_name_def)
  moreover have "is_dir_node (fs_dir_of (deploy_tree ''v1'') sample_backend (cc_current_version first_center) ''rules'' [])"
    using deploy_subtree [of sample_version "''v1''"] v by simp
  ultimately show ?thesis
    using bad_rule_reported [of "[]" "deploy_tree ''v1''" sample_backend first_center "doc_crates []"
        "UnmarshalError ''missing field''" sample_notify NoNotify None no_last_error]
      deploy_subtree(1) [of sample_version "''v1''"] v
    by (simp only: deploy_def) simp
qed

end
