(* ===== verification/Ffi_Memory.thy ===== *)
theory Ffi_Memory
  imports Ffi
begin

text \<open>
  The memory that \<open>src/ffi.rs\<close> hands to C: the tags of a client, and the results of its
  queries: \<open>convert_get_cfg_output_value\<close> with every allocation, the \<open>Drop\<close> implementations and
  \<open>free_config_values\<close>. A heap is the list of the live
  allocations, newest first; the allocator is an argument. Freeing or reading what is not there is
  undefined behaviour, which is \<open>None\<close>.
\<close>

section \<open>The heap\<close>

type_synonym addr = nat

text \<open>\<open>ConfigValueReason\<close>, \<open>ConfigValue\<close> and the objects that raw pointers lead to; the pointer of a
  \<open>ConfigValues\<close> may be null.\<close>

record raw_reason =
  rr_pri :: f32
  rr_is_neg :: bool
  rr_link_path :: addr
  rr_rule_path :: addr
  rr_res_path :: addr

record raw_value =
  rv_key :: addr
  rv_content_type :: addr
  rv_value :: addr
  rv_reason :: "addr option"

record raw_values =
  rvs_len :: nat
  rvs_ptr :: "addr option"

datatype block =
    StringBlock string
  | ReasonBlock raw_reason
  | BufferBlock "raw_value list"
  | ValuesBlock raw_values
  | WhoAmIBlock match_context

type_synonym heap = "(addr \<times> block) list"

type_synonym allocator = "heap \<Rightarrow> addr"

abbreviation used :: "heap \<Rightarrow> addr set" where
  "used h \<equiv> fst ` set h"

definition deref :: "addr \<Rightarrow> heap \<Rightarrow> block option" where
  "deref a h = map_of h a"

definition release :: "addr \<Rightarrow> heap \<Rightarrow> heap option" where
  "release a h = (case deref a h of None \<Rightarrow> None | Some b \<Rightarrow> Some (filter (\<lambda>(x, b). x \<noteq> a) h))"

definition store_at :: "addr \<Rightarrow> block \<Rightarrow> heap \<Rightarrow> heap" where
  "store_at a b h = map (\<lambda>(x, c). (x, if x = a then b else c)) h"

text \<open>\<open>CString::new(s)?.into_raw()\<close>: the string is allocated when it has no NUL byte.\<close>

type_synonym ('a, 'e) alloc_call = "heap \<times> ('a, 'e) res"

definition cstring_into_raw :: "allocator \<Rightarrow> string \<Rightarrow> heap \<Rightarrow> (addr, ffi_error) alloc_call" where
  "cstring_into_raw new s h =
     (case cstring_new s of
        Ok t \<Rightarrow> ((new h, StringBlock t) # h, Ok (new h))
      | Err e \<Rightarrow> (h, Err e) | Panic \<Rightarrow> (h, Panic) | Hang \<Rightarrow> (h, Hang))"

fun alloc_then :: "('a, 'e) alloc_call \<Rightarrow> ('a \<Rightarrow> heap \<Rightarrow> ('b, 'e) alloc_call) \<Rightarrow> ('b, 'e) alloc_call" where
  "alloc_then (h, Ok x) f = f x h"
| "alloc_then (h, Err e) f = (h, Err e)"
| "alloc_then (h, Panic) f = (h, Panic)"
| "alloc_then (h, Hang) f = (h, Hang)"

section \<open>The tags of a client\<close>

text \<open>\<open>Box::into_raw\<close> of the tags that \<open>new_whoami\<close> reads, and \<open>Box::from_raw\<close>, dropped at once.\<close>

definition whoami_into_raw :: "allocator \<Rightarrow> string \<Rightarrow> heap \<Rightarrow> heap \<times> addr" where
  "whoami_into_raw new val h = ((new h, WhoAmIBlock (new_whoami val)) # h, new h)"

definition free_whoami :: "addr option \<Rightarrow> heap \<Rightarrow> heap option" where
  "free_whoami whoami h =
     (case whoami of
        None \<Rightarrow> None
      | Some a \<Rightarrow> (case deref a h of Some (WhoAmIBlock tags) \<Rightarrow> release a h | _ \<Rightarrow> None))"

section \<open>Handing a result out\<close>

text \<open>What \<open>?\<close> leaves behind is not dropped: the strings are raw pointers already.\<close>

definition reason_into_raw :: "allocator \<Rightarrow> idx_link_item \<Rightarrow> heap \<Rightarrow> (addr, ffi_error) alloc_call" where
  "reason_into_raw new l h =
     alloc_then (cstring_into_raw new (il_rule_path l) h) (\<lambda>rule_path h.
     alloc_then (cstring_into_raw new (il_link_path l) h) (\<lambda>link_path h.
     alloc_then (cstring_into_raw new (il_abs_res_path l) h) (\<lambda>res_path h.
       ((new h, ReasonBlock \<lparr>rr_pri = il_pri l, rr_is_neg = il_is_neg l, rr_link_path = link_path,
          rr_rule_path = rule_path, rr_res_path = res_path\<rparr>) # h, Ok (new h)))))"

definition value_into_raw :: "allocator \<Rightarrow> cfg_result \<Rightarrow> heap \<Rightarrow> (raw_value, ffi_error) alloc_call" where
  "value_into_raw new v h =
     alloc_then (case cr_reason v of
                   None \<Rightarrow> (h, Ok None)
                 | Some l \<Rightarrow> alloc_then (reason_into_raw new l h) (\<lambda>a h. (h, Ok (Some a)))) (\<lambda>reason h.
     alloc_then (cstring_into_raw new (kv_content_type (cr_value v)) h) (\<lambda>content_type h.
     alloc_then (cstring_into_raw new (kv_key (cr_value v)) h) (\<lambda>key h.
     alloc_then (cstring_into_raw new (kv_value (cr_value v)) h) (\<lambda>val h.
       (h, Ok \<lparr>rv_key = key, rv_content_type = content_type, rv_value = val, rv_reason = reason\<rparr>)))))"

text \<open>The loop, with the values pushed so far.\<close>

fun push_values ::
  "allocator \<Rightarrow> cfg_result list \<Rightarrow> raw_value list \<Rightarrow> heap \<Rightarrow> heap \<times> raw_value list \<times> (unit, ffi_error) res" where
  "push_values new [] array h = (h, array, Ok ())"
| "push_values new (v # vs) array h =
     (case value_into_raw new v h of
        (h, Ok item) \<Rightarrow> push_values new vs (array @ [item]) h
      | (h, Err e) \<Rightarrow> (h, array, Err e)
      | (h, Panic) \<Rightarrow> (h, array, Panic)
      | (h, Hang) \<Rightarrow> (h, array, Hang))"

section \<open>Taking it back\<close>

definition free_cstring :: "addr \<Rightarrow> heap \<Rightarrow> heap option" where
  "free_cstring a h = (case deref a h of Some (StringBlock s) \<Rightarrow> release a h | _ \<Rightarrow> None)"

definition drop_reason :: "raw_reason \<Rightarrow> heap \<Rightarrow> heap option" where
  "drop_reason r h =
     Option.bind (free_cstring (rr_link_path r) h) (\<lambda>h.
     Option.bind (free_cstring (rr_rule_path r) h) (free_cstring (rr_res_path r)))"

definition free_reason :: "addr \<Rightarrow> heap \<Rightarrow> heap option" where
  "free_reason a h =
     (case deref a h of
        Some (ReasonBlock r) \<Rightarrow> Option.bind (drop_reason r h) (release a)
      | _ \<Rightarrow> None)"

definition drop_value :: "raw_value \<Rightarrow> heap \<Rightarrow> heap option" where
  "drop_value v h =
     Option.bind (free_cstring (rv_key v) h) (\<lambda>h.
     Option.bind (free_cstring (rv_content_type v) h) (\<lambda>h.
     Option.bind (free_cstring (rv_value v) h) (\<lambda>h.
       case rv_reason v of None \<Rightarrow> Some h | Some a \<Rightarrow> free_reason a h)))"

fun drop_values :: "raw_value list \<Rightarrow> heap \<Rightarrow> heap option" where
  "drop_values [] h = Some h"
| "drop_values (v # vs) h = Option.bind (drop_value v h) (drop_values vs)"

text \<open>A vector: its items, then its buffer, which exists when the capacity is not zero.\<close>

definition drop_vec :: "nat \<Rightarrow> raw_value list \<Rightarrow> addr \<Rightarrow> heap \<Rightarrow> heap option" where
  "drop_vec capacity items buf h =
     Option.bind (drop_values items h) (\<lambda>h. if capacity = 0 then Some h else release buf h)"

text \<open>\<open>Vec::from_raw_parts(ptr, len, len)\<close>, dropped at once.\<close>

definition drop_raw_values :: "raw_values \<Rightarrow> heap \<Rightarrow> heap option" where
  "drop_raw_values vs h =
     (case rvs_ptr vs of
        None \<Rightarrow> Some h
      | Some buf \<Rightarrow>
          if rvs_len vs = 0 then Some h
          else (case deref buf h of
                  Some (BufferBlock items) \<Rightarrow>
                    if length items = rvs_len vs then drop_vec (rvs_len vs) items buf h else None
                | _ \<Rightarrow> None))"

definition free_config_values :: "addr option \<Rightarrow> heap \<Rightarrow> heap option" where
  "free_config_values v h =
     (case v of
        None \<Rightarrow> None
      | Some p \<Rightarrow>
          (case deref p h of
             Some (ValuesBlock vs) \<Rightarrow> Option.bind (drop_raw_values vs h) (release p)
           | _ \<Rightarrow> None))"

text \<open>An empty vector has no buffer; its pointer is the alignment of a \<open>ConfigValue\<close>.\<close>

definition dangling :: addr where
  "dangling = 8"

definition output_into_raw :: "allocator \<Rightarrow> cfg_result list \<Rightarrow> heap \<Rightarrow> (addr, ffi_error) alloc_call option" where
  "output_into_raw new vals h =
     (let (h, buf) = (if vals = [] then (h, dangling) else ((new h, BufferBlock []) # h, new h)) in
      case push_values new vals [] h of
        (h, items, Ok _) \<Rightarrow>
          (let h = (if items = [] then h else store_at buf (BufferBlock items) h);
               p = new h in
           Some ((p, ValuesBlock \<lparr>rvs_len = length items, rvs_ptr = Some buf\<rparr>) # h, Ok p))
      | (h, items, Err e) \<Rightarrow> map_option (\<lambda>h. (h, Err e)) (drop_vec (length vals) items buf h)
      | (h, items, Panic) \<Rightarrow> Some (h, Panic)
      | (h, items, Hang) \<Rightarrow> Some (h, Hang))"

section \<open>Reading a result\<close>

text \<open>What a C client reads through the pointers.\<close>

definition read_cstring :: "addr \<Rightarrow> heap \<Rightarrow> string option" where
  "read_cstring a h = (case deref a h of Some (StringBlock s) \<Rightarrow> Some s | _ \<Rightarrow> None)"

definition read_reason :: "addr \<Rightarrow> heap \<Rightarrow> config_value_reason option" where
  "read_reason a h =
     (case deref a h of
        Some (ReasonBlock r) \<Rightarrow>
          Option.bind (read_cstring (rr_link_path r) h) (\<lambda>link_path.
          Option.bind (read_cstring (rr_rule_path r) h) (\<lambda>rule_path.
          Option.bind (read_cstring (rr_res_path r) h) (\<lambda>res_path.
            Some \<lparr>vr_pri = rr_pri r, vr_is_neg = rr_is_neg r, vr_link_path = link_path,
                  vr_rule_path = rule_path, vr_res_path = res_path\<rparr>)))
      | _ \<Rightarrow> None)"

definition read_value :: "raw_value \<Rightarrow> heap \<Rightarrow> config_value option" where
  "read_value v h =
     Option.bind (read_cstring (rv_key v) h) (\<lambda>key.
     Option.bind (read_cstring (rv_content_type v) h) (\<lambda>content_type.
     Option.bind (read_cstring (rv_value v) h) (\<lambda>val.
     Option.bind (case rv_reason v of None \<Rightarrow> Some None | Some a \<Rightarrow> map_option Some (read_reason a h)) (\<lambda>reason.
       Some \<lparr>cv_key = key, cv_content_type = content_type, cv_value = val, cv_reason = reason\<rparr>))))"

fun read_all :: "raw_value list \<Rightarrow> heap \<Rightarrow> config_value list option" where
  "read_all [] h = Some []"
| "read_all (v # vs) h = Option.bind (read_value v h) (\<lambda>c. map_option ((#) c) (read_all vs h))"

definition read_values :: "addr \<Rightarrow> heap \<Rightarrow> config_value list option" where
  "read_values p h =
     (case deref p h of
        Some (ValuesBlock vs) \<Rightarrow>
          (case rvs_ptr vs of
             None \<Rightarrow> None
           | Some buf \<Rightarrow>
               if rvs_len vs = 0 then Some []
               else (case deref buf h of Some (BufferBlock items) \<Rightarrow> read_all items h | _ \<Rightarrow> None))
      | _ \<Rightarrow> None)"

section \<open>Chunks of memory\<close>

text \<open>A piece of the heap that nothing else touches: an operation that takes just it away, and one that
  reads just it, wherever it lies.\<close>

definition apart :: "heap \<Rightarrow> heap \<Rightarrow> bool" where
  "apart m h \<longleftrightarrow> used m \<inter> used h = {}"

lemma apart_simps [simp]:
  "apart [] h" "apart m []"
  "apart (x # m) h \<longleftrightarrow> fst x \<notin> used h \<and> apart m h"
  "apart m (x # h) \<longleftrightarrow> fst x \<notin> used m \<and> apart m h"
  "apart (m @ m') h \<longleftrightarrow> apart m h \<and> apart m' h"
  "apart m (h @ h') \<longleftrightarrow> apart m h \<and> apart m h'"
  by (auto simp: apart_def)

definition disposes :: "(heap \<Rightarrow> heap option) \<Rightarrow> heap \<Rightarrow> bool" where
  "disposes d m \<longleftrightarrow> (\<forall>pre post. apart m (pre @ post) \<longrightarrow> d (pre @ m @ post) = Some (pre @ post))"

definition observes :: "(heap \<Rightarrow> 'a option) \<Rightarrow> heap \<Rightarrow> 'a \<Rightarrow> bool" where
  "observes r m x \<longleftrightarrow> (\<forall>pre post. apart m (pre @ post) \<longrightarrow> r (pre @ m @ post) = Some x)"

lemma disposesD: "\<lbrakk>disposes d m; apart m (pre @ post)\<rbrakk> \<Longrightarrow> d (pre @ m @ post) = Some (pre @ post)"
  by (simp add: disposes_def)

lemma observesD: "\<lbrakk>observes r m x; apart m (pre @ post)\<rbrakk> \<Longrightarrow> r (pre @ m @ post) = Some x"
  by (simp add: observes_def)

lemma apart_sym: "apart m h \<longleftrightarrow> apart h m"
  by (auto simp: apart_def)

lemma disposes_Cons:
  assumes "disposes (drop_value it) m" and "disposes (drop_values its) m'" and "apart m' m"
  shows "disposes (drop_values (it # its)) (m' @ m)"
  unfolding disposes_def
proof (intro allI impI)
  fix pre post assume a: "apart (m' @ m) (pre @ post)"
  have "drop_value it ((pre @ m') @ m @ post) = Some ((pre @ m') @ post)"
    using a assms(3) apart_sym by (intro disposesD [OF assms(1)]) auto
  moreover have "drop_values its (pre @ m' @ post) = Some (pre @ post)"
    using a by (intro disposesD [OF assms(2)]) simp
  ultimately show "drop_values (it # its) (pre @ (m' @ m) @ post) = Some (pre @ post)" by simp
qed

lemma deref_simps [simp]:
  "deref a [] = None"
  "deref a ((x, b) # h) = (if x = a then Some b else deref a h)"
  "a \<notin> used pre \<Longrightarrow> deref a (pre @ h) = deref a h"
  by (simp_all add: deref_def, induction pre) auto

lemma filter_unused [simp]: "a \<notin> used h \<Longrightarrow> filter (\<lambda>(x, b). x \<noteq> a) h = h"
  by (induction h) auto

lemma store_at_simps [simp]:
  "a \<notin> used h \<Longrightarrow> store_at a b h = h"
  "store_at a b ((x, c) # h) = (x, if x = a then b else c) # store_at a b h"
  "store_at a b (h @ h') = store_at a b h @ store_at a b h'"
  by (induction h) (auto simp: store_at_def)

section \<open>What an error leaves behind\<close>

text \<open>The strings of a value that are allocated before one with a NUL byte stops the conversion.\<close>

definition converted :: "string list \<Rightarrow> nat" where
  "converted ss = length (takeWhile (\<lambda>s. nul \<notin> set s) ss)"

definition reason_leak :: "idx_link_item \<Rightarrow> nat" where
  "reason_leak l = converted [il_rule_path l, il_link_path l, il_abs_res_path l]"

definition value_leak :: "cfg_result \<Rightarrow> nat" where
  "value_leak v =
     (let strings = converted [kv_content_type (cr_value v), kv_key (cr_value v), kv_value (cr_value v)] in
      case cr_reason v of
        None \<Rightarrow> strings
      | Some l \<Rightarrow> if reason_leak l < 3 then reason_leak l else 4 + strings)"

definition output_leak :: "cfg_result list \<Rightarrow> nat" where
  "output_leak vals = (case filter (\<lambda>v. \<not> nul_free v) vals of [] \<Rightarrow> 0 | v # vs \<Rightarrow> value_leak v)"

section \<open>Fresh memory\<close>

text \<open>Several strings in a row; the code always converts three.\<close>

fun strings_into_raw :: "allocator \<Rightarrow> string list \<Rightarrow> heap \<Rightarrow> (addr list, ffi_error) alloc_call" where
  "strings_into_raw new [] h = (h, Ok [])"
| "strings_into_raw new (s # ss) h =
     alloc_then (cstring_into_raw new s h) (\<lambda>a h.
     alloc_then (strings_into_raw new ss h) (\<lambda>as h. (h, Ok (a # as))))"

lemma alloc_three:
  "alloc_then (cstring_into_raw new s h) (\<lambda>a h. alloc_then (cstring_into_raw new t h) (\<lambda>b h.
     alloc_then (cstring_into_raw new u h) (\<lambda>c h. f a b c h))) =
   alloc_then (strings_into_raw new [s, t, u] h) (\<lambda>as h. f (as ! 0) (as ! 1) (as ! 2) h)"
  by (simp add: cstring_into_raw_def split: res.split)

lemma cstring_plain: "nul \<notin> set s \<Longrightarrow> cstring_new s = Ok s"
  by (simp add: cstring_new_def)

text \<open>An allocator answers with an address that is not in use.\<close>

locale memory =
  fixes new :: allocator
  assumes new_unused: "new h \<notin> used h"
begin

lemma strings_Ok:
  assumes "\<forall>s\<in>set ss. nul \<notin> set s"
  shows "\<exists>as. length as = length ss \<and> distinct as \<and> set as \<inter> used h = {} \<and>
    strings_into_raw new ss h = (rev (zip as (map StringBlock ss)) @ h, Ok as)"
  using assms
proof (induction ss arbitrary: h)
  case (Cons s ss)
  let ?a = "new h"
  from Cons obtain as where "length as = length ss" "distinct as" "set as \<inter> used ((?a, StringBlock s) # h) = {}"
    "strings_into_raw new ss ((?a, StringBlock s) # h) =
      (rev (zip as (map StringBlock ss)) @ (?a, StringBlock s) # h, Ok as)"
    by (metis list.set_intros(2))
  with Cons.prems new_unused [of h] show ?case
    by (intro exI [of _ "?a # as"]) (simp add: cstring_into_raw_def cstring_new_def)
qed simp

lemma three_Ok:
  assumes "nul \<notin> set s" and "nul \<notin> set t" and "nul \<notin> set u"
  shows "\<exists>a b c. distinct [a, b, c] \<and> {a, b, c} \<inter> used h = {} \<and>
    strings_into_raw new [s, t, u] h = ([(c, StringBlock u), (b, StringBlock t), (a, StringBlock s)] @ h, Ok [a, b, c])"
proof -
  obtain as where "length as = length [s, t, u]" "distinct as" "set as \<inter> used h = {}"
    "strings_into_raw new [s, t, u] h = (rev (zip as (map StringBlock [s, t, u])) @ h, Ok as)"
    using strings_Ok [of "[s, t, u]" h] assms by (metis empty_iff empty_set set_ConsD)
  moreover from this(1) obtain a b c where "as = [a, b, c]" by (auto simp: length_Suc_conv)
  ultimately show ?thesis by (intro exI [of _ a] exI [of _ b] exI [of _ c]) simp
qed

lemma strings_Err:
  assumes "try_map cstring_new ss = Err e"
  shows "\<exists>m. strings_into_raw new ss h = (m @ h, Err e) \<and> apart m h \<and> length m = converted ss \<and> converted ss < length ss"
  using assms
proof (induction ss arbitrary: h)
  case (Cons s ss)
  show ?case
  proof (cases "nul \<in> set s")
    case True
    with Cons.prems show ?thesis
      by (intro exI [of _ "[]"]) (simp add: cstring_into_raw_def cstring_new_def converted_def)
  next
    case False
    then have step: "cstring_into_raw new s h = ((new h, StringBlock s) # h, Ok (new h))"
      by (simp add: cstring_into_raw_def cstring_new_def)
    have "try_map cstring_new ss = Err e" using Cons.prems False cstring_plain [of s] by (simp add: and_then_Err_iff)
    from Cons.IH [OF this, of "(new h, StringBlock s) # h"] obtain m where
      "strings_into_raw new ss ((new h, StringBlock s) # h) = (m @ (new h, StringBlock s) # h, Err e)"
      "apart m ((new h, StringBlock s) # h)" "length m = converted ss" "converted ss < length ss" by blast
    with False step new_unused [of h] show ?thesis
      by (intro exI [of _ "m @ [(new h, StringBlock s)]"]) (simp add: converted_def)
  qed
qed simp

lemma reason_Ok:
  assumes "convert_reason l = Ok r"
  shows "\<exists>m a. reason_into_raw new l h = (m @ h, Ok a) \<and> apart m h \<and>
    disposes (free_reason a) m \<and> observes (read_reason a) m r \<and> length m = 4"
proof -
  let ?p = "il_rule_path l" and ?l = "il_link_path l" and ?s = "il_abs_res_path l"
  have nul: "nul \<notin> set ?p" "nul \<notin> set ?l" "nul \<notin> set ?s"
    using assms by (auto simp: convert_reason_def cstring_new_def split: if_splits)
  obtain a b c where abc: "distinct [a, b, c]" "{a, b, c} \<inter> used h = {}"
    "strings_into_raw new [?p, ?l, ?s] h = ([(c, StringBlock ?s), (b, StringBlock ?l), (a, StringBlock ?p)] @ h, Ok [a, b, c])"
    using three_Ok [OF nul] by blast
  let ?strings = "[(c, StringBlock ?s), (b, StringBlock ?l), (a, StringBlock ?p)]"
  obtain d where d: "d \<notin> used (?strings @ h)" "new (?strings @ h) = d" using new_unused by blast
  let ?r = "ReasonBlock \<lparr>rr_pri = il_pri l, rr_is_neg = il_is_neg l, rr_link_path = b, rr_rule_path = a, rr_res_path = c\<rparr>"
  let ?m = "(d, ?r) # ?strings"
  have "reason_into_raw new l h = (?m @ h, Ok d)"
    using d(2) by (simp only: reason_into_raw_def alloc_three abc(3)) simp
  moreover have "apart ?m h" using abc(2) d(1) by simp
  moreover have "disposes (free_reason d) ?m"
    using abc(1) d(1) by (simp add: disposes_def free_reason_def drop_reason_def free_cstring_def release_def image_Un)
  moreover have "observes (read_reason d) ?m r"
    using abc(1) d(1) assms nul
    by (simp add: observes_def read_reason_def read_cstring_def convert_reason_def cstring_new_def)
  moreover have "length ?m = 4" by simp
  ultimately show ?thesis by blast
qed

text \<open>The reason of a value, which may be absent.\<close>

lemma optional_reason_Ok:
  assumes "(case x of None \<Rightarrow> Ok None | Some l \<Rightarrow> and_then (convert_reason l) (\<lambda>y. Ok (Some y))) = Ok reason"
  shows "\<exists>m r. (case x of None \<Rightarrow> (h, Ok None)
        | Some l \<Rightarrow> alloc_then (reason_into_raw new l h) (\<lambda>a h. (h, Ok (Some a)))) = (m @ h, Ok r) \<and>
    apart m h \<and> disposes (\<lambda>h. case r of None \<Rightarrow> Some h | Some a \<Rightarrow> free_reason a h) m \<and>
    observes (\<lambda>h. case r of None \<Rightarrow> Some None | Some a \<Rightarrow> map_option Some (read_reason a h)) m reason \<and>
    length m = (if x = None then 0 else 4)"
proof (cases x)
  case None
  with assms show ?thesis by (intro exI [of _ "[]"] exI [of _ None]) (simp add: disposes_def observes_def)
next
  case (Some l)
  with assms obtain y where y: "convert_reason l = Ok y" "reason = Some y" by (auto simp: and_then_Ok_iff)
  from reason_Ok [OF y(1), of h] obtain m a where m: "reason_into_raw new l h = (m @ h, Ok a)" "apart m h" "length m = 4"
    "disposes (free_reason a) m" "observes (read_reason a) m y" by blast
  with Some y(2) show ?thesis by (intro exI [of _ m] exI [of _ "Some a"]) (simp add: observes_def)
qed

lemma value_Ok:
  assumes "convert_value v = Ok c"
  shows "\<exists>m it. value_into_raw new v h = (m @ h, Ok it) \<and> apart m h \<and>
    disposes (drop_value it) m \<and> observes (read_value it) m c"
proof -
  let ?c = "kv_content_type (cr_value v)" and ?k = "kv_key (cr_value v)" and ?v = "kv_value (cr_value v)"
  let ?reason = "case cr_reason v of None \<Rightarrow> Ok None | Some l \<Rightarrow> and_then (convert_reason l) (\<lambda>x. Ok (Some x))"
  obtain reason where reason: "?reason = Ok reason" and nul: "nul \<notin> set ?c" "nul \<notin> set ?k" "nul \<notin> set ?v"
    and c: "c = \<lparr>cv_key = ?k, cv_content_type = ?c, cv_value = ?v, cv_reason = reason\<rparr>"
    using assms by (auto simp: convert_value_def and_then_Ok_iff cstring_new_def split: if_splits)
  obtain m r where m: "(case cr_reason v of None \<Rightarrow> (h, Ok None)
        | Some l \<Rightarrow> alloc_then (reason_into_raw new l h) (\<lambda>a h. (h, Ok (Some a)))) = (m @ h, Ok r)"
    "apart m h" "disposes (\<lambda>h. case r of None \<Rightarrow> Some h | Some a \<Rightarrow> free_reason a h) m"
    "observes (\<lambda>h. case r of None \<Rightarrow> Some None | Some a \<Rightarrow> map_option Some (read_reason a h)) m reason"
    using optional_reason_Ok [OF reason, of h] by blast
  obtain x y z where xyz: "distinct [x, y, z]" "{x, y, z} \<inter> used (m @ h) = {}"
    "strings_into_raw new [?c, ?k, ?v] (m @ h) =
      ([(z, StringBlock ?v), (y, StringBlock ?k), (x, StringBlock ?c)] @ m @ h, Ok [x, y, z])"
    using three_Ok [OF nul] by blast
  let ?strings = "[(z, StringBlock ?v), (y, StringBlock ?k), (x, StringBlock ?c)]"
  let ?m = "?strings @ m"
  let ?it = "\<lparr>rv_key = y, rv_content_type = x, rv_value = z, rv_reason = r\<rparr>"
  have "value_into_raw new v h = (?m @ h, Ok ?it)"
    by (simp only: value_into_raw_def m(1) alloc_then.simps alloc_three xyz(3)) simp
  moreover have "apart ?m h" using m(2) xyz(2) by (simp add: image_Un)
  moreover have "disposes (drop_value ?it) ?m"
    using m(3) xyz(1,2) by (simp add: disposes_def drop_value_def free_cstring_def release_def image_Un)
  moreover have "observes (read_value ?it) ?m c"
    unfolding observes_def
  proof (intro allI impI)
    fix pre post assume a: "apart ?m (pre @ post)"
    have "(case r of None \<Rightarrow> Some None | Some a \<Rightarrow> map_option Some (read_reason a ((pre @ ?strings) @ m @ post))) = Some reason"
      by (rule observesD [OF m(4)]) (use a xyz(2) in \<open>simp add: image_Un\<close>)
    with a xyz(1,2) show "read_value ?it (pre @ ?m @ post) = Some c"
      by (cases r) (auto simp: read_value_def read_cstring_def c image_Un)
  qed
  ultimately show ?thesis by blast
qed

text \<open>The loop: the items of the result own what was allocated, and read as the values.\<close>

lemma push_Ok:
  assumes "try_map convert_value vs = Ok cs"
  shows "\<exists>m its. push_values new vs array h = (m @ h, array @ its, Ok ()) \<and> apart m h \<and> length its = length vs \<and>
    disposes (drop_values its) m \<and> observes (read_all its) m cs"
  using assms
proof (induction vs arbitrary: array h cs)
  case (Cons v vs)
  from Cons.prems obtain c cs' where c: "convert_value v = Ok c" "try_map convert_value vs = Ok cs'" "cs = c # cs'"
    by (auto simp: and_then_Ok_iff)
  from value_Ok [OF c(1), of h] obtain m it where m: "value_into_raw new v h = (m @ h, Ok it)" "apart m h"
    "disposes (drop_value it) m" "observes (read_value it) m c" by blast
  from Cons.IH [OF c(2), of "array @ [it]" "m @ h"] obtain m' its where m':
    "push_values new vs (array @ [it]) (m @ h) = (m' @ m @ h, array @ [it] @ its, Ok ())" "apart m' (m @ h)"
    "length its = length vs" "disposes (drop_values its) m'" "observes (read_all its) m' cs'" by auto
  have sym: "apart m m'" using m'(2) by (auto simp: apart_def)
  have "disposes (drop_values (it # its)) (m' @ m)"
    using m'(2) by (intro disposes_Cons m(3) m'(4)) simp
  moreover have "observes (read_all (it # its)) (m' @ m) cs"
    unfolding observes_def
  proof (intro allI impI)
    fix pre post assume a: "apart (m' @ m) (pre @ post)"
    have "read_value it ((pre @ m') @ m @ post) = Some c"
      using a sym by (intro observesD [OF m(4)]) simp
    moreover have "read_all its (pre @ m' @ m @ post) = Some cs'"
      using m'(2,5) a by (simp add: observes_def)
    ultimately show "read_all (it # its) (pre @ (m' @ m) @ post) = Some cs" by (simp add: c(3))
  qed
  ultimately show ?case
    using m(1,2) m'(1,2,3) by (intro exI [of _ "m' @ m"] exI [of _ "it # its"])
      (simp del: drop_values.simps read_all.simps)
qed (simp add: disposes_def observes_def)

text \<open>A result that converts: it reads as the values, and freeing it gives everything back.\<close>

lemma output_Ok:
  assumes "convert_get_cfg_output_value vals = Ok cs"
  shows "\<exists>h' p. output_into_raw new vals h = Some (h', Ok p) \<and> read_values p h' = Some cs \<and>
    free_config_values (Some p) h' = Some h \<and> p \<notin> used h"
proof (cases "vals = []")
  case True
  with assms show ?thesis
    using new_unused [of h]
    by (simp add: output_into_raw_def convert_get_cfg_output_value_def read_values_def free_config_values_def
        drop_raw_values_def release_def Let_def)
next
  case False
  define buf where "buf = new h"
  have buf: "buf \<notin> used h" by (simp add: buf_def new_unused)
  from push_Ok [OF assms [unfolded convert_get_cfg_output_value_def], of "[]" "(buf, BufferBlock []) # h"] obtain m its where
    m: "push_values new vals [] ((buf, BufferBlock []) # h) = (m @ (buf, BufferBlock []) # h, its, Ok ())"
    "apart m ((buf, BufferBlock []) # h)" "length its = length vals" "disposes (drop_values its) m"
    "observes (read_all its) m cs" by auto
  have its: "its \<noteq> []" using m(3) False by auto
  let ?h = "m @ (buf, BufferBlock its) # h"
  obtain p where p: "p \<notin> used ?h" "new ?h = p" using new_unused by blast
  let ?p = "(p, ValuesBlock \<lparr>rvs_len = length its, rvs_ptr = Some buf\<rparr>)"
  have out: "output_into_raw new vals h = Some (?p # ?h, Ok p)"
    using m(1,2) buf False its p(2) by (simp add: output_into_raw_def buf_def [symmetric])
  have read: "read_all its ([?p] @ m @ (buf, BufferBlock its) # h) = Some cs"
    by (rule observesD [OF m(5)]) (use m(2) p(1) in \<open>simp add: image_Un\<close>)
  have drop: "drop_values its ([?p] @ m @ (buf, BufferBlock its) # h) = Some ([?p] @ (buf, BufferBlock its) # h)"
    by (rule disposesD [OF m(4)]) (use m(2) p(1) in \<open>simp add: image_Un\<close>)
  have "read_values p (?p # ?h) = Some cs"
    using read p(1) m(2) its by (simp add: read_values_def image_Un)
  moreover have "free_config_values (Some p) (?p # ?h) = Some h"
    using drop p(1) m(2) its buf
    by (simp add: free_config_values_def drop_raw_values_def drop_vec_def release_def image_Un)
  moreover have "p \<notin> used h" using p(1) by (simp add: image_Un)
  ultimately show ?thesis using out by blast
qed

text \<open>The tags of a client are freed once, in any order with the other memory, and not read again.\<close>

lemma whoami_given_back:
  assumes "whoami_into_raw new val h = (h', a)"
  shows "deref a h' = Some (WhoAmIBlock (new_whoami val)) \<and> free_whoami (Some a) h' = Some h \<and>
    free_whoami (Some a) h = None"
proof -
  have "deref (new h) h = None" using new_unused [of h] by (simp add: deref_def map_of_eq_None_iff)
  then show ?thesis
    using assms new_unused [of h] by (auto simp: whoami_into_raw_def free_whoami_def release_def)
qed

text \<open>A conversion that fails: what was allocated for the value at hand stays, the values before it
  and the buffer are given back.\<close>

lemma reason_Err:
  assumes "convert_reason l = Err e"
  shows "\<exists>m. reason_into_raw new l h = (m @ h, Err e) \<and> apart m h \<and> length m = reason_leak l \<and> reason_leak l < 3"
proof -
  have "try_map cstring_new [il_rule_path l, il_link_path l, il_abs_res_path l] = Err e"
    using assms by (auto simp: convert_reason_def and_then_Err_iff)
  from strings_Err [OF this, of h] show ?thesis
    by (auto simp: reason_into_raw_def alloc_three reason_leak_def simp del: strings_into_raw.simps)
qed

lemma reason_whole: "convert_reason l = Ok r \<Longrightarrow> reason_leak l = 3"
  by (auto simp: convert_reason_def cstring_new_def reason_leak_def converted_def split: if_splits)

lemma value_Err:
  assumes "convert_value v = Err e"
  shows "\<exists>m. value_into_raw new v h = (m @ h, Err e) \<and> apart m h \<and> length m = value_leak v"
proof -
  let ?reason = "case cr_reason v of None \<Rightarrow> Ok None | Some l \<Rightarrow> and_then (convert_reason l) (\<lambda>x. Ok (Some x))"
  let ?strings = "[kv_content_type (cr_value v), kv_key (cr_value v), kv_value (cr_value v)]"
  show ?thesis
  proof (cases ?reason)
    case (Ok reason)
    obtain m r where m: "(case cr_reason v of None \<Rightarrow> (h, Ok None)
          | Some l \<Rightarrow> alloc_then (reason_into_raw new l h) (\<lambda>a h. (h, Ok (Some a)))) = (m @ h, Ok r)"
      "apart m h" "length m = (if cr_reason v = None then 0 else 4)"
      using optional_reason_Ok [OF Ok, of h] by blast
    have "try_map cstring_new ?strings = Err e"
      using assms Ok by (auto simp: convert_value_def and_then_Err_iff)
    from strings_Err [OF this, of "m @ h"] obtain m' where "strings_into_raw new ?strings (m @ h) = (m' @ m @ h, Err e)"
      "apart m' (m @ h)" "length m' = converted ?strings" by blast
    moreover have "value_leak v = (if cr_reason v = None then 0 else 4) + converted ?strings"
      using Ok by (auto simp: value_leak_def Let_def dest: reason_whole split: option.splits)
    ultimately show ?thesis
      using m by (intro exI [of _ "m' @ m"]) (simp add: value_into_raw_def alloc_three del: strings_into_raw.simps)
  next
    case (Err e')
    then obtain l where l: "cr_reason v = Some l" "convert_reason l = Err e'"
      by (auto simp: and_then_Err_iff split: option.splits)
    with assms have "e' = e" by (simp add: convert_value_def)
    with l reason_Err [of l e h] show ?thesis by (auto simp: value_into_raw_def value_leak_def)
  qed (use assms in \<open>simp_all add: convert_value_def\<close>)
qed

lemma push_Err:
  assumes "try_map convert_value vs = Err e"
  shows "\<exists>left m its. push_values new vs array h = (left @ m @ h, array @ its, Err e) \<and>
    apart left (m @ h) \<and> apart m h \<and> length left = output_leak vs \<and> disposes (drop_values its) m"
  using assms
proof (induction vs arbitrary: array h)
  case (Cons v vs)
  show ?case
  proof (cases "convert_value v")
    case (Ok c)
    from value_Ok [OF Ok, of h] obtain m it where m: "value_into_raw new v h = (m @ h, Ok it)" "apart m h"
      "disposes (drop_value it) m" by blast
    have "try_map convert_value vs = Err e" using Cons.prems Ok by (simp add: and_then_Err_iff)
    from Cons.IH [OF this, of "array @ [it]" "m @ h"] obtain left m' its where m':
      "push_values new vs (array @ [it]) (m @ h) = (left @ m' @ m @ h, array @ [it] @ its, Err e)"
      "apart left (m' @ m @ h)" "apart m' (m @ h)" "length left = output_leak vs" "disposes (drop_values its) m'" by auto
    have "nul_free v" using Ok convert_value_Ok_iff by blast
    then have "output_leak (v # vs) = output_leak vs" by (simp add: output_leak_def)
    with m m' disposes_Cons [OF m(3) m'(5)] show ?thesis
      by (intro exI [of _ left] exI [of _ "m' @ m"] exI [of _ "it # its"]) (simp del: drop_values.simps)
  next
    case (Err e')
    then have "e' = e" "\<not> nul_free v" using Cons.prems convert_value_Ok_iff [of v] by auto
    with Err value_Err [of v e h] obtain m where "value_into_raw new v h = (m @ h, Err e)" "apart m h" "length m = value_leak v"
      by blast
    with \<open>\<not> nul_free v\<close> show ?thesis
      by (intro exI [of _ m] exI [of _ "[]"]) (simp add: output_leak_def disposes_def)
  qed (use Cons.prems in simp_all)
qed simp

lemma output_Err:
  assumes "convert_get_cfg_output_value vals = Err e"
  shows "\<exists>left. output_into_raw new vals h = Some (left @ h, Err e) \<and> apart left h \<and> length left = output_leak vals"
proof -
  define buf where "buf = new h"
  have buf: "buf \<notin> used h" by (simp add: buf_def new_unused)
  have ne: "vals \<noteq> []" using assms by (auto simp: convert_get_cfg_output_value_def)
  from push_Err [OF assms [unfolded convert_get_cfg_output_value_def], of "[]" "(buf, BufferBlock []) # h"]
  obtain left m its where m: "push_values new vals [] ((buf, BufferBlock []) # h) = (left @ m @ (buf, BufferBlock []) # h, its, Err e)"
    "apart left (m @ (buf, BufferBlock []) # h)" "apart m ((buf, BufferBlock []) # h)" "length left = output_leak vals"
    "disposes (drop_values its) m" by auto
  have "drop_values its (left @ m @ (buf, BufferBlock []) # h) = Some (left @ (buf, BufferBlock []) # h)"
    using m(2,3) apart_sym [of left m] by (intro disposesD [OF m(5)]) simp
  then have "drop_vec (length vals) its buf (left @ m @ (buf, BufferBlock []) # h) = Some (left @ h)"
    using m(2) buf ne by (simp add: drop_vec_def release_def)
  with m(1,2,4) ne show ?thesis
    by (intro exI [of _ left]) (simp add: output_into_raw_def buf_def [symmetric])
qed

end

text \<open>An allocator: the address after the highest in use.\<close>

definition next_addr :: allocator where
  "next_addr h = Suc (foldr max (map fst h) 0)"

lemma foldr_max_ge: "a \<in> set xs \<Longrightarrow> a \<le> foldr max xs (0 :: nat)"
  by (induction xs) auto

interpretation bump: memory next_addr
  by unfold_locales (auto simp: next_addr_def dest!: foldr_max_ge [of _ "map fst _"] simp flip: set_map)

section \<open>Results given back, and what errors leak\<close>

lemma free_unused: "p \<notin> used h \<Longrightarrow> free_config_values (Some p) h = None"
  by (simp add: free_config_values_def deref_def map_of_eq_None_iff [THEN iffD2])

text \<open>C34. A result whose strings have no NUL byte: the pointer leads to the values that the conversion gives,
  \<open>free_config_values\<close> on it frees every allocation of the result once and nothing else, and freeing
  it again is undefined.\<close>

theorem result_given_back:
  assumes "memory new" and "\<forall>v\<in>set vals. nul_free v"
  shows "\<exists>cs h' p. convert_get_cfg_output_value vals = Ok cs \<and> output_into_raw new vals h = Some (h', Ok p) \<and>
    read_values p h' = Some cs \<and> free_config_values (Some p) h' = Some h \<and> free_config_values (Some p) h = None"
proof -
  obtain cs where "convert_get_cfg_output_value vals = Ok cs"
    using assms(2) convert_output_Ok_iff by blast
  with memory.output_Ok [OF assms(1) this, of h] free_unused show ?thesis by blast
qed

definition explained_value :: cfg_result where
  "explained_value =
     \<lparr>cr_reason = Some \<lparr>il_pri = 0, il_is_neg = False, il_rule_path = ''r'', il_abs_res_path = ''s'', il_link_path = ''l''\<rparr>,
      cr_value = \<lparr>kv_content_type = ''text'', kv_key = ''k'', kv_value = ''v''\<rparr>\<rparr>"

theorem result_given_back_witness:
  "\<exists>h' p. output_into_raw next_addr [explained_value, explained_value] [(3, StringBlock ''x'')] = Some (h', Ok p) \<and>
    read_values p h' \<noteq> None \<and> free_config_values (Some p) h' = Some [(3, StringBlock ''x'')]"
  using result_given_back [OF bump.memory_axioms, of "[explained_value, explained_value]" "[(3, StringBlock ''x'')]"]
  by (auto simp: explained_value_def nul_free_def nul_def)

text \<open>C35. A value with a NUL byte: the call fails without a pointer for the client to free, the values before
  it and the buffer are freed, but the strings of the value itself that were converted by then
  stay allocated for ever, together with its reason when that was complete.\<close>

theorem error_leaks:
  assumes "memory new" and "\<exists>v\<in>set vals. \<not> nul_free v"
  shows "\<exists>e left. convert_get_cfg_output_value vals = Err e \<and> output_into_raw new vals h = Some (left @ h, Err e) \<and>
    used left \<inter> used h = {} \<and> length left = output_leak vals"
proof -
  have "\<nexists>cs. convert_get_cfg_output_value vals = Ok cs" using assms(2) convert_output_Ok_iff by blast
  moreover have "convert_get_cfg_output_value vals \<noteq> Panic \<and> convert_get_cfg_output_value vals \<noteq> Hang"
    unfolding convert_get_cfg_output_value_def
    using try_map_no_Hang [of vals convert_value] try_map_Panic_elem [of convert_value vals] convert_value_no_unwind by blast
  ultimately obtain e where "convert_get_cfg_output_value vals = Err e"
    by (cases "convert_get_cfg_output_value vals") auto
  with memory.output_Err [OF assms(1) this, of h] show ?thesis by (auto simp: apart_def)
qed

text \<open>A value with a NUL byte in its content, after one without: its reason and two strings are lost.\<close>

definition nul_value :: cfg_result where
  "nul_value = explained_value\<lparr>cr_value := \<lparr>kv_content_type = ''text'', kv_key = ''k'', kv_value = [nul]\<rparr>\<rparr>"

theorem error_leaks_witness:
  "\<exists>e left. output_into_raw next_addr [explained_value, nul_value] [] = Some (left, Err e) \<and> length left = 6"
proof -
  have "output_leak [explained_value, nul_value] = 6"
    by (simp add: output_leak_def value_leak_def reason_leak_def converted_def nul_free_def explained_value_def
        nul_value_def nul_def)
  moreover have "\<exists>v\<in>set [explained_value, nul_value]. \<not> nul_free v" by (simp add: nul_free_def nul_value_def)
  ultimately show ?thesis
    using error_leaks [OF bump.memory_axioms, of "[explained_value, nul_value]" "[]"] by auto
qed

end
