(* ===== verification/Ffi_Handles.thy ===== *)
theory Ffi_Handles
  imports Ffi_Properties Center_Failures
begin

text \<open>
  The handles that \<open>src/ffi.rs\<close> gives to C: a namespace center is shared (\<open>Arc\<close>) between the map of the
  center and the raw pointers of the client, and \<open>free_namespace\<close> gives one pointer up. The state of the
  center is shared between its box and the watcher thread, whose end drops the callback that holds
  it. A count of zero means that the object is gone.
\<close>

section \<open>Clients\<close>

record client =
  cl_center :: cfg_center
  cl_strong :: "handle \<Rightarrow> nat"
  cl_raw :: "handle \<Rightarrow> nat"
  cl_boxed :: bool
  cl_watching :: bool
  cl_inner :: nat

text \<open>A new client has no namespaces. The state of the center (\<open>CFGCenterInner\<close>) is shared between its box,
  while the client has not freed it, and the callback that \<open>CFGCenter::new\<close> gives to the watcher, while
  the thread of the watcher lives.\<close>

definition first_client :: "cfg_center \<Rightarrow> client" where
  "first_client cc = \<lparr>cl_center = cc, cl_strong = (\<lambda>_. 0), cl_raw = (\<lambda>_. 0), cl_boxed = True,
     cl_watching = True, cl_inner = 2\<rparr>"

text \<open>An \<open>Arc\<close> that is dropped.\<close>

definition drop_arc :: "handle \<Rightarrow> (handle \<Rightarrow> nat) \<Rightarrow> handle \<Rightarrow> nat" where
  "drop_arc h strong = strong(h := strong h - 1)"

text \<open>\<open>create_namespace\<close>: the new \<open>Arc\<close> is cloned into the map, where it drops the one it replaces, and
  handed out with \<open>Arc::into_raw\<close>.\<close>

definition client_create ::
  "('j, 'e) crates \<Rightarrow> cfg_index storage_backend \<Rightarrow> string option \<Rightarrow> update_notify_level \<Rightarrow> callback option
    \<Rightarrow> internal_last_error \<Rightarrow> client \<Rightarrow> client \<times> handle ffi_call" where
  "client_create X B namespace level cb r c =
     (case ffi_create_namespace X B (Some (cl_center c)) namespace level cb r of
        (Some cc, r, Ok (Some h)) \<Rightarrow>
          (let strong = (cl_strong c)(h := 2) in
           (c\<lparr>cl_center := cc,
             cl_strong := (case Option.bind namespace (cc_namespaces (cl_center c)) of
                            None \<Rightarrow> strong | Some old \<Rightarrow> drop_arc old strong),
             cl_raw := (cl_raw c)(h := cl_raw c h + 1)\<rparr>, r, Ok (Some h)))
      | (Some cc, res) \<Rightarrow> (c\<lparr>cl_center := cc\<rparr>, res)
      | (None, res) \<Rightarrow> (c, res))"

text \<open>\<open>free_namespace\<close>; a null pointer, or one that the client does not hold, is undefined behaviour.\<close>

definition free_namespace :: "handle option \<Rightarrow> client \<Rightarrow> client option" where
  "free_namespace ns c =
     (case ns of
        None \<Rightarrow> None
      | Some h \<Rightarrow>
          if cl_raw c h = 0 then None
          else Some (c\<lparr>cl_strong := drop_arc h (cl_strong c), cl_raw := (cl_raw c)(h := cl_raw c h - 1)\<rparr>))"

text \<open>A reference to the state of the center is dropped. The last one drops the map of the namespaces with
  it, and so the \<open>Arc\<close>s it holds, in the order of the map.\<close>

definition drop_inner :: "string list \<Rightarrow> client \<Rightarrow> client" where
  "drop_inner ord c =
     (if cl_inner c = 1
      then c\<lparr>cl_inner := 0, cl_strong := fold drop_arc (hash_values (cc_namespaces (cl_center c)) ord) (cl_strong c),
             cl_center := (cl_center c)\<lparr>cc_namespaces := Map.empty\<rparr>\<rparr>
      else c\<lparr>cl_inner := cl_inner c - 1\<rparr>)"

text \<open>\<open>free_config_center\<close> drops the box, and with it one reference to the state of the center.\<close>

definition free_config_center :: "string list \<Rightarrow> client \<Rightarrow> client option" where
  "free_config_center ord c = (if cl_boxed c then Some (drop_inner ord (c\<lparr>cl_boxed := False\<rparr>)) else None)"

text \<open>The thread of the watcher ends: its callback is dropped, and the reference that it captured.\<close>

definition watcher_ends :: "string list \<Rightarrow> client \<Rightarrow> client" where
  "watcher_ends ord c = drop_inner ord (c\<lparr>cl_watching := False\<rparr>)"

text \<open>What a client and the watcher thread do, in any order, as long as no call hangs. A panic in an
  update unwinds through the loop of the watcher, which does not catch it; and so does one of its own, as
  when the synchronisation of the git backend panics (\<open>sync_without_home\<close>).\<close>

inductive client_step :: "('j, 'e) crates \<Rightarrow> client \<Rightarrow> client \<Rightarrow> bool" for X where
  client_creates: "\<lbrakk>cl_boxed c; walking B; snd (snd (client_create X B ns level cb r c)) \<noteq> Hang\<rbrakk>
    \<Longrightarrow> client_step X c (fst (client_create X B ns level cb r c))"
| client_frees: "free_namespace (Some h) c = Some c' \<Longrightarrow> client_step X c c'"
| client_frees_center: "\<lbrakk>hash_order (cc_namespaces (cl_center c)) ord; free_config_center ord c = Some c'\<rbrakk>
    \<Longrightarrow> client_step X c c'"
| client_updated: "\<lbrakk>cl_watching c; walking B; hash_order (cc_namespaces (cl_center c)) ord;
      center_update_callback X B ord (cl_center c) e = (cc, calls, Returns)\<rbrakk>
    \<Longrightarrow> client_step X c (c\<lparr>cl_center := cc\<rparr>)"
| update_panics: "\<lbrakk>cl_watching c; walking B; hash_order (cc_namespaces (cl_center c)) ord;
      center_update_callback X B ord (cl_center c) e = (cc, calls, Unwinds)\<rbrakk>
    \<Longrightarrow> client_step X c (watcher_ends ord (c\<lparr>cl_center := cc\<rparr>))"
| watcher_panics: "\<lbrakk>cl_watching c; hash_order (cc_namespaces (cl_center c)) ord\<rbrakk>
    \<Longrightarrow> client_step X c (watcher_ends ord c)"

inductive_cases client_stepE: "client_step X c c'"

inductive client_run :: "('j, 'e) crates \<Rightarrow> client \<Rightarrow> client \<Rightarrow> bool" for X where
  client_start: "client_run X c c"
| client_next: "\<lbrakk>client_run X c c'; client_step X c' c''\<rbrakk> \<Longrightarrow> client_run X c c''"

section \<open>The counts\<close>

text \<open>The pointers of the client and the map account for every strong reference, the box and the watcher for
  those to the state of the center; and the map is gone with that state.\<close>

definition counts_ok :: "client \<Rightarrow> bool" where
  "counts_ok c \<longleftrightarrow> cc_ok (cl_center c) \<and>
     (\<forall>h. cl_strong c h = cl_raw c h + of_bool (h \<in> ran (cc_namespaces (cl_center c)))) \<and>
     (\<forall>h. h \<ge> length (cc_store (cl_center c)) \<longrightarrow> cl_raw c h = 0) \<and>
     cl_inner c = of_bool (cl_boxed c) + of_bool (cl_watching c) \<and>
     (cl_inner c = 0 \<longrightarrow> cc_namespaces (cl_center c) = Map.empty)"

lemma cc_ok_inj: "\<lbrakk>cc_ok cc; cc_namespaces cc ns = Some h; cc_namespaces cc ns' = Some h\<rbrakk> \<Longrightarrow> ns = ns'"
  unfolding cc_ok_def by blast

lemma cc_ok_ran: "\<lbrakk>cc_ok cc; h \<in> ran (cc_namespaces cc)\<rbrakk> \<Longrightarrow> h < length (cc_store cc)"
  by (auto simp: cc_ok_def ran_def)

lemma ran_replace:
  assumes "cc_ok cc" and "h = length (cc_store cc)"
  shows "k \<in> ran ((cc_namespaces cc)(ns \<mapsto> h)) \<longleftrightarrow>
    k = h \<or> (k \<in> ran (cc_namespaces cc) \<and> cc_namespaces cc ns \<noteq> Some k)"
  unfolding ran_def using cc_ok_inj [OF assms(1)] by simp (metis option.sel)

text \<open>A creation over the interface: a handle, or a center that at most got its version poisoned.\<close>

lemma ffi_create_cases:
  "(\<exists>n cc' h. ns = Some n \<and> create_namespace_scoped_cfg_center X B cc n level cb = (cc', Ok h) \<and>
      ffi_create_namespace X B (Some cc) ns level cb r = (Some cc', r, Ok (Some h))) \<or>
   (\<exists>cc' r' res. ffi_create_namespace X B (Some cc) ns level cb r = (Some cc', r', res) \<and> (\<forall>h. res \<noteq> Ok (Some h)) \<and>
      cc' \<in> {cc, cc\<lparr>cc_version_poisoned := True\<rparr>})"
proof (cases ns)
  case (Some n)
  obtain cc' res where c: "create_namespace_scoped_cfg_center X B cc n level cb = (cc', res)" by force
  show ?thesis
  proof (cases "utf8_valid n")
    case True
    show ?thesis
    proof (cases "\<exists>h. res = Ok h")
      case False
      with create_not_Ok [OF c] have "cc' \<in> {cc, cc\<lparr>cc_version_poisoned := True\<rparr>}" by blast
      with False c Some True show ?thesis by (cases res) (simp_all add: ffi_create_namespace_def)
    qed (use c Some True in \<open>auto simp: ffi_create_namespace_def\<close>)
  qed (use Some in \<open>simp add: ffi_create_namespace_def\<close>)
qed (simp add: ffi_create_namespace_def)

lemma counts_create:
  assumes "counts_ok c" and "walking B" and "nom (c_nom X)" and "cl_boxed c"
  shows "counts_ok (fst (client_create X B ns level cb r c))"
  using ffi_create_cases [of ns X B "cl_center c" level cb r]
proof (elim disjE exE conjE)
  let ?cc = "cl_center c"
  fix n cc' h
  assume n: "ns = Some n" "create_namespace_scoped_cfg_center X B ?cc n level cb = (cc', Ok h)"
    and f: "ffi_create_namespace X B (Some ?cc) ns level cb r = (Some cc', r, Ok (Some h))"
  from n(2) obtain m where m: "h = length (cc_store ?cc)"
    "cc' = ?cc\<lparr>cc_store := cc_store ?cc @ [namespace_center_new n m level cb],
      cc_namespaces := (cc_namespaces ?cc)(n \<mapsto> h)\<rparr>"
    by (auto simp: create_Ok_iff)
  have cc: "cc_ok ?cc" using assms(1) by (simp add: counts_ok_def)
  have "cc_ok cc'" using create_ok [OF assms(2,3) cc, of n level cb] n(2) by simp
  moreover have fresh: "h \<notin> ran (cc_namespaces ?cc)" using cc_ok_ran [OF cc] m(1) by blast
  have "cl_strong (fst (client_create X B ns level cb r c)) k =
      ((cl_raw c)(h := cl_raw c h + 1)) k + of_bool (k \<in> ran (cc_namespaces cc'))" for k
  proof (cases "cc_namespaces ?cc n")
    case None
    with f n(1) fresh m assms(1) ran_replace [OF cc m(1), of k n] show ?thesis
      by (auto simp: client_create_def counts_ok_def Let_def)
  next
    case (Some old)
    then have "old \<in> ran (cc_namespaces ?cc)" by (auto intro: ranI)
    with Some f n(1) fresh m assms(1) ran_replace [OF cc m(1), of k n] show ?thesis
      by (auto simp: client_create_def counts_ok_def drop_arc_def Let_def)
  qed
  ultimately show ?thesis
    using assms(1,4) f n(1) m by (auto simp: client_create_def counts_ok_def Let_def)
next
  fix cc' r' res
  assume f: "ffi_create_namespace X B (Some (cl_center c)) ns level cb r = (Some cc', r', res)" "\<forall>h. res \<noteq> Ok (Some h)"
    "cc' \<in> {cl_center c, cl_center c\<lparr>cc_version_poisoned := True\<rparr>}"
  then have "fst (client_create X B ns level cb r c) = c\<lparr>cl_center := cc'\<rparr>"
    by (auto simp: client_create_def split: res.split option.split)
  with f(3) assms(1) show ?thesis by (auto simp: counts_ok_def cc_ok_def)
qed

lemma counts_free:
  assumes "counts_ok c" and "free_namespace (Some h) c = Some c'"
  shows "counts_ok c'"
proof -
  have held: "cl_raw c h \<noteq> 0"
    and c': "c' = c\<lparr>cl_strong := drop_arc h (cl_strong c), cl_raw := (cl_raw c)(h := cl_raw c h - 1)\<rparr>"
    using assms(2) by (simp_all add: free_namespace_def split: if_splits)
  have "drop_arc h (cl_strong c) k =
      ((cl_raw c)(h := cl_raw c h - 1)) k + of_bool (k \<in> ran (cc_namespaces (cl_center c)))" for k
    using assms(1) held by (simp add: counts_ok_def drop_arc_def)
  with assms(1) c' show ?thesis by (simp add: counts_ok_def)
qed

text \<open>Dropping the map drops one reference to each namespace center it names.\<close>

lemma fold_drop_arc: "distinct hs \<Longrightarrow> fold drop_arc hs strong h = strong h - of_bool (h \<in> set hs)"
  by (induction hs arbitrary: strong) (auto simp: drop_arc_def)

lemma distinct_handles: "\<lbrakk>cc_ok cc; distinct ks\<rbrakk> \<Longrightarrow> distinct (hash_values (cc_namespaces cc) ks)"
proof (induction ks)
  case (Cons k ks)
  then show ?case
    using cc_ok_inj [OF Cons.prems(1)] by (auto simp: set_hash_values split: option.split)
qed simp

lemma counts_drop_inner:
  assumes "counts_ok c" and "hash_order (cc_namespaces (cl_center c)) ord"
    and "c' = c\<lparr>cl_boxed := False\<rparr> \<and> cl_boxed c \<or> c' = c\<lparr>cl_watching := False\<rparr> \<and> cl_watching c"
  shows "counts_ok (drop_inner ord c')"
proof -
  have c': "cl_center c' = cl_center c" "cl_strong c' = cl_strong c" "cl_raw c' = cl_raw c"
    and inner: "cl_inner c' = 1 + of_bool (cl_boxed c') + of_bool (cl_watching c')"
    using assms(1,3) by (auto simp: counts_ok_def)
  have ok: "cc_ok (cl_center c)" "\<And>h. cl_strong c h = cl_raw c h + of_bool (h \<in> ran (cc_namespaces (cl_center c)))"
    "\<And>h. h \<ge> length (cc_store (cl_center c)) \<Longrightarrow> cl_raw c h = 0"
    using assms(1) by (simp_all add: counts_ok_def)
  show ?thesis
  proof (cases "cl_inner c' = 1")
    case True
    let ?hs = "hash_values (cc_namespaces (cl_center c)) ord"
    have "distinct ?hs" using distinct_handles [OF ok(1)] assms(2) by (simp add: hash_order_def)
    then have "fold drop_arc ?hs (cl_strong c) h = cl_raw c h" for h
      using fold_drop_arc [of ?hs "cl_strong c" h] set_hash_values_order [OF assms(2)] ok(2) by simp
    moreover have "cc_ok (cl_center c\<lparr>cc_namespaces := Map.empty\<rparr>)" using ok(1) by (simp add: cc_ok_def)
    ultimately show ?thesis
      using True c' inner ok(3) by (simp add: drop_inner_def counts_ok_def)
  next
    case False
    with c' inner ok show ?thesis by (auto simp: drop_inner_def counts_ok_def)
  qed
qed

lemma counts_free_center:
  "\<lbrakk>counts_ok c; hash_order (cc_namespaces (cl_center c)) ord; free_config_center ord c = Some c'\<rbrakk> \<Longrightarrow> counts_ok c'"
  by (auto simp: free_config_center_def intro: counts_drop_inner split: if_splits)

lemma counts_watcher_ends:
  "\<lbrakk>counts_ok c; hash_order (cc_namespaces (cl_center c)) ord; cl_watching c\<rbrakk> \<Longrightarrow> counts_ok (watcher_ends ord c)"
  by (simp add: watcher_ends_def counts_drop_inner)

lemma counts_update:
  assumes "counts_ok c" and "walking B" and "nom (c_nom X)"
    and "hash_order (cc_namespaces (cl_center c)) ord"
    and "center_update_callback X B ord (cl_center c) e = (cc, calls, f)"
  shows "counts_ok (c\<lparr>cl_center := cc\<rparr>)" and "hash_order (cc_namespaces cc) ord"
proof -
  have "cc_ok cc" using center_update_ok [OF assms(2,3) _ assms(4), of e] assms(1,5) by (simp add: counts_ok_def)
  moreover have "cc_namespaces cc = cc_namespaces (cl_center c)" "length (cc_store cc) = length (cc_store (cl_center c))"
    using update_names [of X B ord "cl_center c" e] update_store_length [of X B ord "cl_center c" e] assms(5) by simp_all
  ultimately show "counts_ok (c\<lparr>cl_center := cc\<rparr>)" "hash_order (cc_namespaces cc) ord"
    using assms(1,4) by (simp_all add: counts_ok_def)
qed

lemma counts_step: "\<lbrakk>client_step X c c'; nom (c_nom X); counts_ok c\<rbrakk> \<Longrightarrow> counts_ok c'"
proof (induction rule: client_step.induct)
  case (update_panics c B ord e cc calls)
  from counts_update [OF update_panics(6,2,5,3,4)] update_panics(1) show ?case
    by (intro counts_watcher_ends) simp_all
qed (auto intro: counts_create counts_free counts_free_center counts_update counts_watcher_ends)

lemma counts_run: "\<lbrakk>client_run X c c'; nom (c_nom X); counts_ok c\<rbrakk> \<Longrightarrow> counts_ok c'"
  by (induction rule: client_run.induct) (auto intro: counts_step)

text \<open>C25. In every run of creations, updates and frees that the interface allows, with panics of the
  watcher, the strong count of a namespace center is the number of pointers the client holds to it, plus
  one while the map of the center names it: a held handle is alive whatever else is freed or created
  again, and a namespace center whose name was taken over is dropped exactly when the last pointer to
  it is freed. The state of the center is shared by the box and the watcher: freeing the center
  leaves it to the watcher while its thread lives, and with the last of the two it is dropped, and its map.\<close>

theorem handles_alive:
  assumes "cfg_center_new B = Ok cc" and "nom (c_nom X)" and "client_run X (first_client cc) c"
  shows "cl_strong c h = cl_raw c h + of_bool (h \<in> ran (cc_namespaces (cl_center c))) \<and>
    (cl_raw c h > 0 \<longrightarrow> h < length (cc_store (cl_center c))) \<and>
    cl_inner c = of_bool (cl_boxed c) + of_bool (cl_watching c) \<and>
    (cl_inner c = 0 \<longrightarrow> cc_namespaces (cl_center c) = Map.empty)"
proof -
  have "cc_namespaces cc = Map.empty" using assms(1) by (auto simp: cfg_center_new_def)
  then have "counts_ok (first_client cc)"
    using cfg_center_new_ok [OF assms(1)] by (simp add: counts_ok_def first_client_def)
  from counts_run [OF assms(3,2) this] have ok: "counts_ok c" .
  then have "cl_raw c h = 0" if "\<not> h < length (cc_store (cl_center c))"
    using that by (simp add: counts_ok_def)
  with ok show ?thesis unfolding counts_ok_def by (metis less_numeral_extra(3))
qed

text \<open>The namespace \<open>/\<close> created twice, and the first handle and the center freed: the first namespace center is
  gone, and the state is left to the watcher. And \<open>/\<close> created once, with a callback that panics: after
  the center is freed, the first update drops the state and its map, but not the handle.\<close>

definition second_center :: cfg_center where
  "second_center = (root_center NoNotify None)\<lparr>cc_namespaces := [''/'' \<mapsto> 1],
     cc_store := cc_store (root_center NoNotify None) @ [namespace_center_new ''/''
       \<lparr>ms_version = sample_version, ms_indices = sample_index\<rparr> NoNotify None]\<rparr>"

abbreviation sample_create ::
  "update_notify_level \<Rightarrow> callback option \<Rightarrow> client \<Rightarrow> client \<times> handle ffi_call" where
  "sample_create level cb \<equiv> client_create deploy_crates (deploy ''v1'') (Some ''/'') level cb no_last_error"

definition one_handle :: "update_notify_level \<Rightarrow> callback option \<Rightarrow> client" where
  "one_handle level cb = \<lparr>cl_center = root_center level cb, cl_strong = (\<lambda>_. 0)(0 := 2), cl_raw = (\<lambda>_. 0)(0 := 1),
     cl_boxed = True, cl_watching = True, cl_inner = 2\<rparr>"

definition two_handles :: client where
  "two_handles = \<lparr>cl_center = second_center, cl_strong = (\<lambda>_. 0)(0 := 1, 1 := 2), cl_raw = (\<lambda>_. 0)(0 := 1, 1 := 1),
     cl_boxed = True, cl_watching = True, cl_inner = 2\<rparr>"

lemma sample_creates:
  "sample_create level cb (first_client first_center) = (one_handle level cb, no_last_error, Ok (Some 0))"
  "sample_create NoNotify None (one_handle NoNotify None) = (two_handles, no_last_error, Ok (Some 1))"
proof -
  have "utf8_valid ''/''" by (simp add: ascii_valid)
  then have "ffi_create_namespace deploy_crates (deploy ''v1'') (Some first_center) (Some ''/'') level cb no_last_error =
      (Some (root_center level cb), no_last_error, Ok (Some 0))"
    by (simp add: ffi_create_namespace_def root_center)
  moreover have "cc_namespaces first_center = Map.empty" by (simp add: first_center_def)
  ultimately show "sample_create level cb (first_client first_center) = (one_handle level cb, no_last_error, Ok (Some 0))"
    by (simp add: client_create_def first_client_def one_handle_def)
  have "create_namespace_scoped_cfg_center deploy_crates (deploy ''v1'') (root_center NoNotify None) ''/'' NoNotify None =
      (second_center, Ok 1)"
    by (simp add: create_Ok_iff second_center_def root_center_def first_center_def deploy_loads starts_with_def ends_with_def)
  with \<open>utf8_valid ''/''\<close> have "ffi_create_namespace deploy_crates (deploy ''v1'') (Some (root_center NoNotify None))
      (Some ''/'') NoNotify None no_last_error = (Some second_center, no_last_error, Ok (Some 1))"
    by (simp add: ffi_create_namespace_def)
  moreover have "cc_namespaces (root_center NoNotify None) = [''/'' \<mapsto> 0]" by (simp add: root_center_def)
  ultimately show "sample_create NoNotify None (one_handle NoNotify None) = (two_handles, no_last_error, Ok (Some 1))"
    by (simp add: client_create_def one_handle_def two_handles_def drop_arc_def fun_upd_twist)
qed

lemma first_step: "client_step deploy_crates (first_client first_center) (one_handle level cb)"
  using client_creates [where X = deploy_crates and B = "deploy ''v1''" and ns = "Some ''/''" and level = level
      and cb = cb and r = no_last_error and c = "first_client first_center", OF _ deploy_walking]
  by (simp add: sample_creates) (simp add: first_client_def)

lemma second_step: "client_step deploy_crates (one_handle NoNotify None) two_handles"
  using client_creates [where X = deploy_crates and B = "deploy ''v1''" and ns = "Some ''/''" and level = NoNotify
      and cb = None and r = no_last_error and c = "one_handle NoNotify None", OF _ deploy_walking]
  by (simp add: sample_creates) (simp add: one_handle_def)

lemma watched_by_none:
  "\<exists>d. client_run deploy_crates (first_client first_center) d \<and> cl_raw d 0 = 1 \<and> \<not> cl_boxed d \<and> \<not> cl_watching d"
proof -
  let ?one = "one_handle NotifyWithoutChangedKeysByGlobal (Some panicking_client)"
  obtain c where c: "free_config_center [''/''] ?one = Some c" "cl_center c = cl_center ?one" "cl_raw c = cl_raw ?one"
    "cl_watching c" "\<not> cl_boxed c"
    by (simp add: free_config_center_def drop_inner_def one_handle_def)
  have order: "hash_order (cc_namespaces (cl_center ?one)) [''/'']" by (simp add: one_handle_def root_order)
  let ?u = "center_update_callback deploy_crates (deploy ''v2'') [''/''] (cl_center c) \<lparr>ev_new_version = second_version\<rparr>"
  have "snd (snd ?u) = Unwinds"
    by (simp add: c(2) one_handle_def center_update_callback_def root_center_def first_center_def List.map_filter_simps
        update_namespace_def deploy_loads nc_update_callback_def namespace_center_new_def panicking_client_def Let_def)
  then obtain cc calls where u: "?u = (cc, calls, Unwinds)" by (metis prod.collapse)
  let ?d = "watcher_ends [''/''] (c\<lparr>cl_center := cc\<rparr>)"
  have "client_run deploy_crates (first_client first_center) ?d"
    by (rule client_next [OF client_next [OF client_next [OF client_start first_step] client_frees_center [OF order c(1)]]
          update_panics [OF c(4) deploy_walking _ u]]) (simp add: c(2) order)
  moreover have "cl_raw ?d 0 = 1" "\<not> cl_boxed ?d" "\<not> cl_watching ?d"
    using c(3,5) by (simp_all add: watcher_ends_def drop_inner_def one_handle_def)
  ultimately show ?thesis by blast
qed

theorem handles_alive_witness:
  "(\<exists>c. client_run deploy_crates (first_client first_center) c \<and> cl_strong c 0 = 0 \<and> cl_strong c 1 = 2 \<and> cl_inner c = 1) \<and>
   (\<exists>c. client_run deploy_crates (first_client first_center) c \<and> cl_strong c 0 = 1 \<and> cl_inner c = 0)"
proof (rule conjI)
  obtain c where c: "free_namespace (Some 0) two_handles = Some c" "cl_raw c 0 = 0" "cl_raw c 1 = 1"
    "cl_center c = second_center" "cl_boxed c" "cl_watching c" "cl_inner c = 2"
    by (simp add: free_namespace_def two_handles_def)
  have names: "cc_namespaces second_center = [''/'' \<mapsto> 1]" by (simp add: second_center_def)
  then have order: "hash_order (cc_namespaces (cl_center c)) [''/'']" by (simp add: c(4) hash_order_def)
  obtain d where d: "free_config_center [''/''] c = Some d" "cl_raw d = cl_raw c" "cl_center d = cl_center c" "\<not> cl_boxed d"
    "cl_watching d"
    using c(5-7) by (simp add: free_config_center_def drop_inner_def)
  have run: "client_run deploy_crates (first_client first_center) d"
    by (rule client_next [OF client_next [OF client_next [OF client_next [OF client_start first_step] second_step]
          client_frees [OF c(1)]] client_frees_center [OF order d(1)]])
  have nom: "nom (c_nom deploy_crates)" by (simp add: ref_nom.nom_axioms)
  from handles_alive [OF first_center nom run, of 0] handles_alive [OF first_center nom run, of 1] c d names
  have "cl_strong d 0 = 0 \<and> cl_strong d 1 = 2 \<and> cl_inner d = 1" by simp
  with run show "\<exists>c. client_run deploy_crates (first_client first_center) c \<and> cl_strong c 0 = 0 \<and> cl_strong c 1 = 2 \<and>
      cl_inner c = 1" by blast
  obtain e where run: "client_run deploy_crates (first_client first_center) e" and e: "cl_raw e 0 = 1" "\<not> cl_boxed e"
    "\<not> cl_watching e"
    using watched_by_none by blast
  from handles_alive [OF first_center nom run, of 0] e have "cl_strong e 0 = 1 \<and> cl_inner e = 0" by simp
  with run show "\<exists>c. client_run deploy_crates (first_client first_center) c \<and> cl_strong c 0 = 1 \<and> cl_inner c = 0" by blast
qed

end
