(* ===== verification/Spec2Isabelle.thy ===== *)
theory Spec2Isabelle
  imports Git_Properties System_Locks Backend_Equivalence Escape_Properties Lock_Properties Thread_Properties Mock_Store
    Ffi_Properties Ffi_Memory Ffi_Handles
begin

text \<open>
  A verification library for \<open>eafcc-core\<close>, the core of a configuration center: a Rust crate that loads
  rules, links and resources from a versioned store, answers what configuration a client gets, and
  follows changes of the store.

  \<^bold>\<open>The program.\<close> A store (a directory per version with a \<open>head\<close> file, or a git branch) holds three
  trees of JSON files: rules (a condition on the tags of a client), resources (keys with values) and
  links (a rule, resources, a priority, and a flag for negative). A namespace is a directory below
  the three trees. Creating a namespace loads its files into an index; a query finds the links whose
  rule holds for the client and overlays their resources by priority. A watcher thread reports a
  new version, and the center loads the namespaces again and calls their callbacks.

  \<^bold>\<open>Theories and code\<close> (paths below \<open>src/src\<close>).
  \<^item> \<open>Prelude\<close>: outcomes of Rust calls (\<open>res\<close>: \<open>Ok\<close>, \<open>Err\<close>, \<open>Panic\<close>, \<open>Hang\<close>), the combinators of
    \<open>Result\<close> and \<open>Option\<close>, hash maps iterated in an order that is an argument.
  \<^item> \<open>Rust_Str\<close>, \<open>Rust_Path\<close>, \<open>Rust_Float\<close>, \<open>Rust_Sort\<close>: what the code uses of the standard library:
    byte strings with UTF-8 validity, slicing, splitting and trimming; lexical paths; \<open>f32\<close> as 32-bit
    words with their order; \<open>sort_unstable_by\<close> as the locale \<open>slice_sort\<close>.
  \<^item> \<open>Rule_Engine\<close>: \<open>rule_engine/mod.rs\<close>. \<open>Nom_Interface\<close>, \<open>Rule_Parser\<close>, \<open>Rule_Parser_Correct\<close>:
    \<open>parser/rule.rs\<close> over the combinators of nom, a grammar of rules, and the proof that the parser
    accepts it. \<open>Rule_Properties\<close>: their properties. \<open>Source_Tests\<close>: the unit tests of the crate and
    that they pass; \<open>Mock_Store\<close>: the integration tests of \<open>cfg_center/mod.rs\<close> and the store of
    \<open>test/mock_data\<close> they query, every file of it.
  \<^item> \<open>Errors\<close>: \<open>error.rs\<close>. \<open>Model_Objects\<close>: \<open>model/*.rs\<close>.
  \<^item> \<open>Storage\<close>: \<open>storage_backends/mod.rs\<close>, with the default walk. \<open>Filesystem\<close> and \<open>Git_Backend\<close>: the
    two backends. \<open>Git_Properties\<close>: properties of the latter. \<open>Git_Locks\<close>: its two locks under
    threads that load and the one that synchronises; \<open>System_Locks\<close>: they and the mutexes of the center. \<open>Backend_Equivalence\<close>: the same files loaded by both.
  \<^item> \<open>Cfg_Index\<close>: \<open>cfg_center/cfgindex.rs\<close> and \<open>mem_store.rs\<close>. \<open>Fs_Index\<close>: loading over the
    filesystem is building from parsed files. \<open>Index_Properties\<close>.
  \<^item> \<open>Querier\<close>: \<open>cfg_center/querier.rs\<close>; \<open>Query_Properties\<close>.
  \<^item> \<open>Namespace\<close>: \<open>cfg_center/namespace.rs\<close> and \<open>differ.rs\<close>. \<open>Cfg_Center\<close>: \<open>cfg_center/cfg_center.rs\<close>.
    \<open>Center_Runs\<close>: sequences of creations and updates, and the abstract center they refine.
    \<open>Center_Locks\<close>: the two mutexes under any number of threads. \<open>Center_Threads\<close>: those threads with
    the data they carry and change. \<open>Center_Properties\<close>, \<open>Center_Failures\<close>, \<open>Escape_Properties\<close>,
    \<open>Lock_Properties\<close>, \<open>Thread_Properties\<close>.
  \<^item> \<open>Ffi\<close>: \<open>ffi.rs\<close> on values; \<open>Ffi_Properties\<close>. \<open>Ffi_Memory\<close>: the tags and results it allocates and
    frees, on a heap. \<open>Ffi_Handles\<close>: the reference counts of namespace centers and of the center. This theory: properties from the files to the answers.

  \<^bold>\<open>Code outside the repository\<close> is an argument: nom (\<open>nom\<close>, laws in the locale of that name), the
  crate unescape (a function), serde_json (\<open>serde_json\<close>, \<open>serde_value\<close>), notify, git2 (\<open>git2\<close>, the laws of
  its tree walk in \<open>git_crate\<close>), the operating system (\<open>os_fs\<close>) and the allocator (law in \<open>memory\<close>). Each has a concrete instance
  (\<open>nom_ref\<close>, \<open>doc_json\<close>, \<open>git_ref\<close>, \<open>tree_os\<close>, \<open>next_addr\<close>) on which the witnesses run.

  \<^bold>\<open>What the lemmas show.\<close> The parser accepts exactly the grammar, returns with a recursion depth of the
  number of parentheses, and its conditions evaluate to their meaning without a panic. The default walk
  over a finite tree returns and visits every entry once; on a cyclic one \<open>walk_loop\<close> is \<open>None\<close> and
  the walk hangs. An index that loads satisfies \<open>index_ok\<close>, over any backend; over the filesystem it is
  the index built from the parsed files, and each way a load fails is stated too (\<open>load_builds\<close>). A commit
  with the same files, all of which parse, loads to the same index over git, up to the order of the items
  of a rule; a file that does not parse fails the load over the filesystem and is left out over git
  (\<open>git_load_keeps_good\<close>). Overlaid answers are those of the best active links (\<open>best_for\<close>), uniquely so
  without ties, for every sorting algorithm of the contract; with ties the comparator is no total
  order, and only the insertion sort of small slices is known to answer with a best link. Every reachable center
  keeps \<open>cc_ok\<close> and refines the abstract center; the levels below the global one are not served. What
  threads do to the center is linearizable: the interleaved steps of \<open>thread_step\<close> simulate whole calls
  made one after the other (locale \<open>forward_simulation\<close>). The deadlock between creation and update is
  reachable, and apart from callbacks that ask their own center for a namespace it is the only one. A load over the
  git backend and its watcher can lock each other out as well (\<open>walk_stuck\<close>); over that backend these three
  are all there are (\<open>system_progress\<close>). The watcher of the git backend
  reports just the commits to which the remote branch has moved. A result handed to C is freed
  without a rest by \<open>free_config_values\<close>, while a conversion that fails leaks the value at hand. The state
  of a center lives as long as its box or the thread of its watcher, which a panic ends.

  \<^bold>\<open>Shape of the model.\<close> A center holds namespace centers in a list, and handles (\<open>Arc\<close>) are positions in
  it. A backend is a record of its methods as they answer during one operation, so the stored content
  changes between operations by passing another record. A client callback is a function to how it
  ends (\<open>finish\<close>); what it was called with is part of the result; the loops of the
  watchers take it to return, and what a panic in it does to their thread is in \<open>client_step\<close>. A call that
  hangs keeps its locks, so no step of \<open>center_step\<close> or \<open>client_step\<close> follows it. A mutex is never taken twice by its thread: \<open>lock\<close> is taken
  not to return then, as its documentation allows. \<open>CFGCenter\<close> and the inner center it delegates to are one
  state. Logging is left out.

  \<^bold>\<open>The crate's tests\<close> are definitions too. The unit tests and the test over the filesystem pass on the
  model, the latter for every sorting algorithm and every order of the map of rules; its assertion,
  made in a thread whose end nobody looks at, cannot make it fail (\<open>test_passes_without_values\<close>).

  \<^bold>\<open>Not modelled.\<close> The logging macro and the switch it reads; the network prototype under \<open>git/p2p\<close>, which no
  module declares, so that it is not compiled, and whose functions print a line and return; the
  types \<open>UpdateInfoEventType\<close> and \<open>UpdateEventItem\<close>, which nothing uses; the benchmark, which is commented out.
\<close>

section \<open>From the files to the answers\<close>

text \<open>A link item is in force for a client when a rule file holds for the client and a link file names it.\<close>

definition file_active ::
  "(string \<times> rule_obj) list \<Rightarrow> (string \<times> link_obj) list \<Rightarrow> match_context \<Rightarrow> idx_link_item \<Rightarrow> bool" where
  "file_active rs ls whoami item \<longleftrightarrow> (\<exists>rp rule lp link.
     map_of (rev rs) rp = Some rule \<and> holds whoami (rs_rule (rule_spec_of rule)) \<and>
     (lp, link) \<in> set ls \<and> link_target link = rp \<and> item \<in> set (link_items lp link))"

lemma active_files:
  "active \<lparr>ms_version = v, ms_indices = build_index rs ls ss\<rparr> whoami item \<longleftrightarrow> file_active rs ls whoami item"
proof -
  have "(\<exists>its. link_stor (build_index rs ls ss) rp = Some its \<and> item \<in> set its) \<longleftrightarrow>
      (\<exists>lp link. (lp, link) \<in> set ls \<and> link_target link = rp \<and> item \<in> set (link_items lp link))" for rp
    by (auto simp: build_link_stor Let_def filter_empty_conv split: if_splits)
  then show ?thesis
    by (force simp: active_def file_active_def build_rule_stor)
qed

lemma namespace_loads:
  "namespace_files X root b v ks rs ls ss \<Longrightarrow>
    mem_storage_new X (fs_storage (tree_os root) nt b) (ns_name ks) v =
      Ok \<lparr>ms_version = v, ms_indices = build_index rs ls ss\<rparr>"
  by (simp add: namespace_files_def mem_storage_new_def index_load_fs)

lemma ns_name_slashes: "starts_with (ns_name ks) ''/'' \<and> ends_with (ns_name ks) ''/''"
  by (simp add: ns_name_def abs_of_def starts_with_def ends_with_def)

text \<open>C1. A namespace over the filesystem whose files all parse is created, and answers overlaid queries
  from those files: when no two links in force for the client tie (in priority and sign), and
  whatever sorting algorithm meets the contract of the standard library, for each key in turn with the
  value of the best link in force for the client, or with nothing when there is none or it is negative.\<close>

theorem served_from_files:
  assumes "nom (c_nom X)" and "\<not> cc_namespaces_poisoned cc" and "\<not> cc_version_poisoned cc"
    and "namespace_files X root b (cc_current_version cc) ks rs ls ss"
    and "hash_order (rule_stor (build_index rs ls ss)) ord" and "slice_sort sorter"
    and "tie_free (active_links ord \<lparr>ms_version = cc_current_version cc, ms_indices = build_index rs ls ss\<rparr> whoami)"
  shows "let mem = \<lparr>ms_version = cc_current_version cc, ms_indices = build_index rs ls ss\<rparr> in
    \<exists>cc' h. create_namespace_scoped_cfg_center X (fs_storage (tree_os root) nt b) cc (ns_name ks) level cb =
      (cc', Ok h) \<and>
    (\<forall>item. active mem whoami item \<longleftrightarrow> file_active rs ls whoami item) \<and>
    overlay_outcome mem whoami need keys
      (get_cfg sorter ord (cc_store cc' ! h) whoami keys OverlaidView need)"
proof -
  let ?B = "fs_storage (tree_os root) nt b :: cfg_index storage_backend"
  let ?mem = "\<lparr>ms_version = cc_current_version cc, ms_indices = build_index rs ls ss\<rparr>"
  note load = namespace_loads [OF assms(4), of nt]
  have ok: "index_ok (ms_indices ?mem)"
    using mem_storage_new_ok [OF fs_quiet.walker_axioms assms(1) load] by simp
  let ?nc = "namespace_center_new (ns_name ks) ?mem level cb"
  have "create_namespace_scoped_cfg_center X ?B cc (ns_name ks) level cb =
      (cc\<lparr>cc_store := cc_store cc @ [?nc], cc_namespaces := (cc_namespaces cc)(ns_name ks \<mapsto> length (cc_store cc))\<rparr>,
       Ok (length (cc_store cc)))"
    using assms(2,3) load ns_name_slashes by (simp add: create_Ok_iff)
  moreover have "overlay_outcome ?mem whoami need keys (get_cfg sorter ord ?nc whoami keys OverlaidView need)"
  proof -
    have "\<forall>l\<in>set (active_links ord ?mem whoami). f32_is_finite (il_pri l)"
      using active_finite [OF ok] set_active_links [of ?mem ord] assms(5) by auto
    then have "overlay_outcome ?mem whoami need keys (querier_get sorter ord ?mem whoami keys OverlaidView need)"
      using ok assms(5-7) by (intro overlay_outcome_ranked sorter_ranked slice_sort.sort_set) simp_all
    then show ?thesis by (simp add: get_cfg_def namespace_center_new_def)
  qed
  ultimately show ?thesis by (simp add: active_files Let_def)
qed

lemma deploy_files:
  "namespace_files deploy_crates (deploy_tree head) sample_backend sample_version [] [(''r'', sample_rule)]
     [(''l'', sample_link)] [(''s'', sample_res)]"
  "namespace_files deploy_crates (deploy_tree head) sample_backend second_version [] [(''r'', sample_rule)]
     [(''l'', sample_link)] [(''s'', second_res)]"
proof -
  have ne: "sample_version \<noteq> second_version" by (simp add: sample_version_def second_version_def)
  show "namespace_files deploy_crates (deploy_tree head) sample_backend sample_version [] [(''r'', sample_rule)]
     [(''l'', sample_link)] [(''s'', sample_res)]"
    "namespace_files deploy_crates (deploy_tree head) sample_backend second_version [] [(''r'', sample_rule)]
     [(''l'', sample_link)] [(''s'', second_res)]"
    using deploy_subtree [of sample_version head] deploy_subtree [of second_version head] ne
    by (simp_all add: namespace_files_def dir_eval deploy_parsed)
qed

theorem served_from_files_witness:
  "\<exists>cc' h. create_namespace_scoped_cfg_center deploy_crates (deploy ''v1'') first_center ''/'' NoNotify None =
      (cc', Ok h) \<and>
    overlay_outcome sample_mem mac_user False [''k'']
      (get_cfg insertion_sort_by [''r''] (cc_store cc' ! h) mac_user [''k''] OverlaidView False)"
proof -
  let ?cc = first_center
  have mem: "\<lparr>ms_version = cc_current_version ?cc, ms_indices =
      build_index [(''r'', sample_rule)] [(''l'', sample_link)] [(''s'', sample_res)]\<rparr> = sample_mem"
    by (simp add: first_center_def sample_mem_def sample_index_def)
  then have ord: "hash_order (rule_stor (build_index [(''r'', sample_rule)] [(''l'', sample_link)] [(''s'', sample_res)])) [''r'']"
    using sample_order by (metis mem_storage.select_convs(2))
  have free: "\<not> cc_namespaces_poisoned ?cc" "\<not> cc_version_poisoned ?cc"
    by (simp_all add: first_center_def)
  have files: "namespace_files deploy_crates (deploy_tree ''v1'') sample_backend (cc_current_version ?cc) []
      [(''r'', sample_rule)] [(''l'', sample_link)] [(''s'', sample_res)]"
    using deploy_files(1) by (simp add: first_center_def)
  have ns: "ns_name [] = ''/''" by (simp add: ns_name_def)
  have nom: "nom (c_nom deploy_crates)" by (simp add: ref_nom.nom_axioms)
  have "tie_free (active_links [''r''] \<lparr>ms_version = cc_current_version ?cc, ms_indices =
      build_index [(''r'', sample_rule)] [(''l'', sample_link)] [(''s'', sample_res)]\<rparr> mac_user)"
    unfolding mem by (simp add: sample_active tie_free_def)
  from served_from_files [OF nom free files ord ins_sort.slice_sort_axioms this, of sample_notify NoNotify None False "[''k'']"]
  show ?thesis unfolding mem ns Let_def deploy_def by blast
qed

text \<open>C2. A change of the head file is followed: the watcher reports the version it names, and after the
  update the namespaces of the global level answer from the files of that version.\<close>

theorem head_change_served:
  assumes "cc_ok cc" and "hash_order (cc_namespaces cc) ord"
    and "\<not> cc_namespaces_poisoned cc" and "\<not> cc_version_poisoned cc"
    and "os_read (tree_os root) (path_join (base_path b) ''head'') = Inr raw" and "utf8_valid raw"
    and "v = \<lparr>v_name = str_trim raw, v_id = str_trim raw\<rparr>"
    and "\<forall>ns nc. cv_namespaces (view_of cc) ns = Some nc \<longrightarrow> tame X (fs_storage (tree_os root) nt b) v ns nc"
    and "cc_namespaces cc (ns_name ks) = Some h"
    and "nc_notify_level (cc_store cc ! h) = NotifyWithoutChangedKeysByGlobal"
    and "namespace_files X root b v ks rs ls ss"
    and "center_update_callback X (fs_storage (tree_os root) nt b) ord cc \<lparr>ev_new_version = v\<rparr> = (cc', calls, r)"
  shows "eafcc_watcher (path_join (base_path b) ''head'') [(tree_os root, Inr Write)] = [v] \<and>
    cc_current_version cc' = v \<and>
    get_cfg sorter rord (cc_store cc' ! h) whoami keys mode need =
      querier_get sorter rord \<lparr>ms_version = v, ms_indices = build_index rs ls ss\<rparr> whoami keys mode need"
proof -
  note load = namespace_loads [OF assms(11), of nt]
  have "read_version_from_fs (tree_os root) (path_join (base_path b) ''head'') = Ok v"
    using assms(5-7) by (simp add: read_version_from_fs_def from_utf8_def Let_def)
  then show ?thesis
    using quiet_backend.update_served [OF fs_quiet.quiet_backend_axioms assms(1-4,8-10) load assms(12)] by simp
qed

theorem head_change_served_witness:
  "\<exists>cc' calls r. center_update_callback deploy_crates (deploy ''v2'') [''/'']
      (root_center NotifyWithoutChangedKeysByGlobal None) \<lparr>ev_new_version = second_version\<rparr> = (cc', calls, r) \<and>
    get_cfg insertion_sort_by [''r''] (cc_store cc' ! 0) mac_user [''k''] OverlaidView False =
      querier_get insertion_sort_by [''r''] \<lparr>ms_version = second_version, ms_indices = second_index\<rparr> mac_user [''k'']
        OverlaidView False"
proof -
  let ?cc = "root_center NotifyWithoutChangedKeysByGlobal None"
  obtain cc' calls r where u: "center_update_callback deploy_crates (deploy ''v2'') [''/''] ?cc
      \<lparr>ev_new_version = second_version\<rparr> = (cc', calls, r)"
    by (metis prod_cases3)
  have head: "os_read (tree_os (deploy_tree ''v2'')) (path_join (base_path sample_backend) ''head'') = Inr ''v2''"
    by (simp add: tree_os_def deploy_tree_def path_eval sample_backend_def)
  have second: "second_version = \<lparr>v_name = str_trim ''v2'', v_id = str_trim ''v2''\<rparr>"
    by (simp add: second_version_def str_trim_graphic graphic_def)
  have "\<forall>f d. (None :: callback option) = Some f \<longrightarrow> f d = Returns" by simp
  note tame = root_tame [OF this, of NotifyWithoutChangedKeysByGlobal "''v2''", unfolded deploy_def]
  have free: "\<not> cc_namespaces_poisoned ?cc" "\<not> cc_version_poisoned ?cc" "cc_namespaces ?cc (ns_name []) = Some 0"
    "nc_notify_level (cc_store ?cc ! 0) = NotifyWithoutChangedKeysByGlobal" "utf8_valid ''v2''"
    by (simp_all add: root_center_def first_center_def ns_name_def namespace_center_new_def ascii_valid)
  from head_change_served [OF root_center_ok root_order free(1,2) head free(5) second tame free(3,4) deploy_files(2)
      u [unfolded deploy_def]] u
  show ?thesis by (auto simp: second_index_def)
qed

lemma active_same:
  assumes "rule_stor i = rule_stor j" and "\<forall>k. map_option mset (link_stor i k) = map_option mset (link_stor j k)"
  shows "active \<lparr>ms_version = v, ms_indices = i\<rparr> whoami item \<longleftrightarrow> active \<lparr>ms_version = v, ms_indices = j\<rparr> whoami item"
proof -
  have "(\<exists>items. link_stor i k = Some items \<and> item \<in> set items) \<longleftrightarrow>
      (\<exists>items. link_stor j k = Some items \<and> item \<in> set items)" for k
    using assms(2) [rule_format, of k] by (cases "link_stor i k"; cases "link_stor j k") (auto dest: mset_eq_setD)
  then show ?thesis using assms(1) by (auto simp: active_def)
qed

text \<open>C3. A move of the remote branch is followed: when the remote lists the branch at a commit other
  than the current one and the commit can be fetched, the watcher of the git backend reports the
  version of that commit, and after the update the namespaces of the global level answer from its
  files, with the link items in force that its rule and link files say.\<close>

theorem branch_move_served:
  fixes G :: "('r, cfg_index) git2"
  assumes "git_crate G preorder" and "faithful_ids G"
    and "remote_head G url branch = Some oid" and "oid \<noteq> v_id (gb_cur_version gb)"
    and "fetched G gb branch oid commit gb'" and "v = commit_version commit"
    and "cc_ok cc" and "hash_order (cc_namespaces cc) ord"
    and "\<not> cc_namespaces_poisoned cc" and "\<not> cc_version_poisoned cc"
    and "\<forall>ns nc. cv_namespaces (view_of cc) ns = Some nc \<longrightarrow> tame X (git_storage G gb') v ns nc"
    and "cc_namespaces cc (ns_name ks) = Some h"
    and "nc_notify_level (cc_store cc ! h) = NotifyWithoutChangedKeysByGlobal"
    and "commit_files X G preorder gb' v ks rs ls ss"
    and "center_update_callback X (git_storage G gb') ord cc \<lparr>ev_new_version = v\<rparr> = (cc', calls, r)"
  shows "git_watcher [G] url branch gb = (gb'\<lparr>gb_cur_version := v\<rparr>, [v]) \<and> v_id v = oid \<and>
    cc_current_version cc' = v \<and>
    (\<exists>m. ms_version m = v \<and> res_stor (ms_indices m) = res_stor (build_index rs ls ss) \<and>
      (\<forall>whoami item. active m whoami item \<longleftrightarrow> file_active rs ls whoami item) \<and>
      (\<forall>sorter rord whoami keys mode need. get_cfg sorter rord (cc_store cc' ! h) whoami keys mode need =
        querier_get sorter rord m whoami keys mode need))"
proof -
  obtain j where load: "index_load X (git_storage G gb') (ns_name ks) v = Ok j"
    and j: "rule_stor j = rule_stor (build_index rs ls ss)" "res_stor j = res_stor (build_index rs ls ss)"
      "\<forall>k. map_option mset (link_stor j k) = map_option mset (link_stor (build_index rs ls ss) k)"
    using git_index_load [OF assms(1,14)] by blast
  let ?m = "\<lparr>ms_version = v, ms_indices = j\<rparr>"
  have "mem_storage_new X (git_storage G gb') (ns_name ks) v = Ok ?m"
    by (simp add: mem_storage_new_def load)
  note served = quiet_backend.update_served [OF git_quiet [OF assms(1)] assms(7-13) this assms(15)]
  have "active ?m whoami item \<longleftrightarrow> file_active rs ls whoami item" for whoami item
    using active_same [OF j(1,3), of v whoami item] active_files by metis
  moreover have "git_watcher [G] url branch gb = (gb'\<lparr>gb_cur_version := v\<rparr>, [v])" "v_id v = oid"
    using sync_round(2) [OF assms(3-5)] fetched_id [OF assms(2,5)] assms(6) by simp_all
  ultimately show ?thesis
    using served j(2) by (intro conjI exI [of _ ?m]) simp_all
qed

text \<open>The branch of the sample repository moves to the commit with the sample files.\<close>

definition new_repo :: ref_repo where
  "new_repo = \<lparr>rr_commits = [(''c2'', ''two'', sample_commit)], rr_branches = [(''main'', ''c2'')]\<rparr>"

abbreviation new_git :: "(ref_repo, cfg_index) git2" where
  "new_git \<equiv> git_ref (\<lambda>_. Inr bad_repo) new_repo"

abbreviation second_commit :: version_item where
  "second_commit \<equiv> \<lparr>v_name = ''two'', v_id = ''c2''\<rparr>"

definition new_backend :: "ref_repo git_backend" where
  "new_backend = bad_backend\<lparr>gb_git_repo := \<lparr>rr_commits = rr_commits new_repo @ rr_commits bad_repo,
     rr_branches = (''main'', ''c2'') # rr_branches bad_repo\<rparr>\<rparr>"

lemma new_round:
  "remote_head new_git ''url'' ''main'' = Some ''c2''" "''c2'' \<noteq> v_id (gb_cur_version bad_backend)"
  "fetched new_git bad_backend ''main'' ''c2'' \<lparr>gc_id = ''c2'', gc_message = ''two''\<rparr> new_backend"
  "second_commit = commit_version \<lparr>gc_id = ''c2'', gc_message = ''two''\<rparr>"
  by (simp_all add: remote_head_def fetched_def commit_version_def git_ref_def bad_repo_def new_repo_def
      bad_backend_def ref_commit_def ascii_valid new_backend_def)

lemma new_holds:
  "git_holds new_git ref_entries new_backend second_commit ''/rules/'' (Dir [(''r'', File ''R'')])"
  "git_holds new_git ref_entries new_backend second_commit ''/links/'' (Dir [(''l'', File ''L'')])"
  "git_holds new_git ref_entries new_backend second_commit ''/reses/'' (Dir [(''s'', File ''S'')])"
  by (simp_all add: git_holds_def git_walk_start_def git_ref_def ref_commit_def new_backend_def bad_backend_def
      new_repo_def bad_repo_def path_eval path_strip_prefix_def ref_object_def sample_commit_def ref_entries_def
      ref_entry_def entry_for_def dir_text_def git_get_obj_by_hash_def)

lemma new_files:
  "commit_files deploy_crates new_git ref_entries new_backend second_commit [] [(''r'', sample_rule)]
     [(''l'', sample_link)] [(''s'', sample_res)]"
proof -
  have named: "well_named (Dir [(n, File raw)])" if "good_name n" "utf8_valid n" for n raw
    using that by simp
  show ?thesis
    unfolding commit_files_def
  proof (intro conjI exI)
    show "well_named (Dir [(''r'', File ''R'')])" "well_named (Dir [(''l'', File ''L'')])"
      "well_named (Dir [(''s'', File ''S'')])"
      by (rule named; simp add: good_name_def ascii_valid)+
  qed (use new_holds deploy_parsed in \<open>simp_all add: abs_of_def dir_eval\<close>)
qed

theorem branch_move_served_witness:
  "\<exists>cc' calls r m. center_update_callback deploy_crates (git_storage new_git new_backend) [''/'']
      (root_center NotifyWithoutChangedKeysByGlobal None) \<lparr>ev_new_version = second_commit\<rparr> = (cc', calls, r) \<and>
    cc_current_version cc' = second_commit \<and>
    (\<forall>keys. get_cfg insertion_sort_by [''r''] (cc_store cc' ! 0) mac_user keys OverlaidView False =
      querier_get insertion_sort_by [''r''] m mac_user keys OverlaidView False) \<and>
    res_stor (ms_indices m) = res_stor sample_index"
proof -
  let ?cc = "root_center NotifyWithoutChangedKeysByGlobal None" and ?B = "git_storage new_git new_backend"
  obtain cc' calls r where u: "center_update_callback deploy_crates ?B [''/''] ?cc
      \<lparr>ev_new_version = second_commit\<rparr> = (cc', calls, r)"
    by (metis prod_cases3)
  obtain j where load: "index_load deploy_crates ?B ''/'' second_commit = Ok j"
    using git_index_load [OF ref_git.git_crate_axioms new_files] by (auto simp: ns_name_def)
  have free: "\<not> cc_namespaces_poisoned ?cc" "\<not> cc_version_poisoned ?cc" "cc_namespaces ?cc (ns_name []) = Some 0"
    "nc_notify_level (cc_store ?cc ! 0) = NotifyWithoutChangedKeysByGlobal"
    by (simp_all add: root_center_def first_center_def ns_name_def namespace_center_new_def)
  have tame: "\<forall>ns nc. cv_namespaces (view_of ?cc) ns = Some nc \<longrightarrow> tame deploy_crates ?B second_commit ns nc"
    by (auto simp: view_of_def root_center_def tame_def callback_returns_def namespace_center_new_def
        mem_storage_new_def load)
  from branch_move_served [OF ref_git.git_crate_axioms git_ref_faithful new_round root_center_ok root_order free(1,2) tame free(3,4)
      new_files u] u
  show ?thesis unfolding sample_index_def by blast
qed

end
